(* ===== verification/Prelude.thy ===== *)
theory Prelude
  imports Complex_Main "HOL-Library.AList" "HOL-Library.Sublist" "HOL-Library.Multiset" "HOL-Library.Word"
begin

text \<open>
  What the components share: JavaScript's \<^verbatim>\<open>Map\<close> and \<^verbatim>\<open>Set\<close> (insertion ordered, so
  association lists and lists), JSON values as \<^verbatim>\<open>JSON.parse\<close> returns them, the decimal
  rendering of template strings, and an interface for parsers that are fed chunk by chunk.
  The collection \<open>jsmap\<close> holds the laws of the map operations.
\<close>

named_theorems jsmap \<open>laws of the model of JavaScript maps and sets\<close>

text \<open>
  Component proofs reason about lookups, so the simplifier must not turn a lookup into
  membership in the association list.
\<close>

declare map_of_eq_Some_iff [simp del] map_of_eq_None_iff [simp del]

section \<open>JavaScript maps and sets\<close>

text \<open>
  A \<^verbatim>\<open>Map\<close> iterates in insertion order and \<^verbatim>\<open>set\<close> on a present key keeps its place; this is
  what \<^const>\<open>AList.update\<close> does on an association list. Reads are \<^const>\<open>map_of\<close>.
\<close>

type_synonym ('k, 'v) jsmap = "('k \<times> 'v) list"

definition js_set :: "'k \<Rightarrow> 'v \<Rightarrow> ('k, 'v) jsmap \<Rightarrow> ('k, 'v) jsmap" where
  "js_set k v m = AList.update k v m"

definition js_delete :: "'k \<Rightarrow> ('k, 'v) jsmap \<Rightarrow> ('k, 'v) jsmap" where
  "js_delete k m = AList.delete k m"

definition js_has :: "('k, 'v) jsmap \<Rightarrow> 'k \<Rightarrow> bool" where
  "js_has m k = (map_of m k \<noteq> None)"

abbreviation js_keys :: "('k, 'v) jsmap \<Rightarrow> 'k list" where
  "js_keys m \<equiv> map fst m"

abbreviation js_values :: "('k, 'v) jsmap \<Rightarrow> 'v list" where
  "js_values m \<equiv> map snd m"

abbreviation js_wf :: "('k, 'v) jsmap \<Rightarrow> bool" where
  "js_wf m \<equiv> distinct (map fst m)"

text \<open>A \<^verbatim>\<open>Set\<close> keeps the first insertion of every element.\<close>

definition set_add :: "'a \<Rightarrow> 'a list \<Rightarrow> 'a list" where
  "set_add x xs = (if x \<in> set xs then xs else xs @ [x])"

definition set_delete :: "'a \<Rightarrow> 'a list \<Rightarrow> 'a list" where
  "set_delete x xs = filter (\<lambda>y. y \<noteq> x) xs"

lemma map_of_js_set [simp, jsmap]: "map_of (js_set k v m) = (map_of m)(k \<mapsto> v)"
  by (simp add: js_set_def update_conv')

lemma map_of_js_delete [simp, jsmap]: "map_of (js_delete k m) = (map_of m)(k := None)"
  by (simp add: js_delete_def delete_conv')

lemma js_wf_set [simp, intro]: "js_wf m \<Longrightarrow> js_wf (js_set k v m)"
  by (simp add: js_set_def distinct_update)

lemma js_wf_delete [simp, intro]: "js_wf m \<Longrightarrow> js_wf (js_delete k m)"
  by (simp add: js_delete_def distinct_delete)

lemma keys_js_set [jsmap]:
  "js_keys (js_set k v m) = (if k \<in> set (js_keys m) then js_keys m else js_keys m @ [k])"
  by (simp add: js_set_def update_keys)

lemma keys_js_delete [jsmap]: "js_keys (js_delete k m) = filter (\<lambda>x. x \<noteq> k) (js_keys m)"
  by (induction m) (auto simp: js_delete_def AList.delete_eq)

lemma fst_set_js_set [jsmap]: "fst ` set (js_set k v m) = insert k (fst ` set m)"
  using arg_cong [OF keys_js_set [of k v m], of set] by (auto split: if_splits)

lemma js_has_iff [jsmap]: "js_has m k \<longleftrightarrow> k \<in> set (js_keys m)"
  by (auto simp: js_has_def map_of_eq_None_iff)

lemma js_set_new: "k \<notin> set (js_keys m) \<Longrightarrow> js_set k v m = m @ [(k, v)]"
  by (induction m) (auto simp: js_set_def)

lemma length_js_set_old: "k \<in> set (js_keys m) \<Longrightarrow> length (js_set k v m) = length m"
  by (induction m) (auto simp: js_set_def)

lemma length_js_delete_le: "length (js_delete k m) \<le> length m"
  by (simp add: js_delete_def AList.delete_eq)

lemma js_delete_Cons: "js_delete k (p # m) = (if fst p = k then js_delete k m else p # js_delete k m)"
  by (cases p) (simp add: js_delete_def)

lemma js_delete_absent: "k \<notin> set (js_keys m) \<Longrightarrow> js_delete k m = m"
  by (induction m) (auto simp: js_delete_Cons js_delete_def)

lemma js_delete_append: "js_delete k (m @ n) = js_delete k m @ js_delete k n"
  by (simp add: js_delete_def AList.delete_eq)

lemma js_delete_Nil [simp]: "js_delete k [] = []"
  by (simp add: js_delete_def)

lemma length_js_delete_present:
  "js_wf m \<Longrightarrow> k \<in> set (js_keys m) \<Longrightarrow> Suc (length (js_delete k m)) = length m"
  by (induction m) (auto simp: js_delete_Cons js_delete_absent)

lemma set_js_delete: "set (js_delete k m) = {p \<in> set m. fst p \<noteq> k}"
  by (auto simp: js_delete_def AList.delete_eq)

lemma set_js_set: "js_wf m \<Longrightarrow> set (js_set k v m) = insert (k, v) {p \<in> set m. fst p \<noteq> k}"
  by (induction m) (force simp: js_set_def)+

lemma set_set_add [simp, jsmap]: "set (set_add x xs) = insert x (set xs)"
  by (auto simp: set_add_def)

lemma distinct_set_add [simp]: "distinct xs \<Longrightarrow> distinct (set_add x xs)"
  by (auto simp: set_add_def)

lemma set_set_delete [simp, jsmap]: "set (set_delete x xs) = set xs - {x}"
  by (auto simp: set_delete_def)

lemma distinct_set_delete [simp]: "distinct xs \<Longrightarrow> distinct (set_delete x xs)"
  by (simp add: set_delete_def)

lemma length_filter_id: "length (filter P xs) = length xs \<longleftrightarrow> filter P xs = xs"
  by (metis filter_id_conv length_filter_less order_less_irrefl)

text \<open>
  The interface the components use of a keyed store: a lookup that sees the last write and a
  delete that removes exactly one key.
\<close>

locale keyed_store =
  fixes get :: "'s \<Rightarrow> 'k \<Rightarrow> 'v option"
    and put :: "'k \<Rightarrow> 'v \<Rightarrow> 's \<Rightarrow> 's"
    and del :: "'k \<Rightarrow> 's \<Rightarrow> 's"
    and wf :: "'s \<Rightarrow> bool"
  assumes get_put: "get (put k v s) = (get s)(k \<mapsto> v)"
    and get_del: "get (del k s) = (get s)(k := None)"
    and wf_put: "wf s \<Longrightarrow> wf (put k v s)"
    and wf_del: "wf s \<Longrightarrow> wf (del k s)"
begin

lemma put_same: "get (put k v s) k = Some v"
  by (simp add: get_put)

lemma put_other: "k \<noteq> l \<Longrightarrow> get (put k v s) l = get s l"
  by (simp add: get_put)

lemma del_other: "k \<noteq> l \<Longrightarrow> get (del k s) l = get s l"
  by (simp add: get_del)

lemma put_del_frame: "k \<noteq> l \<Longrightarrow> get (put k v (del k s)) l = get s l"
  by (simp add: get_put get_del)

lemma wf_put_del: "wf s \<Longrightarrow> wf (put k v (del k s))"
  by (intro wf_put wf_del)

end

interpretation jsmap_store: keyed_store map_of js_set js_delete js_wf
  by unfold_locales simp_all

section \<open>JSON values\<close>

text \<open>
  The values \<^verbatim>\<open>JSON.parse\<close> returns. A JSON text such as \<^verbatim>\<open>1e999\<close> parses to \<open>Infinity\<close>, so
  numbers carry the non-finite values; finite ones are exact rationals (the rounding of
  binary64 is not modelled). Reading a field of a value yields \<open>None\<close> for \<^verbatim>\<open>undefined\<close>.
\<close>

datatype jsnum = Fin rat | PosInf | NegInf | NaN

datatype json =
    JNull
  | JBool bool
  | JNum jsnum
  | JStr string
  | JArr "json list"
  | JObj "(string \<times> json) list"

text \<open>Optional chaining \<^verbatim>\<open>v?.name\<close>, on a value that may itself be \<^verbatim>\<open>undefined\<close>.\<close>

fun field :: "string \<Rightarrow> json option \<Rightarrow> json option" where
  "field n (Some (JObj fs)) = map_of fs n"
| "field n _ = None"

text \<open>The nullish default \<^verbatim>\<open>v ?? d\<close>.\<close>

fun nullish :: "json option \<Rightarrow> json \<Rightarrow> json" where
  "nullish None d = d"
| "nullish (Some JNull) d = d"
| "nullish (Some v) d = v"

text \<open>
  What \<^verbatim>\<open>for (const x of v)\<close> iterates over; \<open>None\<close> is the TypeError of a value that is not
  iterable. A string iterates over its characters.
\<close>

fun iterate :: "json \<Rightarrow> json list option" where
  "iterate (JArr xs) = Some xs"
| "iterate (JStr s) = Some (map (\<lambda>c. JStr [c]) s)"
| "iterate _ = None"

text \<open>What a JavaScript call can throw: a type error of the engine, or an error with a message.\<close>

datatype js_error = TypeError | ErrorMsg string

text \<open>The substring test \<^verbatim>\<open>s.includes(p)\<close>.\<close>

definition str_includes :: "string \<Rightarrow> string \<Rightarrow> bool" where
  "str_includes s p = list_ex (prefix p) (suffixes s)"

lemma str_includes_iff: "str_includes s p \<longleftrightarrow> (\<exists>a b. s = a @ p @ b)"
proof
  assume "str_includes s p"
  then obtain t where "suffix t s" "prefix p t" unfolding str_includes_def list_ex_iff by auto
  then show "\<exists>a b. s = a @ p @ b" unfolding prefix_def suffix_def by blast
next
  assume "\<exists>a b. s = a @ p @ b"
  then obtain a b where "s = a @ p @ b" by blast
  then have "p @ b \<in> set (suffixes s)" "prefix p (p @ b)" by (simp_all add: suffix_def)
  then show "str_includes s p" unfolding str_includes_def list_ex_iff by blast
qed

section \<open>Decimal rendering in template strings\<close>

fun digit :: "nat \<Rightarrow> char" where
  "digit n = char_of (48 + n mod 10)"

fun decimal :: "nat \<Rightarrow> string" where
  "decimal n = (if n < 10 then [digit n] else decimal (n div 10) @ [digit n])"

declare decimal.simps [simp del]

definition decimal_int :: "int \<Rightarrow> string" where
  "decimal_int i = (if i < 0 then CHR ''-'' # decimal (nat (- i)) else decimal (nat i))"

definition undigit :: "char \<Rightarrow> nat" where
  "undigit c = of_char c - 48"

definition undecimal :: "string \<Rightarrow> nat" where
  "undecimal s = foldl (\<lambda>a c. 10 * a + undigit c) 0 s"

lemma of_char_digit: "of_char (digit n) = (48 + n mod 10 :: nat)"
proof -
  have "48 + n mod 10 < (256 :: nat)" by (simp add: order.strict_trans2 [of _ 58])
  then show ?thesis by simp
qed

lemma undigit_digit [simp]: "undigit (digit n) = n mod 10"
  unfolding undigit_def of_char_digit by simp

lemma undecimal_snoc: "undecimal (s @ [c]) = 10 * undecimal s + undigit c"
  by (simp add: undecimal_def)

lemma undecimal_decimal [simp]: "undecimal (decimal n) = n"
proof (induction n rule: decimal.induct)
  case (1 n)
  show ?case
  proof (cases "n < 10")
    case True
    then show ?thesis by (simp add: decimal.simps [of n] undecimal_def del: digit.simps)
  next
    case False
    with 1 have "undecimal (decimal (n div 10)) = n div 10" by simp
    with False show ?thesis
      by (simp add: decimal.simps [of n] undecimal_snoc del: digit.simps)
  qed
qed

lemma decimal_inject [simp]: "decimal m = decimal n \<longleftrightarrow> m = n"
  by (metis undecimal_decimal)

lemma decimal_no_minus: "CHR ''-'' \<notin> set (decimal n)"
proof (induction n rule: decimal.induct)
  case (1 n)
  have "digit n \<noteq> CHR ''-''"
  proof
    assume "digit n = CHR ''-''"
    then have "(of_char (digit n) :: nat) = of_char (CHR ''-'')" by (rule arg_cong)
    then show False unfolding of_char_digit by simp
  qed
  with 1 show ?case by (auto simp: decimal.simps [of n] simp del: digit.simps)
qed

lemma decimal_int_inject [simp]: "decimal_int i = decimal_int j \<longleftrightarrow> i = j"
proof -
  have *: "CHR ''-'' # s \<noteq> decimal n" for s n
    using decimal_no_minus [of n] by (metis list.set_intros(1))
  show ?thesis
    by (auto simp: decimal_int_def * *[THEN not_sym] split: if_splits)
qed

section \<open>Parsers fed chunk by chunk\<close>

text \<open>
  Every socket handler appends a chunk to a buffer and drains the complete messages. The
  transport may cut the byte stream anywhere, so the messages must not depend on the cuts.
  The interface asks for that of one cut; any chunking then follows.
\<close>

locale chunked_parser =
  fixes feed :: "'s \<Rightarrow> 'c list \<Rightarrow> 'm list \<times> 's"
    and ready :: "'s \<Rightarrow> bool"
  assumes feed_nil: "ready s \<Longrightarrow> feed s [] = ([], s)"
    and feed_ready: "ready s \<Longrightarrow> ready (snd (feed s c))"
    and feed_append: "ready s \<Longrightarrow> feed s (a @ b) =
      (fst (feed s a) @ fst (feed (snd (feed s a)) b), snd (feed (snd (feed s a)) b))"
begin

fun feed_all :: "'s \<Rightarrow> 'c list list \<Rightarrow> 'm list \<times> 's" where
  "feed_all s [] = ([], s)"
| "feed_all s (c # cs) =
     (let r = feed s c; q = feed_all (snd r) cs in (fst r @ fst q, snd q))"

lemma feed_all_concat: "ready s \<Longrightarrow> feed_all s cs = feed s (concat cs)"
  by (induction cs arbitrary: s) (simp_all add: Let_def feed_nil feed_append feed_ready)

lemma chunking_irrelevant:
  "ready s \<Longrightarrow> concat cs = concat ds \<Longrightarrow> feed_all s cs = feed_all s ds"
  by (simp add: feed_all_concat)

end

end
