(* ===== verification/Types.thy ===== *)
theory Types
  imports Prelude
begin

text \<open>
  The wire types of \<^verbatim>\<open>packages/protocol/src/types.ts\<close> and the frame contract of
  \<^verbatim>\<open>frame.ts\<close>. Times are milliseconds (\<open>int\<close>). An error text is kept as the template it comes
  from with the values interpolated into it, one constructor per template of the source.
\<close>

section \<open>Sessions, approvals, jobs\<close>

datatype SessionState =
    Starting | Ready | Working | Waiting_approval | Waiting_input | Idle | Finished | Errored

record SessionInfo =
  si_id :: string
  si_claudeSessionId :: "string option"
  si_cwd :: string
  si_label :: string
  si_state :: SessionState
  si_model :: "string option"
  si_startedAt :: int
  si_lastActivityAt :: int
  si_pendingApprovals :: nat

datatype verdict = Allow | Deny

record Decision =
  d_decision :: verdict
  d_reason :: string
  d_by :: string
  d_at :: int

record PendingApproval =
  pa_toolUseId :: string
  pa_sessionId :: string
  pa_toolName :: string
  pa_toolInput :: json
  pa_description :: "json option"
  pa_requestedAt :: int
  pa_deadlineAt :: int
  pa_decision :: "Decision option"

record ApprovalHistoryEntry =
  ah_toolUseId :: string
  ah_sessionId :: string
  ah_toolName :: string
  ah_description :: "json option"
  ah_requestedAt :: int
  ah_decision :: verdict
  ah_reason :: string
  ah_decidedBy :: string
  ah_decidedAt :: int

datatype JobState = Queued | Running | Done | Failed

datatype EffortLevel = Low | Medium | High | Xhigh | Max

datatype PermissionMode = AcceptEdits | Auto | BypassPermissions | Manual | DontAsk | Plan

datatype PushPlatform = Ios | Android

text \<open>Why a spawn is refused, and why a job failed.\<close>

datatype margin_reason =
    No_settings string
  | Invalid_settings string
  | No_bridge_hook string
  | Thin_margin rat rat rat

datatype job_error =
    Refusing_to_spawn margin_reason
  | Failed_to_spawn string
  | Exited_with "int option"
  | Daemon_restarted

record JobInfo =
  j_id :: string
  j_cwd :: string
  j_label :: "string option"
  j_disallowedTools :: "string list option"
  j_model :: "string option"
  j_permissionMode :: "PermissionMode option"
  j_effort :: "EffortLevel option"
  j_state :: JobState
  j_sessionId :: "string option"
  j_error :: "job_error option"
  j_requestedBy :: string
  j_createdAt :: int
  j_startedAt :: "int option"
  j_finishedAt :: "int option"

section \<open>Events and commands\<close>

datatype error_text =
    Mode_refused PermissionMode
  | Job_refused job_error
  | No_session string
  | No_pending_approval string
  | Already_decided "string option"
  | No_such_device string

datatype ServerEvent =
    Session_list "SessionInfo list"
  | Session_update SessionInfo
  | Approval_pending PendingApproval
  | Approval_resolved string verdict string
  | Stream string json
  | Error_event error_text
  | Job_update JobInfo
  | Revoked string
  | Approval_history "ApprovalHistoryEntry list"
  | Ack int

record SpawnRequest =
  sr_cwd :: string
  sr_label :: "string option"
  sr_disallowedTools :: "string list option"
  sr_model :: "string option"
  sr_permissionMode :: "PermissionMode option"
  sr_effort :: "EffortLevel option"

datatype ClientCommand =
    List_cmd
  | History "jsnum option"
  | Spawn SpawnRequest
  | Send string string
  | Interrupt string
  | Set_model string string
  | Set_permission_mode string PermissionMode
  | Decide string verdict "string option" string
  | Revoke string
  | Register_push string PushPlatform

text \<open>
  The plaintext handshake. \<open>Other_msg\<close> is any message whose \<^verbatim>\<open>type\<close> is none of the three.
  \<^verbatim>\<open>lastSeq\<close> is untrusted and may be any number.
\<close>

datatype UnauthClientMessage =
    Begin_pair
  | Complete_pair string "string option" string
  | Hello string "jsnum option"
  | Other_msg

datatype UnauthServerMessage =
    Pair_qr string int
  | Paired string string
  | Pair_failed
  | Session_salt string bool "nat option"
  | Hello_failed

section \<open>The frame contract\<close>

datatype Direction = D2c | C2d

record SealedFrame =
  fr_n :: string
  fr_c :: string
  fr_t :: string
  fr_seq :: int

fun direction_text :: "Direction \<Rightarrow> string" where
  "direction_text D2c = ''d2c''"
| "direction_text C2d = ''c2d''"

definition frameAADString :: "Direction \<Rightarrow> int \<Rightarrow> string" where
  "frameAADString direction seq = direction_text direction @ '':'' @ decimal_int seq"

definition field_policy_metadata :: "string list" where
  "field_policy_metadata = [''seq'', ''n'', ''c'', ''t'', ''deviceId'', ''ts'']"

definition field_policy_encrypted :: "string list" where
  "field_policy_encrypted =
     [''sessions'', ''transcript'', ''toolInput'', ''toolName'', ''description'',
      ''cwd'', ''label'', ''prompt'', ''decision'', ''reason'', ''diff'', ''fileContent'',
      ''model'', ''claudeSessionId'', ''apiKeys'', ''env'', ''token'', ''upTo'']"

lemma direction_text_length: "length (direction_text d) = 3"
  by (cases d) simp_all

lemma direction_text_inject [simp]: "direction_text a = direction_text b \<longleftrightarrow> a = b"
  by (cases a; cases b) simp_all

lemma frameAADString_eq_iff:
  "frameAADString d s = frameAADString e t \<longleftrightarrow> d = e \<and> s = t"
  by (auto simp: frameAADString_def direction_text_length append_eq_append_conv)

lemma field_policy_disjoint:
  "set field_policy_metadata \<inter> set field_policy_encrypted = {}"
  by (simp add: field_policy_metadata_def field_policy_encrypted_def)

end
