(* ===== verification/Sync.thy ===== *)
theory Sync
  imports Types
begin

text \<open>
  The per-device sequence primitives of \<^verbatim>\<open>packages/protocol/src/sync.ts\<close>: the outbound counter
  and the inbound deduplication window. The interface \<open>seq_dedup\<close> is what the daemon and the
  client rely on; \<open>InboundStream\<close> is proved to provide it.
\<close>

section \<open>Outbound counter\<close>

record OutboundStream = os_seq :: int

definition new_outbound :: "int \<Rightarrow> OutboundStream" where
  "new_outbound startSeq = \<lparr>os_seq = startSeq\<rparr>"

definition outbound_next :: "OutboundStream \<Rightarrow> int \<times> OutboundStream" where
  "outbound_next o1 = (let s = os_seq o1 + 1 in (s, o1\<lparr>os_seq := s\<rparr>))"

definition outbound_current :: "OutboundStream \<Rightarrow> int" where
  "outbound_current o1 = os_seq o1"

section \<open>Inbound deduplication\<close>

record InboundStream =
  seen :: "int list"
  highest :: int

definition new_inbound :: InboundStream where
  "new_inbound = \<lparr>seen = [], highest = 0\<rparr>"

definition prune_limit :: nat where "prune_limit = 5000"
definition dedup_window :: int where "dedup_window = 2000"

definition prune :: "int \<Rightarrow> int list \<Rightarrow> int list" where
  "prune h xs = (if length xs > prune_limit then filter (\<lambda>s. \<not> s < h - dedup_window) xs else xs)"

definition accept :: "InboundStream \<Rightarrow> int \<Rightarrow> bool \<times> InboundStream" where
  "accept i seq =
     (if seq \<le> highest i \<and> seq \<in> set (seen i) then (False, i)
      else let s1 = set_add seq (seen i); h1 = (if seq > highest i then seq else highest i)
           in (True, \<lparr>seen = prune h1 s1, highest = h1\<rparr>))"

definition inbound_lastSeq :: "InboundStream \<Rightarrow> int" where
  "inbound_lastSeq i = highest i"

text \<open>A client or a daemon feeds the stream one frame after another.\<close>

fun accept_run :: "InboundStream \<Rightarrow> int list \<Rightarrow> bool list \<times> InboundStream" where
  "accept_run i [] = ([], i)"
| "accept_run i (s # ss) =
     (let (b, j) = accept i s; (bs, k) = accept_run j ss in (b # bs, k))"

definition accepted_of :: "int list \<Rightarrow> bool list \<Rightarrow> int list" where
  "accepted_of ss bs = map fst (filter snd (zip ss bs))"

section \<open>Invariant\<close>

text \<open>
  Nothing above the watermark has been seen, nothing is stored twice, and the store never
  holds more than \<open>prune_limit\<close> numbers.
\<close>

definition inbound_inv :: "InboundStream \<Rightarrow> bool" where
  "inbound_inv i \<longleftrightarrow> distinct (seen i) \<and> (\<forall>s\<in>set (seen i). s \<le> highest i)
     \<and> length (seen i) \<le> prune_limit \<and> 0 \<le> highest i"

lemma inbound_inv_new [simp]: "inbound_inv new_inbound"
  by (simp add: inbound_inv_def new_inbound_def)

lemma set_prune: "set (prune h xs) \<subseteq> set xs"
  by (auto simp: prune_def)

lemma prune_keeps_window: "s \<in> set xs \<Longrightarrow> h - dedup_window \<le> s \<Longrightarrow> s \<in> set (prune h xs)"
  by (auto simp: prune_def)

lemma distinct_prune: "distinct xs \<Longrightarrow> distinct (prune h xs)"
  by (simp add: prune_def)

lemma length_prune:
  assumes "distinct xs" "\<forall>s\<in>set xs. s \<le> h"
  shows "length (prune h xs) \<le> prune_limit"
proof (cases "length xs > prune_limit")
  case True
  let ?ys = "filter (\<lambda>s. \<not> s < h - dedup_window) xs"
  have "set ?ys \<subseteq> {h - dedup_window .. h}" using assms(2) by auto
  then have "card (set ?ys) \<le> card {h - dedup_window .. h}" by (intro card_mono) auto
  also have "\<dots> \<le> prune_limit" by (simp add: dedup_window_def prune_limit_def)
  finally have "length ?ys \<le> prune_limit"
    using assms(1) by (metis distinct_card distinct_filter)
  with True show ?thesis by (simp add: prune_def)
qed (simp add: prune_def)

lemma accept_inv: "inbound_inv i \<Longrightarrow> inbound_inv (snd (accept i s))"
proof -
  assume i: "inbound_inv i"
  let ?h = "if s > highest i then s else highest i"
  have d: "distinct (set_add s (seen i))" using i by (simp add: inbound_inv_def)
  have b: "\<forall>x\<in>set (set_add s (seen i)). x \<le> ?h" using i by (auto simp: inbound_inv_def)
  have "distinct (prune ?h (set_add s (seen i)))" using d by (rule distinct_prune)
  moreover have "\<forall>x\<in>set (prune ?h (set_add s (seen i))). x \<le> ?h"
    using b set_prune by blast
  moreover have "length (prune ?h (set_add s (seen i))) \<le> prune_limit"
    using d b by (rule length_prune)
  moreover have "0 \<le> ?h" using i by (simp add: inbound_inv_def)
  ultimately show ?thesis
    using i unfolding accept_def Let_def by (simp add: inbound_inv_def)
qed

lemma accept_highest: "highest (snd (accept i s)) = max (highest i) s"
  by (auto simp: accept_def Let_def)

lemma accept_iff: "inbound_inv i \<Longrightarrow> fst (accept i s) \<longleftrightarrow> s \<notin> set (seen i)"
  by (auto simp: accept_def Let_def inbound_inv_def)

lemma accept_False_unchanged: "\<not> fst (accept i s) \<Longrightarrow> snd (accept i s) = i"
  by (auto simp: accept_def Let_def split: if_splits)

lemma accept_seen_sub: "set (seen (snd (accept i s))) \<subseteq> insert s (set (seen i))"
  by (auto simp: accept_def Let_def dest: subsetD [OF set_prune])

lemma accept_keeps_window:
  assumes "x = s \<or> x \<in> set (seen i)" "highest (snd (accept i s)) - dedup_window \<le> x"
  shows "x \<in> set (seen (snd (accept i s)))"
proof (cases "fst (accept i s)")
  case True
  let ?h = "if s > highest i then s else highest i"
  have "?h = highest (snd (accept i s))" by (simp add: accept_highest)
  moreover have "seen (snd (accept i s)) = prune ?h (set_add s (seen i))"
    using True by (auto simp: accept_def Let_def)
  ultimately show ?thesis using assms by (auto intro!: prune_keeps_window)
next
  case False
  then have "s \<in> set (seen i)" by (auto simp: accept_def Let_def split: if_splits)
  with assms(1) False show ?thesis by (auto simp: accept_False_unchanged)
qed

section \<open>The interface\<close>

text \<open>
  A deduplicator keeps a set of numbers it will refuse. It refuses exactly those, never
  forgets one that lies within \<open>window\<close> of its watermark, and its watermark only grows.
\<close>

locale seq_dedup =
  fixes step :: "'s \<Rightarrow> int \<Rightarrow> bool \<times> 's"
    and known :: "'s \<Rightarrow> int set"
    and mark :: "'s \<Rightarrow> int"
    and invar :: "'s \<Rightarrow> bool"
    and window :: int
  assumes step_invar: "invar i \<Longrightarrow> invar (snd (step i s))"
    and step_refuses: "invar i \<Longrightarrow> fst (step i s) \<longleftrightarrow> s \<notin> known i"
    and step_mark: "mark (snd (step i s)) = max (mark i) s"
    and step_keeps: "invar i \<Longrightarrow> x = s \<or> x \<in> known i \<Longrightarrow> mark (snd (step i s)) - window \<le> x
                      \<Longrightarrow> x \<in> known (snd (step i s))"
begin

fun run :: "'s \<Rightarrow> int list \<Rightarrow> bool list \<times> 's" where
  "run i [] = ([], i)"
| "run i (s # ss) = (let (b, j) = step i s; (bs, k) = run j ss in (b # bs, k))"

lemma run_append: "run i (xs @ ys) =
    (fst (run i xs) @ fst (run (snd (run i xs)) ys), snd (run (snd (run i xs)) ys))"
  by (induction xs arbitrary: i) (auto simp: split_beta Let_def)

lemma run_invar: "invar i \<Longrightarrow> invar (snd (run i ss))"
  by (induction ss arbitrary: i) (auto simp: split_beta step_invar)

lemma length_run [simp]: "length (fst (run i ss)) = length ss"
  by (induction ss arbitrary: i) (auto simp: split_beta)

lemma run_mark_mono: "mark i \<le> mark (snd (run i ss))"
proof (induction ss arbitrary: i)
  case (Cons s ss)
  have "mark i \<le> mark (snd (step i s))" by (simp add: step_mark)
  also have "\<dots> \<le> mark (snd (run (snd (step i s)) ss))" by (rule Cons.IH)
  finally show ?case by (simp add: split_beta)
qed simp

lemma run_keeps:
  "invar i \<Longrightarrow> x \<in> known i \<Longrightarrow> mark (snd (run i ss)) - window \<le> x \<Longrightarrow> x \<in> known (snd (run i ss))"
proof (induction ss arbitrary: i)
  case (Cons s ss)
  let ?j = "snd (step i s)"
  have "mark ?j \<le> mark (snd (run ?j ss))" by (rule run_mark_mono)
  with Cons.prems have "x \<in> known ?j" by (intro step_keeps) (auto simp: split_beta)
  with Cons.prems show ?case by (simp add: split_beta Cons.IH step_invar)
qed simp

lemma run_delivered_known:
  "invar i \<Longrightarrow> x \<in> set ss \<Longrightarrow> mark (snd (run i ss)) - window \<le> x \<Longrightarrow> x \<in> known (snd (run i ss))"
proof (induction ss arbitrary: i)
  case (Cons s ss)
  let ?j = "snd (step i s)"
  have m: "mark ?j \<le> mark (snd (run ?j ss))" by (rule run_mark_mono)
  show ?case
  proof (cases "x \<in> set ss")
    case True
    with Cons.prems show ?thesis by (simp add: split_beta Cons.IH step_invar)
  next
    case False
    with Cons.prems m have "x \<in> known ?j" by (intro step_keeps) (auto simp: split_beta)
    with Cons.prems show ?thesis by (simp add: split_beta run_keeps step_invar)
  qed
qed simp

text \<open>At most once: a number already delivered and still inside the window is refused.\<close>

lemma redelivery_refused:
  "invar i \<Longrightarrow> x \<in> set ss \<Longrightarrow> mark (snd (run i ss)) - window \<le> x \<Longrightarrow>
     \<not> fst (step (snd (run i ss)) x)"
  by (simp add: step_refuses run_invar run_delivered_known)

end

interpretation inb: seq_dedup accept "\<lambda>i. set (seen i)" highest inbound_inv dedup_window
  by unfold_locales (simp_all add: accept_inv accept_iff accept_highest accept_keeps_window)

lemma accept_run_eq: "accept_run i ss = inb.run i ss"
  by (induction ss arbitrary: i) (auto simp: split_beta)

lemma accept_run_highest:
  "highest (snd (accept_run i ss)) = foldl max (highest i) ss"
  by (induction ss arbitrary: i) (auto simp: split_beta accept_highest)

lemma foldl_max_upper: "\<forall>s\<in>set ss. s \<le> m \<Longrightarrow> h \<le> m \<Longrightarrow> foldl max h ss \<le> (m::int)"
  by (induction ss arbitrary: h) auto

text \<open>
  While everything fits the window, the accepted numbers are pairwise distinct.
\<close>

lemma accept_run_distinct:
  assumes "inbound_inv i" "\<forall>s\<in>set ss. foldl max (highest i) ss - dedup_window \<le> s"
  shows "distinct (accepted_of ss (fst (accept_run i ss)))
    \<and> set (accepted_of ss (fst (accept_run i ss))) \<inter> set (seen i) = {}"
  using assms
proof (induction ss arbitrary: i)
  case (Cons s ss)
  let ?j = "snd (accept i s)" and ?r = "\<lambda>j. accepted_of ss (fst (accept_run j ss))"
  have j: "inbound_inv ?j" using Cons.prems(1) by (rule accept_inv)
  have f: "foldl max (highest ?j) ss = foldl max (highest i) (s # ss)"
    by (simp add: accept_highest)
  have IH: "distinct (?r ?j) \<and> set (?r ?j) \<inter> set (seen ?j) = {}"
    using Cons.IH [OF j] Cons.prems(2) f by simp
  have mono: "highest ?j \<le> foldl max (highest i) (s # ss)"
    using inb.run_mark_mono [of ?j ss] f by (simp add: accept_run_eq [symmetric] accept_run_highest)
  have sub: "set (?r ?j) \<subseteq> set ss" by (auto simp: accepted_of_def dest: set_zip_leftD)
  have win: "x \<in> set (s # ss) \<Longrightarrow> highest ?j - dedup_window \<le> x" for x
    using Cons.prems(2) mono by force
  have kept: "x \<in> set (s # ss) \<Longrightarrow> x = s \<or> x \<in> set (seen i) \<Longrightarrow> x \<in> set (seen ?j)" for x
    using win accept_keeps_window by blast
  have "s \<in> set (seen ?j)" using kept by auto
  moreover have "set (?r ?j) \<inter> set (seen i) = {}" using IH sub kept by fastforce
  moreover have "fst (accept i s) \<Longrightarrow> s \<notin> set (seen i)" using Cons.prems(1) by (simp add: accept_iff)
  ultimately show ?case using IH
    by (auto simp: accepted_of_def split_beta)
qed (simp add: accepted_of_def)

section \<open>Properties\<close>

text \<open>
  C32: At-most-once delivery. Whatever frames a stream has taken, a sequence number that was
  among them and is not more than 2000 below the watermark is refused when it arrives again,
  and the refusal leaves the stream as it was.
\<close>

theorem inbound_redelivery_refused:
  assumes "x \<in> set ss" "highest (snd (accept_run new_inbound ss)) - dedup_window \<le> x"
  shows "accept (snd (accept_run new_inbound ss)) x = (False, snd (accept_run new_inbound ss))"
proof -
  have "\<not> fst (accept (snd (accept_run new_inbound ss)) x)"
    using inb.redelivery_refused [OF inbound_inv_new assms(1)] assms(2)
    by (simp add: accept_run_eq)
  then show ?thesis by (metis accept_False_unchanged prod.collapse)
qed

theorem inbound_redelivery_refused_witness:
  "accept (snd (accept_run new_inbound [1, 3, 2])) 3 = (False, snd (accept_run new_inbound [1, 3, 2]))"
  by (rule inbound_redelivery_refused)
    (simp_all add: accept_def new_inbound_def Let_def set_add_def prune_def dedup_window_def prune_limit_def)

text \<open>
  Bounded memory. After any sequence of frames the stream stores at most 5000 numbers, no
  number twice, and its resume point is the largest number it was given (or 0).
\<close>

theorem inbound_bounded:
  "length (seen (snd (accept_run new_inbound ss))) \<le> 5000
   \<and> distinct (seen (snd (accept_run new_inbound ss)))
   \<and> inbound_lastSeq (snd (accept_run new_inbound ss)) = foldl max 0 ss"
proof -
  have "inbound_inv (snd (accept_run new_inbound ss))"
    unfolding accept_run_eq by (rule inb.run_invar) simp
  then show ?thesis
    by (simp add: inbound_inv_def prune_limit_def inbound_lastSeq_def accept_run_highest new_inbound_def)
qed

end
