(* ===== verification/Resend.thy ===== *)
theory Resend
  imports Types
begin

text \<open>
  The client's buffer of sent but unacknowledged commands,
  \<^verbatim>\<open>packages/protocol/src/resend.ts\<close>. The abstract view is a finite map from sequence numbers
  to commands; \<open>unacked_store\<close> is the interface the reliable client uses.
\<close>

record 'c ResendBuffer =
  pendingCmds :: "(int, 'c) jsmap"
  capacity :: nat

definition resend_default_capacity :: nat where "resend_default_capacity = 256"

definition new_resend :: "nat \<Rightarrow> 'c ResendBuffer" where
  "new_resend cap = \<lparr>pendingCmds = [], capacity = cap\<rparr>"

definition resend_add :: "int \<Rightarrow> 'c \<Rightarrow> 'c ResendBuffer \<Rightarrow> bool \<times> 'c ResendBuffer" where
  "resend_add seq cmd b =
     (if length (pendingCmds b) \<ge> capacity b then (False, b)
      else (True, b\<lparr>pendingCmds := js_set seq cmd (pendingCmds b)\<rparr>))"

text \<open>\<^verbatim>\<open>ackUpTo\<close> walks over the keys and deletes those up to \<open>n\<close>.\<close>

definition ackUpTo :: "int \<Rightarrow> 'c ResendBuffer \<Rightarrow> 'c ResendBuffer" where
  "ackUpTo n b = b\<lparr>pendingCmds :=
     foldl (\<lambda>m seq. if seq \<le> n then js_delete seq m else m) (pendingCmds b) (js_keys (pendingCmds b))\<rparr>"

definition pending :: "'c ResendBuffer \<Rightarrow> (int \<times> 'c) list" where
  "pending b = sort_key fst (pendingCmds b)"

definition resend_size :: "'c ResendBuffer \<Rightarrow> nat" where
  "resend_size b = length (pendingCmds b)"

definition isFull :: "'c ResendBuffer \<Rightarrow> bool" where
  "isFull b \<longleftrightarrow> length (pendingCmds b) \<ge> capacity b"

section \<open>Invariant and abstract view\<close>

definition resend_inv :: "'c ResendBuffer \<Rightarrow> bool" where
  "resend_inv b \<longleftrightarrow> js_wf (pendingCmds b) \<and> length (pendingCmds b) \<le> capacity b"

definition unacked :: "'c ResendBuffer \<Rightarrow> int \<rightharpoonup> 'c" where
  "unacked b = map_of (pendingCmds b)"

lemma delete_upto_filter:
  "foldl (\<lambda>m s. if s \<le> n then js_delete s m else m) m ks
     = filter (\<lambda>p. \<not> (fst p \<in> set ks \<and> fst p \<le> (n::int))) m"
proof (induction ks arbitrary: m)
  case (Cons k ks)
  have "js_delete k m = filter (\<lambda>p. fst p \<noteq> k) m"
    by (auto simp: js_delete_def AList.delete_eq intro: filter_cong)
  then show ?case
    by (auto simp: Cons.IH filter_filter intro!: filter_cong)
qed simp

lemma pendingCmds_ackUpTo:
  "pendingCmds (ackUpTo n b) = filter (\<lambda>p. n < fst p) (pendingCmds b)"
  by (force simp: ackUpTo_def delete_upto_filter intro!: filter_cong)

lemma capacity_simps [simp]:
  "capacity (ackUpTo n b) = capacity b" "capacity (snd (resend_add s c b)) = capacity b"
  by (simp_all add: ackUpTo_def resend_add_def)

lemma resend_inv_new [simp]: "resend_inv (new_resend cap)"
  by (simp add: resend_inv_def new_resend_def)

lemma resend_inv_add: "resend_inv b \<Longrightarrow> resend_inv (snd (resend_add s c b))"
  by (cases "s \<in> set (js_keys (pendingCmds b))")
    (auto simp: resend_inv_def resend_add_def length_js_set_old js_set_new)

lemma resend_inv_ack: "resend_inv b \<Longrightarrow> resend_inv (ackUpTo n b)"
  by (auto simp: resend_inv_def pendingCmds_ackUpTo distinct_map_filter
      intro: le_trans [OF length_filter_le])

lemma unacked_add:
  "unacked (snd (resend_add s c b)) = (if fst (resend_add s c b) then (unacked b)(s \<mapsto> c) else unacked b)"
  by (simp add: unacked_def resend_add_def)

lemma map_of_filter_fst: "map_of (filter (\<lambda>p. P (fst p)) m) k = (if P k then map_of m k else None)"
  by (induction m) auto

lemma unacked_ack: "unacked (ackUpTo n b) = (\<lambda>s. if n < s then unacked b s else None)"
  by (rule ext) (simp add: unacked_def pendingCmds_ackUpTo map_of_filter_fst)

lemma set_pending: "resend_inv b \<Longrightarrow> (s, c) \<in> set (pending b) \<longleftrightarrow> unacked b s = Some c"
  by (simp add: pending_def unacked_def resend_inv_def map_of_eq_Some_iff)

lemma pending_strictly_ascending:
  assumes "resend_inv b"
  shows "sorted_wrt (<) (map fst (pending b))"
proof -
  have "sorted (map fst (pending b))" by (simp add: pending_def)
  moreover have "distinct (map fst (pending b))"
    using assms by (metis distinct_map distinct_sort inj_on_cong pending_def resend_inv_def set_sort)
  ultimately show ?thesis by (simp add: strict_sorted_iff)
qed

section \<open>The interface of an unacknowledged-command store\<close>

locale unacked_store =
  fixes add :: "int \<Rightarrow> 'c \<Rightarrow> 's \<Rightarrow> bool \<times> 's"
    and ack :: "int \<Rightarrow> 's \<Rightarrow> 's"
    and entries :: "'s \<Rightarrow> (int \<times> 'c) list"
    and view :: "'s \<Rightarrow> int \<rightharpoonup> 'c"
    and invar :: "'s \<Rightarrow> bool"
  assumes add_view: "view (snd (add s c b)) = (if fst (add s c b) then (view b)(s \<mapsto> c) else view b)"
    and ack_view: "view (ack n b) = (\<lambda>s. if n < s then view b s else None)"
    and entries_view: "invar b \<Longrightarrow> (s, c) \<in> set (entries b) \<longleftrightarrow> view b s = Some c"
    and entries_sorted: "invar b \<Longrightarrow> sorted_wrt (<) (map fst (entries b))"
    and add_invar: "invar b \<Longrightarrow> invar (snd (add s c b))"
    and ack_invar: "invar b \<Longrightarrow> invar (ack n b)"
begin

text \<open>Nothing leaves the store but by an acknowledgement that covers it.\<close>

lemma add_keeps: "view b s = Some c \<Longrightarrow> s \<noteq> t \<Longrightarrow> view (snd (add t d b)) s = Some c"
  by (simp add: add_view)

lemma ack_keeps: "view b s = Some c \<Longrightarrow> n < s \<Longrightarrow> view (ack n b) s = Some c"
  by (simp add: ack_view)

lemma ack_ack: "view (ack m (ack n b)) = view (ack (max m n) b)"
  by (rule ext) (simp add: ack_view)

lemma entries_distinct: "invar b \<Longrightarrow> distinct (map fst (entries b))"
  using entries_sorted strict_sorted_iff by blast

end

interpretation rb: unacked_store resend_add ackUpTo pending unacked resend_inv
  by unfold_locales (simp_all add: unacked_add unacked_ack set_pending pending_strictly_ascending
      resend_inv_add resend_inv_ack)

section \<open>Properties\<close>

text \<open>
  The resend queue is exactly the map of unacknowledged commands. Every operation keeps
  the capacity bound; a refused \<^verbatim>\<open>add\<close> happens exactly when the buffer is full and changes
  nothing; an accepted one stores the command; an acknowledgement drops exactly the numbers
  it covers; and \<^verbatim>\<open>pending\<close> lists the map in strictly ascending order of sequence number.
\<close>

theorem resend_refines_map:
  assumes "resend_inv b"
  shows "resend_inv (snd (resend_add s c b)) \<and> resend_inv (ackUpTo n b)
    \<and> (fst (resend_add s c b) \<longleftrightarrow> \<not> isFull b)
    \<and> unacked (snd (resend_add s c b)) = (if isFull b then unacked b else (unacked b)(s \<mapsto> c))
    \<and> unacked (ackUpTo n b) = unacked b |` {n<..}
    \<and> sorted_wrt (<) (map fst (pending b)) \<and> map_of (pending b) = unacked b"
proof -
  have "map_of (pending b) k = unacked b k" for k
    using rb.entries_distinct [OF assms] set_pending [OF assms]
    by (metis map_of_eq_Some_iff option.exhaust)
  then have "map_of (pending b) = unacked b" by blast
  moreover have "unacked (ackUpTo n b) = unacked b |` {n<..}"
    by (rule ext) (simp add: unacked_ack restrict_map_def)
  moreover have "unacked (snd (resend_add s c b)) = (if isFull b then unacked b else (unacked b)(s \<mapsto> c))"
    by (simp add: unacked_def resend_add_def isFull_def)
  moreover have "fst (resend_add s c b) \<longleftrightarrow> \<not> isFull b" by (simp add: resend_add_def isFull_def)
  ultimately show ?thesis
    using assms by (simp add: resend_inv_add resend_inv_ack pending_strictly_ascending)
qed

theorem resend_refines_map_witness:
  "unacked (ackUpTo 1 (snd (resend_add 2 ''b'' (snd (resend_add 1 ''a'' (new_resend 256))))))
     = unacked (snd (resend_add 2 ''b'' (snd (resend_add 1 ''a'' (new_resend 256))))) |` {1<..}"
  using resend_refines_map [of "snd (resend_add 2 ''b'' (snd (resend_add 1 ''a'' (new_resend 256))))"
      0 "''c''" 1]
  by (simp add: resend_inv_add)

end
