(* ===== verification/Replay.thy ===== *)
theory Replay
  imports Types
begin

text \<open>
  The daemon's bounded per-device event log, \<^verbatim>\<open>packages/daemon/src/domain/replay.ts\<close>. The
  clock is an argument of the operations that read it.
\<close>

type_synonym 'e ReplayEntry = "int \<times> 'e"

record 'e DeviceBuffer =
  events :: "'e ReplayEntry list"
  lastSeenAt :: int

record 'e DeviceReplayLog =
  byDevice :: "(string, 'e DeviceBuffer) jsmap"
  maxDevices :: nat
  maxEventsPerDevice :: nat

definition new_replay_log :: "nat \<Rightarrow> nat \<Rightarrow> 'e DeviceReplayLog" where
  "new_replay_log md me = \<lparr>byDevice = [], maxDevices = md, maxEventsPerDevice = me\<rparr>"

text \<open>The scan for the least recently seen device: the first strict minimum in map order.\<close>

fun lru_scan :: "(string \<times> int) option \<Rightarrow> (string, 'e DeviceBuffer) jsmap \<Rightarrow> (string \<times> int) option" where
  "lru_scan best [] = best"
| "lru_scan best ((dev, entry) # rest) =
     lru_scan (case best of
         None \<Rightarrow> Some (dev, lastSeenAt entry)
       | Some (oldestId, oldestAt) \<Rightarrow>
           if lastSeenAt entry < oldestAt then Some (dev, lastSeenAt entry) else best) rest"

definition evictLRUIfOverCap :: "'e DeviceReplayLog \<Rightarrow> string option \<times> 'e DeviceReplayLog" where
  "evictLRUIfOverCap l =
     (if length (byDevice l) \<le> maxDevices l then (None, l)
      else case lru_scan None (byDevice l) of
        None \<Rightarrow> (None, l)
      | Some (oldestId, _) \<Rightarrow>
          (Some oldestId,
           if oldestId \<noteq> [] then l\<lparr>byDevice := js_delete oldestId (byDevice l)\<rparr> else l))"

definition push_entry :: "nat \<Rightarrow> 'e ReplayEntry \<Rightarrow> 'e DeviceBuffer \<Rightarrow> 'e DeviceBuffer" where
  "push_entry me e b =
     (let es = events b @ [e]
      in b\<lparr>events := if length es > me then drop (length es - me) es else es\<rparr>)"

text \<open>
  \<^verbatim>\<open>record\<close> pushes to the entry object it holds. When the eviction it triggered removed that
  very entry, the push is invisible: the object is no longer in the map.
\<close>

definition log_record ::
    "string \<Rightarrow> int \<Rightarrow> 'e \<Rightarrow> int \<Rightarrow> 'e DeviceReplayLog \<Rightarrow> string option \<times> 'e DeviceReplayLog" where
  "log_record deviceId seq ev now l =
     (let (evicted, l1) =
        (if js_has (byDevice l) deviceId then (None, l)
         else evictLRUIfOverCap
           (l\<lparr>byDevice := js_set deviceId \<lparr>events = [], lastSeenAt = now\<rparr> (byDevice l)\<rparr>))
      in (evicted,
          case map_of (byDevice l1) deviceId of
            None \<Rightarrow> l1
          | Some entry \<Rightarrow> l1\<lparr>byDevice :=
              js_set deviceId (push_entry (maxEventsPerDevice l1) (seq, ev) entry) (byDevice l1)\<rparr>))"

definition replayFrom ::
    "string \<Rightarrow> int \<Rightarrow> int \<Rightarrow> 'e DeviceReplayLog \<Rightarrow> 'e ReplayEntry list \<times> bool" where
  "replayFrom deviceId currentSeq lastSeq l =
     (if lastSeq > currentSeq then ([], True)
      else if lastSeq = currentSeq then ([], False)
      else case map_of (byDevice l) deviceId of
        None \<Rightarrow> ([], True)
      | Some entry \<Rightarrow>
          (case events entry of
             [] \<Rightarrow> ([], True)
           | (oldest, _) # _ \<Rightarrow>
               if lastSeq + 1 < oldest then (events entry, True)
               else (filter (\<lambda>e. fst e > lastSeq) (events entry), False)))"

definition touch :: "string \<Rightarrow> int \<Rightarrow> 'e DeviceReplayLog \<Rightarrow> 'e DeviceReplayLog" where
  "touch deviceId now l =
     (case map_of (byDevice l) deviceId of
        None \<Rightarrow> l
      | Some entry \<Rightarrow> l\<lparr>byDevice := js_set deviceId (entry\<lparr>lastSeenAt := now\<rparr>) (byDevice l)\<rparr>)"

definition log_evict :: "string \<Rightarrow> 'e DeviceReplayLog \<Rightarrow> 'e DeviceReplayLog" where
  "log_evict deviceId l = l\<lparr>byDevice := js_delete deviceId (byDevice l)\<rparr>"

definition deviceCount :: "'e DeviceReplayLog \<Rightarrow> nat" where
  "deviceCount l = length (byDevice l)"

section \<open>Least recently used\<close>

lemma lru_scan_Some: "lru_scan (Some b) m \<noteq> None"
  by (induction m arbitrary: b) (auto split: if_splits)

lemma lru_scan_min:
  "lru_scan best m = Some (i, a) \<Longrightarrow>
     (best = Some (i, a) \<or> (\<exists>e. (i, e) \<in> set m \<and> lastSeenAt e = a))
     \<and> (\<forall>j b. best = Some (j, b) \<longrightarrow> a \<le> b) \<and> (\<forall>(j, e)\<in>set m. a \<le> lastSeenAt e)"
proof (induction best m rule: lru_scan.induct)
  case (2 best d entry rest)
  let ?nb = "case best of None \<Rightarrow> Some (d, lastSeenAt entry)
       | Some (oldestId, oldestAt) \<Rightarrow>
           if lastSeenAt entry < oldestAt then Some (d, lastSeenAt entry) else best"
  from 2 have IH: "?nb = Some (i, a) \<or> (\<exists>e. (i, e) \<in> set rest \<and> lastSeenAt e = a)"
    "\<forall>j b. ?nb = Some (j, b) \<longrightarrow> a \<le> b" "\<forall>(j, e)\<in>set rest. a \<le> lastSeenAt e" by auto
  obtain j b where nb: "?nb = Some (j, b)"
    by (cases best; cases "lastSeenAt entry < snd (the best)") auto
  with IH(2) have "a \<le> b" by blast
  moreover have "b \<le> lastSeenAt entry" "\<And>k c. best = Some (k, c) \<Longrightarrow> b \<le> c"
    using nb by (auto split: option.splits if_splits)
  moreover have "best = Some (j, b) \<or> (j = d \<and> b = lastSeenAt entry)"
    using nb by (auto split: option.splits if_splits)
  ultimately show ?case using IH(1,3) nb by (auto intro: order_trans)
qed auto

lemma lru_scan_in: "lru_scan None m = Some (i, a) \<Longrightarrow> i \<in> set (js_keys m)"
  using lru_scan_min [of None m i a] by force

lemma lru_scan_nonempty: "m \<noteq> [] \<Longrightarrow> lru_scan None m \<noteq> None"
  using lru_scan_Some by (cases m) fastforce+

section \<open>Invariant: both caps hold\<close>

definition log_inv :: "'e DeviceReplayLog \<Rightarrow> bool" where
  "log_inv l \<longleftrightarrow> js_wf (byDevice l)
     \<and> [] \<notin> set (js_keys (byDevice l))
     \<and> length (byDevice l) \<le> maxDevices l
     \<and> (\<forall>d b. map_of (byDevice l) d = Some b \<longrightarrow> length (events b) \<le> maxEventsPerDevice l)"

lemma caps_simps [simp]:
  "maxDevices (snd (evictLRUIfOverCap l)) = maxDevices l"
  "maxEventsPerDevice (snd (evictLRUIfOverCap l)) = maxEventsPerDevice l"
  by (auto simp: evictLRUIfOverCap_def split: option.splits)

lemma log_record_caps [simp]:
  "maxDevices (snd (log_record d s e t l)) = maxDevices l"
  "maxEventsPerDevice (snd (log_record d s e t l)) = maxEventsPerDevice l"
proof -
  let ?l0 = "l\<lparr>byDevice := js_set d \<lparr>events = [], lastSeenAt = t\<rparr> (byDevice l)\<rparr>"
  have "maxDevices (snd (evictLRUIfOverCap ?l0)) = maxDevices l"
    "maxEventsPerDevice (snd (evictLRUIfOverCap ?l0)) = maxEventsPerDevice l" by simp_all
  then show "maxDevices (snd (log_record d s e t l)) = maxDevices l"
    "maxEventsPerDevice (snd (log_record d s e t l)) = maxEventsPerDevice l"
    by (auto simp: log_record_def split_beta split: option.split)
qed

lemma evict_result:
  "js_wf (byDevice l) \<Longrightarrow> [] \<notin> set (js_keys (byDevice l)) \<Longrightarrow>
    (evictLRUIfOverCap l = (None, l) \<and> length (byDevice l) \<le> maxDevices l) \<or>
    (\<exists>v a. lru_scan None (byDevice l) = Some (v, a) \<and> v \<in> set (js_keys (byDevice l)) \<and>
       maxDevices l < length (byDevice l) \<and>
       evictLRUIfOverCap l = (Some v, l\<lparr>byDevice := js_delete v (byDevice l)\<rparr>))"
proof (cases "length (byDevice l) \<le> maxDevices l")
  case False
  assume ne: "[] \<notin> set (js_keys (byDevice l))"
  from False obtain v a where v: "lru_scan None (byDevice l) = Some (v, a)"
    using lru_scan_nonempty [of "byDevice l"] by fastforce
  with ne have "v \<noteq> []" using lru_scan_in by blast
  with False v lru_scan_in [OF v] show ?thesis by (simp add: evictLRUIfOverCap_def)
qed (simp add: evictLRUIfOverCap_def)

lemma length_push_entry_le: "length (events (push_entry me e b)) \<le> me"
  by (simp add: push_entry_def Let_def del: drop_append)

text \<open>
  Where a new device enters the log and what leaves it: the step is either an append to a
  present buffer, a new buffer under the cap, or a new buffer and one eviction.
\<close>

lemma log_record_cases:
  assumes "log_inv l" "d \<noteq> []"
  obtains (present) b where "map_of (byDevice l) d = Some b"
      "log_record d s e t l = (None, l\<lparr>byDevice :=
          js_set d (push_entry (maxEventsPerDevice l) (s, e) b) (byDevice l)\<rparr>)"
  | (room) "map_of (byDevice l) d = None" "length (byDevice l) < maxDevices l"
      "log_record d s e t l = (None, l\<lparr>byDevice := js_set d (push_entry (maxEventsPerDevice l) (s, e)
          \<lparr>events = [], lastSeenAt = t\<rparr>) (js_set d \<lparr>events = [], lastSeenAt = t\<rparr> (byDevice l))\<rparr>)"
  | (self) "map_of (byDevice l) d = None" "length (byDevice l) = maxDevices l"
      "log_record d s e t l = (Some d, l\<lparr>byDevice :=
          js_delete d (js_set d \<lparr>events = [], lastSeenAt = t\<rparr> (byDevice l))\<rparr>)"
  | (other) v where "map_of (byDevice l) d = None" "length (byDevice l) = maxDevices l"
      "v \<noteq> d" "v \<in> set (js_keys (byDevice l))"
      "log_record d s e t l = (Some v, l\<lparr>byDevice := js_set d (push_entry (maxEventsPerDevice l) (s, e)
          \<lparr>events = [], lastSeenAt = t\<rparr>)
          (js_delete v (js_set d \<lparr>events = [], lastSeenAt = t\<rparr> (byDevice l)))\<rparr>)"
proof (cases "map_of (byDevice l) d")
  case (Some b)
  then show ?thesis by (intro present) (simp_all add: log_record_def js_has_def)
next
  case None
  let ?b = "\<lparr>events = [], lastSeenAt = t\<rparr>"
  let ?m = "js_set d ?b (byDevice l)"
  let ?l = "l\<lparr>byDevice := ?m\<rparr>"
  have nd: "d \<notin> set (js_keys (byDevice l))" using None by (simp add: map_of_eq_None_iff)
  have len: "length ?m = Suc (length (byDevice l))" using nd by (simp add: js_set_new)
  have wf: "js_wf (byDevice ?l)" "[] \<notin> set (js_keys (byDevice ?l))"
    using assms nd by (auto simp: log_inv_def js_set_new)
  from evict_result [OF wf] show ?thesis
  proof (elim disjE exE conjE)
    assume "evictLRUIfOverCap ?l = (None, ?l)" "length (byDevice ?l) \<le> maxDevices ?l"
    with None len show ?thesis by (intro room) (simp_all add: log_record_def js_has_def)
  next
    fix v a
    assume v: "v \<in> set (js_keys (byDevice ?l))" and over: "maxDevices ?l < length (byDevice ?l)"
      and ev: "evictLRUIfOverCap ?l = (Some v, ?l\<lparr>byDevice := js_delete v (byDevice ?l)\<rparr>)"
    have full: "length (byDevice l) = maxDevices l" using over len assms(1) by (simp add: log_inv_def)
    show ?thesis
    proof (cases "v = d")
      case True
      with None ev full show ?thesis by (intro self) (simp_all add: log_record_def js_has_def)
    next
      case False
      with v nd have "v \<in> set (js_keys (byDevice l))" by (auto simp: js_set_new)
      with False None ev full show ?thesis
        by (intro other [of v]) (simp_all add: log_record_def js_has_def)
    qed
  qed
qed

lemma length_js_set_le: "length (js_set k v m) \<le> Suc (length m)"
  by (induction m) (auto simp: js_set_def)

lemma log_record_inv:
  assumes "log_inv l" "d \<noteq> []"
  shows "log_inv (snd (log_record d s e t l))"
  using assms
proof (cases rule: log_record_cases [where s = s and e = e and t = t])
  case (present b)
  then have "d \<in> set (js_keys (byDevice l))" by (metis map_of_eq_None_iff option.distinct(1) set_map)
  with present assms show ?thesis
    by (auto simp: log_inv_def length_js_set_old keys_js_set simp del: set_map intro: length_push_entry_le)
next
  case room
  then have "d \<notin> set (js_keys (byDevice l))" by (simp add: map_of_eq_None_iff)
  with room assms show ?thesis
    by (auto simp: log_inv_def length_js_set_old js_set_new keys_js_set simp del: set_map
        intro: length_push_entry_le)
next
  case self
  then have "d \<notin> set (js_keys (byDevice l))" by (simp add: map_of_eq_None_iff)
  with self assms have "js_delete d (js_set d \<lparr>events = [], lastSeenAt = t\<rparr> (byDevice l)) = byDevice l"
    by (simp add: js_set_new js_delete_append js_delete_Cons js_delete_absent)
  with self assms show ?thesis by simp
next
  case (other v)
  let ?m = "js_set d \<lparr>events = [], lastSeenAt = t\<rparr> (byDevice l)"
  have nd: "d \<notin> set (js_keys (byDevice l))" using other by (simp add: map_of_eq_None_iff)
  then have m: "?m = byDevice l @ [(d, \<lparr>events = [], lastSeenAt = t\<rparr>)]" by (rule js_set_new)
  have wf: "js_wf ?m" using assms nd by (simp add: log_inv_def m)
  have "Suc (length (js_delete v ?m)) = length ?m"
    using wf other(4) by (intro length_js_delete_present) (auto simp: m)
  moreover have "d \<in> set (js_keys (js_delete v ?m))" using other(3) by (auto simp: keys_js_delete m)
  moreover have "[] \<notin> set (js_keys (js_delete v ?m))"
    using assms by (auto simp: keys_js_delete m log_inv_def)
  ultimately show ?thesis
    using other assms wf
    by (auto simp: log_inv_def length_js_set_old keys_js_set m simp del: set_map
        intro: length_push_entry_le split: if_splits)
qed

lemma touch_inv: "log_inv l \<Longrightarrow> log_inv (touch d t l)"
proof (cases "map_of (byDevice l) d")
  case (Some b)
  then have "d \<in> set (js_keys (byDevice l))" by (metis map_of_eq_None_iff option.distinct(1) set_map)
  moreover assume "log_inv l"
  ultimately show ?thesis using Some
    by (auto simp: touch_def log_inv_def length_js_set_old keys_js_set simp del: set_map split: if_splits)
qed (simp add: touch_def)

lemma log_evict_inv: "log_inv l \<Longrightarrow> log_inv (log_evict d l)"
  by (auto simp: log_evict_def log_inv_def keys_js_delete simp del: set_map
      intro: le_trans [OF length_js_delete_le] split: if_splits)

end
