(* ===== verification/DeviceSessions.thy ===== *)
theory DeviceSessions
  imports Sync Replay
begin

text \<open>
  Per-device sequence state across reconnects,
  \<^verbatim>\<open>packages/daemon/src/domain/deviceSessions.ts\<close>: the outbound counter with its replay log,
  the inbound deduplication, and the contiguous acknowledgement level. The abstract view of
  the outbound half is the full history of events of every known device.
\<close>

record Processed =
  through :: int
  ahead :: "int list"

record 'e DeviceSessionRegistry =
  outbound :: "(string, OutboundStream) jsmap"
  rlog :: "'e DeviceReplayLog"
  inbound :: "(string, InboundStream) jsmap"
  processed :: "(string, Processed) jsmap"

definition new_registry :: "nat \<Rightarrow> nat \<Rightarrow> 'e DeviceSessionRegistry" where
  "new_registry md me = \<lparr>outbound = [], rlog = new_replay_log md me, inbound = [], processed = []\<rparr>"

definition outboundFor ::
    "string \<Rightarrow> 'e DeviceSessionRegistry \<Rightarrow> OutboundStream \<times> bool \<times> 'e DeviceSessionRegistry" where
  "outboundFor deviceId r =
     (case map_of (outbound r) deviceId of
        Some out \<Rightarrow> (out, False, r)
      | None \<Rightarrow> (new_outbound 0, True, r\<lparr>outbound := js_set deviceId (new_outbound 0) (outbound r)\<rparr>))"

text \<open>\<open>None\<close> is the full resync, \<open>Some\<close> the events to replay.\<close>

definition resumeFor :: "string \<Rightarrow> int option \<Rightarrow> int \<Rightarrow> 'e DeviceSessionRegistry \<Rightarrow>
    'e ReplayEntry list option \<times> 'e DeviceSessionRegistry" where
  "resumeFor deviceId lastSeq now r =
     (let (out, isNew, r1) = outboundFor deviceId r;
          r2 = r1\<lparr>rlog := touch deviceId now (rlog r1)\<rparr>
      in (case lastSeq of
            None \<Rightarrow> (None, r2)
          | Some n \<Rightarrow>
              if isNew then (None, r2)
              else let (evs, gap) = replayFrom deviceId (outbound_current out) n (rlog r2)
                   in (if gap then None else Some evs, r2)))"

definition recordSent :: "string \<Rightarrow> 'e \<Rightarrow> int \<Rightarrow> 'e DeviceSessionRegistry \<Rightarrow>
    int \<times> 'e DeviceSessionRegistry" where
  "recordSent deviceId event now r =
     (let (out, _, r1) = outboundFor deviceId r;
          (seq, out1) = outbound_next out;
          r2 = r1\<lparr>outbound := js_set deviceId out1 (outbound r1)\<rparr>;
          (evicted, l) = log_record deviceId seq event now (rlog r2);
          r3 = r2\<lparr>rlog := l\<rparr>
      in (seq, case evicted of
                 Some v \<Rightarrow> if v \<noteq> [] then r3\<lparr>outbound := js_delete v (outbound r3)\<rparr> else r3
               | None \<Rightarrow> r3))"

definition knownDeviceIds :: "'e DeviceSessionRegistry \<Rightarrow> string list" where
  "knownDeviceIds r = js_keys (outbound r)"

definition acceptInbound :: "string \<Rightarrow> int \<Rightarrow> 'e DeviceSessionRegistry \<Rightarrow>
    bool \<times> 'e DeviceSessionRegistry" where
  "acceptInbound deviceId seq r =
     (let s = (case map_of (inbound r) deviceId of Some s \<Rightarrow> s | None \<Rightarrow> new_inbound);
          (ok, s1) = accept s seq
      in (ok, r\<lparr>inbound := js_set deviceId s1 (inbound r)\<rparr>))"

definition inboundLastSeq :: "string \<Rightarrow> 'e DeviceSessionRegistry \<Rightarrow> int" where
  "inboundLastSeq deviceId r =
     (case map_of (inbound r) deviceId of Some s \<Rightarrow> inbound_lastSeq s | None \<Rightarrow> 0)"

text \<open>\<^verbatim>\<open>while (p.ahead.delete(p.through + 1)) p.through++\<close>\<close>

function advance :: "int \<Rightarrow> int list \<Rightarrow> Processed" where
  "advance t xs =
     (if t + 1 \<in> set xs then advance (t + 1) (set_delete (t + 1) xs) else \<lparr>through = t, ahead = xs\<rparr>)"
  by pat_completeness auto
termination
  by (relation "measure (\<lambda>(t, xs). length xs)")
    (auto simp: set_delete_def intro: length_filter_less)

declare advance.simps [simp del]

definition mark :: "int \<Rightarrow> Processed \<Rightarrow> Processed" where
  "mark seq p =
     (if seq = through p + 1 then advance seq (ahead p)
      else if seq > through p then p\<lparr>ahead := set_add seq (ahead p)\<rparr>
      else p)"

definition processed_of :: "string \<Rightarrow> 'e DeviceSessionRegistry \<Rightarrow> Processed" where
  "processed_of deviceId r =
     (case map_of (processed r) deviceId of Some p \<Rightarrow> p | None \<Rightarrow> \<lparr>through = 0, ahead = []\<rparr>)"

definition markProcessed :: "string \<Rightarrow> int \<Rightarrow> 'e DeviceSessionRegistry \<Rightarrow> 'e DeviceSessionRegistry" where
  "markProcessed deviceId seq r =
     r\<lparr>processed := js_set deviceId (mark seq (processed_of deviceId r)) (processed r)\<rparr>"

definition ackLevel :: "string \<Rightarrow> 'e DeviceSessionRegistry \<Rightarrow> int" where
  "ackLevel deviceId r =
     (case map_of (processed r) deviceId of Some p \<Rightarrow> through p | None \<Rightarrow> 0)"

definition registry_evict :: "string \<Rightarrow> 'e DeviceSessionRegistry \<Rightarrow> 'e DeviceSessionRegistry" where
  "registry_evict deviceId r =
     \<lparr>outbound = js_delete deviceId (outbound r), rlog = log_evict deviceId (rlog r),
      inbound = js_delete deviceId (inbound r), processed = js_delete deviceId (processed r)\<rparr>"

section \<open>The acknowledgement level\<close>

text \<open>
  The abstract view is the set of sequence numbers handled successfully; the level is the
  length of its contiguous run from 1.
\<close>

definition handled :: "Processed \<Rightarrow> int set" where
  "handled p = {1..through p} \<union> set (ahead p)"

definition processed_inv :: "Processed \<Rightarrow> bool" where
  "processed_inv p \<longleftrightarrow> 0 \<le> through p \<and> (\<forall>s\<in>set (ahead p). through p + 1 < s)"

lemma advance_handled:
  "0 \<le> t \<Longrightarrow> handled (advance t xs) = {1..t} \<union> set xs"
proof (induction t xs rule: advance.induct)
  case (1 t xs)
  show ?case
  proof (cases "t + 1 \<in> set xs")
    case True
    have "handled (advance t xs) = {1..t + 1} \<union> (set xs - {t + 1})"
      using 1 True by (simp add: advance.simps [of t xs])
    also have "{1..t + 1} = insert (t + 1) {1..t}" using 1(2) by auto
    also have "insert (t + 1) {1..t} \<union> (set xs - {t + 1}) = {1..t} \<union> set xs" using True by auto
    finally show ?thesis .
  qed (simp add: advance.simps [of t xs] handled_def)
qed

lemma advance_inv:
  "0 \<le> t \<Longrightarrow> \<forall>s\<in>set xs. t < s \<Longrightarrow> processed_inv (advance t xs)"
proof (induction t xs rule: advance.induct)
  case (1 t xs)
  show ?case
  proof (cases "t + 1 \<in> set xs")
    case True
    then have "processed_inv (advance (t + 1) (set_delete (t + 1) xs))"
      using 1 by (intro "1.IH") force+
    with True show ?thesis by (simp add: advance.simps [of t xs])
  next
    case False
    have "t + 1 < s" if "s \<in> set xs" for s
    proof -
      have "t < s" using 1(3) that by blast
      moreover have "s \<noteq> t + 1" using False that by blast
      ultimately show ?thesis by linarith
    qed
    with 1(2) False show ?thesis by (simp add: advance.simps [of t xs] processed_inv_def)
  qed
qed

lemma mark_inv: "processed_inv p \<Longrightarrow> processed_inv (mark s p)"
  by (auto simp: mark_def processed_inv_def intro!: advance_inv [unfolded processed_inv_def])

lemma mark_handled:
  "processed_inv p \<Longrightarrow> handled (mark s p) = (if 0 < s then insert s (handled p) else handled p)"
  by (auto simp: mark_def processed_inv_def handled_def advance_handled [unfolded handled_def])

lemma through_greatest:
  assumes "processed_inv p"
  shows "{1..through p} \<subseteq> handled p \<and> through p + 1 \<notin> handled p"
  using assms by (auto simp: processed_inv_def handled_def)

locale ack_tracker =
  fixes tick :: "int \<Rightarrow> 's \<Rightarrow> 's"
    and level :: "'s \<Rightarrow> int"
    and settled :: "'s \<Rightarrow> int set"
    and invar :: "'s \<Rightarrow> bool"
  assumes note_invar: "invar p \<Longrightarrow> invar (tick s p)"
    and note_done: "invar p \<Longrightarrow> settled (tick s p) = (if 0 < s then insert s (settled p) else settled p)"
    and level_done: "invar p \<Longrightarrow> {1..level p} \<subseteq> settled p \<and> level p + 1 \<notin> settled p"
begin

lemma notes_invar: "invar p \<Longrightarrow> invar (foldl (\<lambda>q s. tick s q) p ss)"
  by (induction ss arbitrary: p) (simp_all add: note_invar)

lemma notes_done:
  "invar p \<Longrightarrow> settled (foldl (\<lambda>q s. tick s q) p ss) = settled p \<union> {s \<in> set ss. 0 < s}"
  by (induction ss arbitrary: p) (auto simp: note_invar note_done)

text \<open>The level acknowledges nothing that was not noted, and nothing can be added to it.\<close>

lemma level_sound:
  "invar p \<Longrightarrow> settled p = {} \<Longrightarrow> 0 < n \<Longrightarrow> n \<le> level (foldl (\<lambda>q s. tick s q) p ss) \<Longrightarrow> n \<in> set ss"
proof -
  assume p: "invar p" "settled p = {}" and n: "0 < n" "n \<le> level (foldl (\<lambda>q s. tick s q) p ss)"
  have "{1..level (foldl (\<lambda>q s. tick s q) p ss)} \<subseteq> {s \<in> set ss. 0 < s}"
    using level_done [OF notes_invar [OF p(1)]] notes_done [OF p(1)] p(2) by simp
  moreover have "n \<in> {1..level (foldl (\<lambda>q s. tick s q) p ss)}" using n by simp
  ultimately show "n \<in> set ss" by blast
qed

lemma level_maximal:
  "invar p \<Longrightarrow> settled p = {} \<Longrightarrow> 0 \<le> level (foldl (\<lambda>q s. tick s q) p ss) \<Longrightarrow>
     level (foldl (\<lambda>q s. tick s q) p ss) + 1 \<notin> set ss"
  using level_done [OF notes_invar [of p ss]] notes_done [of p ss] by auto

end

interpretation ackt: ack_tracker mark through handled processed_inv
  by unfold_locales (simp_all add: mark_inv mark_handled through_greatest)

section \<open>The outbound half refines full histories\<close>

definition numbered :: "'e list \<Rightarrow> 'e ReplayEntry list" where
  "numbered h = zip (map int [1..<Suc (length h)]) h"

lemma numbered_Nil [simp]: "numbered [] = []"
  by (simp add: numbered_def)

lemma length_numbered [simp]: "length (numbered h) = length h"
  by (simp add: numbered_def del: upt_Suc)

lemma numbered_snoc: "numbered (h @ [e]) = numbered h @ [(int (length h) + 1, e)]"
  by (simp add: numbered_def upt_Suc_append [of "Suc 0" "Suc (length h)"] del: upt_Suc)

lemma nth_numbered: "i < length h \<Longrightarrow> numbered h ! i = (int i + 1, h ! i)"
  by (simp add: numbered_def del: upt_Suc)

lemma filter_numbered: "filter (\<lambda>e. int n < fst e) (numbered h) = drop n (numbered h)"
  by (induction h rule: rev_induct) (auto simp: numbered_snoc)

lemma fst_take_numbered: "e \<in> set (take k (numbered h)) \<Longrightarrow> fst e \<le> int k"
  by (auto simp: in_set_conv_nth nth_numbered)

lemma filter_drop_numbered:
  assumes "k \<le> n"
  shows "filter (\<lambda>e. int n < fst e) (drop k (numbered h)) = drop n (numbered h)"
proof -
  have "filter (\<lambda>e. int n < fst e) (take k (numbered h)) = []"
    using assms fst_take_numbered by (fastforce simp: filter_empty_conv)
  then have "filter (\<lambda>e. int n < fst e) (drop k (numbered h)) = filter (\<lambda>e. int n < fst e) (numbered h)"
    by (metis append_Nil append_take_drop_id filter_append)
  then show ?thesis by (simp add: filter_numbered)
qed

text \<open>
  A buffer holds the last \<^verbatim>\<open>maxEventsPerDevice\<close> entries of the device's history, numbered as
  they were sent. The histories are those of the devices the outbound map knows; a logged
  device is one of them, and one with a non-empty history is logged.
\<close>

definition buffer_of :: "nat \<Rightarrow> 'e list \<Rightarrow> 'e DeviceBuffer \<Rightarrow> bool" where
  "buffer_of me h b \<longleftrightarrow> events b = drop (length h - me) (numbered h)"

definition sent_rel :: "'e DeviceSessionRegistry \<Rightarrow> (string \<rightharpoonup> 'e list) \<Rightarrow> bool" where
  "sent_rel r H \<longleftrightarrow> js_wf (outbound r) \<and> log_inv (rlog r)
     \<and> (\<forall>d. map_option os_seq (map_of (outbound r) d) = map_option (int \<circ> length) (H d))
     \<and> (\<forall>d b. map_of (byDevice (rlog r)) d = Some b \<longrightarrow>
            (\<exists>h. H d = Some h \<and> buffer_of (maxEventsPerDevice (rlog r)) h b))
     \<and> (\<forall>d h. H d = Some h \<longrightarrow> h \<noteq> [] \<longrightarrow> map_of (byDevice (rlog r)) d \<noteq> None)"

definition hist_record :: "string \<Rightarrow> 'e \<Rightarrow> (string \<rightharpoonup> 'e list) \<Rightarrow> (string \<rightharpoonup> 'e list)" where
  "hist_record d e H = H(d \<mapsto> (case H d of None \<Rightarrow> [] | Some h \<Rightarrow> h) @ [e])"

text \<open>The device the log evicted for lack of room, if the step evicted one.\<close>

definition evicted_by :: "string \<Rightarrow> 'e \<Rightarrow> int \<Rightarrow> 'e DeviceSessionRegistry \<Rightarrow> string option" where
  "evicted_by d e t r = fst (log_record d 0 e t (rlog r))"

lemma log_record_evicted: "fst (log_record d s e t l) = fst (log_record d 0 f t l)"
  by (simp add: log_record_def split_beta)

lemma buffer_of_push:
  assumes "buffer_of me h b"
  shows "buffer_of me (h @ [e]) (push_entry me (int (length h) + 1, e) b)"
proof -
  have es: "events b @ [(int (length h) + 1, e)] = drop (length h - me) (numbered (h @ [e]))"
    using assms by (simp add: buffer_of_def numbered_snoc)
  show ?thesis
  proof (cases "me \<le> length h")
    case True
    then have "length (events b @ [(int (length h) + 1, e)]) = Suc me" using es by simp
    then have "events (push_entry me (int (length h) + 1, e) b)
        = drop 1 (drop (length h - me) (numbered (h @ [e])))"
      by (simp add: push_entry_def Let_def flip: es)
    with True show ?thesis by (simp add: buffer_of_def Suc_diff_le)
  next
    case False
    then have "\<not> length (events b @ [(int (length h) + 1, e)]) > me" using es by simp
    then show ?thesis using es False by (simp add: buffer_of_def push_entry_def Let_def)
  qed
qed

lemma buffer_of_new:
  "buffer_of me [e] (push_entry me (1, e) \<lparr>events = [], lastSeenAt = t\<rparr>)"
  using buffer_of_push [of me "[]" "\<lparr>events = [], lastSeenAt = t\<rparr>" e] by (simp add: buffer_of_def)

definition next_seq :: "string \<Rightarrow> 'e DeviceSessionRegistry \<Rightarrow> int" where
  "next_seq d r = (case map_of (outbound r) d of None \<Rightarrow> 1 | Some o1 \<Rightarrow> os_seq o1 + 1)"

lemma recordSent_shape:
  defines "lr r d e t \<equiv> log_record d (next_seq d r) e t (rlog r)"
  shows "fst (recordSent d e t r) = next_seq d r"
    and "rlog (snd (recordSent d e t r)) = snd (lr r d e t)"
    and "map_of (outbound (snd (recordSent d e t r))) =
       (let m = (map_of (outbound r))(d \<mapsto> \<lparr>os_seq = next_seq d r\<rparr>)
        in case fst (lr r d e t) of None \<Rightarrow> m | Some v \<Rightarrow> if v \<noteq> [] then m(v := None) else m)"
    and "js_wf (outbound r) \<Longrightarrow> js_wf (outbound (snd (recordSent d e t r)))"
    and "inbound (snd (recordSent d e t r)) = inbound r"
    and "processed (snd (recordSent d e t r)) = processed r"
proof -
  have n: "outbound_next (fst (outboundFor d r)) = (next_seq d r, \<lparr>os_seq = next_seq d r\<rparr>)"
    by (simp add: outboundFor_def outbound_next_def new_outbound_def next_seq_def Let_def
        split: option.split)
  have l: "rlog (snd (snd (outboundFor d r))) = rlog r"
    by (simp add: outboundFor_def split: option.split)
  have o1: "(map_of (outbound (snd (snd (outboundFor d r)))))(d \<mapsto> x) = (map_of (outbound r))(d \<mapsto> x)"
    "js_wf (outbound r) \<Longrightarrow> js_wf (outbound (snd (snd (outboundFor d r))))"
    "inbound (snd (snd (outboundFor d r))) = inbound r"
    "processed (snd (snd (outboundFor d r))) = processed r" for x
    by (auto simp: outboundFor_def split: option.split)
  note defs = recordSent_def split_beta Let_def n l lr_def o1
  show "fst (recordSent d e t r) = next_seq d r"
    "rlog (snd (recordSent d e t r)) = snd (lr r d e t)"
    "map_of (outbound (snd (recordSent d e t r))) =
       (let m = (map_of (outbound r))(d \<mapsto> \<lparr>os_seq = next_seq d r\<rparr>)
        in case fst (lr r d e t) of None \<Rightarrow> m | Some v \<Rightarrow> if v \<noteq> [] then m(v := None) else m)"
    "js_wf (outbound r) \<Longrightarrow> js_wf (outbound (snd (recordSent d e t r)))"
    "inbound (snd (recordSent d e t r)) = inbound r"
    "processed (snd (recordSent d e t r)) = processed r"
    by (simp_all add: defs split: option.split)
qed

lemma sent_rel_next_seq:
  "sent_rel r H \<Longrightarrow> next_seq d r = int (length (case H d of None \<Rightarrow> [] | Some h \<Rightarrow> h)) + 1"
proof -
  assume "sent_rel r H"
  then have "map_option os_seq (map_of (outbound r) d) = map_option (int \<circ> length) (H d)"
    by (simp add: sent_rel_def)
  then show ?thesis by (cases "H d") (auto simp: next_seq_def)
qed

lemma recordSent_rel:
  assumes R: "sent_rel r H" and d: "d \<noteq> []"
  shows "sent_rel (snd (recordSent d e t r))
      (case evicted_by d e t r of
         None \<Rightarrow> hist_record d e H | Some v \<Rightarrow> (hist_record d e H)(v := None))"
proof -
  define h where "h = (case H d of None \<Rightarrow> [] | Some h \<Rightarrow> h)"
  have s: "next_seq d r = int (length h) + 1" unfolding h_def using R by (rule sent_rel_next_seq)
  let ?lr = "log_record d (next_seq d r) e t (rlog r)" and ?me = "maxEventsPerDevice (rlog r)"
  have ev: "evicted_by d e t r = fst ?lr" unfolding evicted_by_def by (rule log_record_evicted [symmetric])
  have L: "log_inv (rlog r)" and wf: "js_wf (outbound r)" using R by (simp_all add: sent_rel_def)
  have B: "\<And>c b. map_of (byDevice (rlog r)) c = Some b \<Longrightarrow> \<exists>h. H c = Some h \<and> buffer_of ?me h b"
    and N: "\<And>c h. H c = Some h \<Longrightarrow> h \<noteq> [] \<Longrightarrow> \<exists>b. map_of (byDevice (rlog r)) c = Some b"
    using R by (auto simp: sent_rel_def)
  have hist: "hist_record d e H c = (if c = d then Some (h @ [e]) else H c)" for c
    by (simp add: hist_record_def h_def)
  have seqs: "map_option os_seq (map_of (outbound r) c) = map_option (int \<circ> length) (H c)"
    "next_seq d r = 1 + int (length h)" for c
    using R s by (simp_all add: sent_rel_def)
  have inv: "log_inv (snd ?lr)" using L d by (rule log_record_inv)
  have empty: "h = []" if "map_of (byDevice (rlog r)) d = None"
    using that N [of d] by (fastforce simp: h_def split: option.splits)
  note shape = recordSent_shape(2,3) recordSent_shape(4) [OF wf] Let_def
  let ?G = "sent_rel (snd (recordSent d e t r))
      (case fst ?lr of None \<Rightarrow> hist_record d e H | Some v \<Rightarrow> (hist_record d e H)(v := None))"
  have ?G
    using L d
  proof (cases rule: log_record_cases [where s = "next_seq d r" and e = e and t = t])
    case (present b)
    with B obtain h' where "H d = Some h'" "buffer_of ?me h' b" by blast
    then have "buffer_of ?me (h @ [e]) (push_entry ?me (next_seq d r, e) b)"
      by (simp add: h_def s buffer_of_push)
    with present inv show ?G
      unfolding sent_rel_def by (auto simp: shape hist dest: B N) (simp_all add: seqs)
  next
    case room
    have "buffer_of ?me (h @ [e]) (push_entry ?me (next_seq d r, e) \<lparr>events = [], lastSeenAt = t\<rparr>)"
      using room empty by (simp add: s buffer_of_new)
    with room inv show ?G
      unfolding sent_rel_def by (auto simp: shape hist dest: B N) (simp_all add: seqs)
  next
    case self
    with inv d show ?G
      unfolding sent_rel_def by (auto simp: shape hist dest: B N) (simp_all add: seqs)
  next
    case (other v)
    have "v \<noteq> []" using L other(4) unfolding log_inv_def by metis
    moreover have "buffer_of ?me (h @ [e]) (push_entry ?me (next_seq d r, e) \<lparr>events = [], lastSeenAt = t\<rparr>)"
      using other empty by (simp add: s buffer_of_new)
    ultimately show ?G
      using other inv unfolding sent_rel_def by (auto simp: shape hist dest: B N) (simp_all add: seqs)
  qed
  then show ?thesis by (simp add: ev)
qed

lemma touch_byDevice:
  "map_of (byDevice (touch d t l)) c =
     (if c = d then map_option (\<lambda>b. b\<lparr>lastSeenAt := t\<rparr>) (map_of (byDevice l) d) else map_of (byDevice l) c)"
  "maxEventsPerDevice (touch d t l) = maxEventsPerDevice l"
  by (auto simp: touch_def split: option.splits)

lemma resumeFor_state:
  "snd (resumeFor d n t r) = (snd (snd (outboundFor d r)))\<lparr>rlog := touch d t (rlog r)\<rparr>"
proof -
  have "rlog (snd (snd (outboundFor d r))) = rlog r"
    by (simp add: outboundFor_def split: option.split)
  then show ?thesis by (simp add: resumeFor_def split_beta Let_def split: option.split)
qed

lemma resumeFor_rel:
  assumes "sent_rel r H"
  shows "sent_rel (snd (resumeFor d n t r)) (case H d of None \<Rightarrow> H(d \<mapsto> []) | Some _ \<Rightarrow> H)"
proof -
  let ?r = "snd (snd (outboundFor d r))" and ?H = "case H d of None \<Rightarrow> H(d \<mapsto> []) | Some _ \<Rightarrow> H"
  have q: "map_option os_seq (map_of (outbound r) c) = map_option (int \<circ> length) (H c)" for c
    using assms by (simp add: sent_rel_def)
  have "js_wf (outbound ?r)"
    using assms by (auto simp: outboundFor_def sent_rel_def split: option.split)
  moreover have "map_option os_seq (map_of (outbound ?r) c) = map_option (int \<circ> length) (?H c)" for c
    using q [of d] q [of c] by (cases "H d") (auto simp: outboundFor_def new_outbound_def)
  moreover have "log_inv (touch d t (rlog r))" using assms by (simp add: sent_rel_def touch_inv)
  moreover have "\<exists>h. ?H c = Some h \<and> buffer_of (maxEventsPerDevice (rlog r)) h b"
    if b: "map_of (byDevice (touch d t (rlog r))) c = Some b" for c b
  proof -
    obtain b0 where b0: "map_of (byDevice (rlog r)) c = Some b0" "events b = events b0"
      using b by (auto simp: touch_byDevice split: if_splits)
    with assms obtain h where "H c = Some h" "buffer_of (maxEventsPerDevice (rlog r)) h b0"
      unfolding sent_rel_def by blast
    with b0(2) show ?thesis by (cases "H d") (auto simp: buffer_of_def)
  qed
  moreover have "map_of (byDevice (touch d t (rlog r))) c \<noteq> None" if "?H c = Some h" "h \<noteq> []" for c h
  proof -
    have "H c = Some h" using that by (cases "H d") (auto split: if_splits)
    with that(2) assms have "map_of (byDevice (rlog r)) c \<noteq> None" unfolding sent_rel_def by blast
    then show ?thesis by (auto simp: touch_byDevice)
  qed
  ultimately show ?thesis
    unfolding sent_rel_def resumeFor_state by (simp add: touch_byDevice(2))
qed

lemma registry_evict_rel: "sent_rel r H \<Longrightarrow> sent_rel (registry_evict d r) (H(d := None))"
  by (auto simp: sent_rel_def registry_evict_def log_evict_inv) (auto simp: log_evict_def)

text \<open>What a reconnecting device is sent, in terms of its history.\<close>

lemma resumeFor_result:
  assumes R: "sent_rel r H" and h: "H d = Some h"
  shows "fst (resumeFor d (Some (int n)) t r) =
    (if n \<le> length h \<and> length h - n \<le> maxEventsPerDevice (rlog r) then Some (drop n (numbered h)) else None)"
proof -
  let ?me = "maxEventsPerDevice (rlog r)"
  have "map_option os_seq (map_of (outbound r) d) = Some (int (length h))"
    using R h by (simp add: sent_rel_def)
  then obtain o1 where o1: "map_of (outbound r) d = Some o1" "os_seq o1 = int (length h)" by auto
  let ?rf = "replayFrom d (int (length h)) (int n) (touch d t (rlog r))"
  have res: "fst (resumeFor d (Some (int n)) t r) = (if snd ?rf then None else Some (fst ?rf))"
    using o1 by (simp add: resumeFor_def outboundFor_def outbound_current_def split_beta)
  show ?thesis
  proof (cases "n < length h")
    case False
    then show ?thesis unfolding res by (auto simp: replayFrom_def)
  next
    case True
    then have "h \<noteq> []" by auto
    then obtain b where b: "map_of (byDevice (rlog r)) d = Some b" "events b = drop (length h - ?me) (numbered h)"
      using R h by (fastforce simp: sent_rel_def buffer_of_def)
    show ?thesis
    proof (cases "?me = 0")
      case True
      with b \<open>n < length h\<close> show ?thesis unfolding res by (simp add: replayFrom_def touch_byDevice)
    next
      case False
      let ?k = "length h - ?me"
      have k: "?k < length h" using False \<open>h \<noteq> []\<close> by simp
      then have "events b = (int ?k + 1, h ! ?k) # drop (Suc ?k) (numbered h)"
        unfolding b(2) by (metis Cons_nth_drop_Suc length_numbered nth_numbered)
      moreover have "?k \<le> n \<Longrightarrow> filter (\<lambda>e. int n < fst e) (events b) = drop n (numbered h)"
        unfolding b(2) by (rule filter_drop_numbered)
      ultimately show ?thesis
        unfolding res using b(1) True by (auto simp: replayFrom_def touch_byDevice)
    qed
  qed
qed

section \<open>Any sequence of operations\<close>

datatype 'e reg_op =
    Sent string 'e int
  | Resume string "int option" int
  | Accept string int
  | Mark string int
  | Evict string

text \<open>An operation on the registry, and what it does to the histories.\<close>

fun reg_step :: "'e reg_op \<Rightarrow> 'e DeviceSessionRegistry \<Rightarrow> 'e DeviceSessionRegistry" where
  "reg_step (Sent d e t) r = snd (recordSent d e t r)"
| "reg_step (Resume d n t) r = snd (resumeFor d n t r)"
| "reg_step (Accept d s) r = snd (acceptInbound d s r)"
| "reg_step (Mark d s) r = markProcessed d s r"
| "reg_step (Evict d) r = registry_evict d r"

fun hist_step :: "'e reg_op \<Rightarrow> 'e DeviceSessionRegistry \<Rightarrow> (string \<rightharpoonup> 'e list) \<Rightarrow> (string \<rightharpoonup> 'e list)" where
  "hist_step (Sent d e t) r H =
     (case evicted_by d e t r of
        None \<Rightarrow> hist_record d e H | Some v \<Rightarrow> (hist_record d e H)(v := None))"
| "hist_step (Resume d n t) r H = (case H d of None \<Rightarrow> H(d \<mapsto> []) | Some _ \<Rightarrow> H)"
| "hist_step (Accept d s) r H = H"
| "hist_step (Mark d s) r H = H"
| "hist_step (Evict d) r H = H(d := None)"

fun reg_run :: "'e reg_op list \<Rightarrow> 'e DeviceSessionRegistry \<Rightarrow> (string \<rightharpoonup> 'e list) \<Rightarrow>
    'e DeviceSessionRegistry \<times> (string \<rightharpoonup> 'e list)" where
  "reg_run [] r H = (r, H)"
| "reg_run (x # xs) r H = reg_run xs (reg_step x r) (hist_step x r H)"

fun op_device :: "'e reg_op \<Rightarrow> string" where
  "op_device (Sent d _ _) = d"
| "op_device (Resume d _ _) = d"
| "op_device (Accept d _) = d"
| "op_device (Mark d _) = d"
| "op_device (Evict d) = d"

lemma sent_rel_new: "sent_rel (new_registry md me) Map.empty"
  by (simp add: sent_rel_def new_registry_def new_replay_log_def log_inv_def)

lemma sent_rel_frame:
  "sent_rel r H \<Longrightarrow> outbound q = outbound r \<Longrightarrow> rlog q = rlog r \<Longrightarrow> sent_rel q H"
  by (simp add: sent_rel_def)

lemma reg_step_rel:
  "sent_rel r H \<Longrightarrow> op_device x \<noteq> [] \<Longrightarrow> sent_rel (reg_step x r) (hist_step x r H)"
  by (cases x)
    (auto simp: recordSent_rel resumeFor_rel registry_evict_rel acceptInbound_def markProcessed_def
      split_beta Let_def intro: sent_rel_frame)

lemma reg_run_rel:
  "sent_rel r H \<Longrightarrow> \<forall>x\<in>set xs. op_device x \<noteq> [] \<Longrightarrow>
     sent_rel (fst (reg_run xs r H)) (snd (reg_run xs r H))"
  by (induction xs arbitrary: r H) (auto intro: reg_step_rel)

lemma log_caps_touch [simp]:
  "maxEventsPerDevice (rlog (snd (resumeFor d n t r))) = maxEventsPerDevice (rlog r)"
  "maxDevices (rlog (snd (resumeFor d n t r))) = maxDevices (rlog r)"
  by (simp_all add: resumeFor_state touch_def split: option.split)

lemma reg_step_caps [simp]:
  "maxEventsPerDevice (rlog (reg_step x r)) = maxEventsPerDevice (rlog r)"
  "maxDevices (rlog (reg_step x r)) = maxDevices (rlog r)"
  by (cases x; simp add: recordSent_shape(2) acceptInbound_def markProcessed_def registry_evict_def
      log_evict_def split_beta Let_def)+

lemma reg_run_caps [simp]:
  "maxEventsPerDevice (rlog (fst (reg_run xs r H))) = maxEventsPerDevice (rlog r)"
  "maxDevices (rlog (fst (reg_run xs r H))) = maxDevices (rlog r)"
  by (induction xs arbitrary: r H) simp_all

lemma processed_step:
  "map_of (processed (reg_step x r)) d =
     (case x of Mark c s \<Rightarrow> if c = d then Some (mark s (processed_of d r)) else map_of (processed r) d
      | Evict c \<Rightarrow> if c = d then None else map_of (processed r) d
      | _ \<Rightarrow> map_of (processed r) d)"
proof (cases x)
  case (Resume c n t)
  have "processed (snd (snd (outboundFor c r))) = processed r"
    by (simp add: outboundFor_def split: option.split)
  with Resume show ?thesis by (simp add: resumeFor_state)
qed (auto simp: recordSent_shape(6) acceptInbound_def markProcessed_def registry_evict_def split_beta
    Let_def)

lemma ackLevel_eq: "ackLevel d r = through (processed_of d r)"
  by (simp add: ackLevel_def processed_of_def split: option.split)

lemma ackLevel_foldl:
  "ackLevel d (foldl (\<lambda>r s. markProcessed d s r) (new_registry md me :: 'e DeviceSessionRegistry) ss) =
     through (foldl (\<lambda>p s. mark s p) \<lparr>through = 0, ahead = []\<rparr> ss)"
proof -
  have "processed_of d (foldl (\<lambda>r s. markProcessed d s r) r ss) = foldl (\<lambda>p s. mark s p) (processed_of d r) ss"
    for r :: "'e DeviceSessionRegistry"
    by (induction ss arbitrary: r) (simp_all add: markProcessed_def processed_of_def)
  then show ?thesis by (simp add: ackLevel_eq processed_of_def new_registry_def)
qed

lemma no_command_processed:
  "processed_inv \<lparr>through = 0, ahead = []\<rparr>" "handled \<lparr>through = 0, ahead = []\<rparr> = {}"
  by (simp_all add: processed_inv_def handled_def)

lemma ack_level_covered:
  "{1..ackLevel d (foldl (\<lambda>r s. markProcessed d s r) (new_registry md me :: 'e DeviceSessionRegistry) ss)} \<subseteq> set ss"
  unfolding ackLevel_foldl by (auto intro: ackt.level_sound [OF no_command_processed])

section \<open>Properties\<close>



text \<open>
  Both caps of the replay log hold. After any sequence of operations no more than
  \<^verbatim>\<open>maxDevices\<close> devices hold a buffer and no buffer holds more than
  \<^verbatim>\<open>maxEventsPerDevice\<close> events, whatever the clock does.
\<close>

theorem replay_log_bounded:
  assumes "\<forall>x\<in>set ops. op_device x \<noteq> []"
  shows "deviceCount (rlog (fst (reg_run ops (new_registry md me) Map.empty))) \<le> md
    \<and> (\<forall>d b. map_of (byDevice (rlog (fst (reg_run ops (new_registry md me) Map.empty)))) d = Some b
          \<longrightarrow> length (events b) \<le> me)"
proof -
  let ?r = "fst (reg_run ops (new_registry md me) Map.empty)"
  have "log_inv (rlog ?r)" using reg_run_rel [OF sent_rel_new assms] by (simp add: sent_rel_def)
  moreover have "maxDevices (rlog ?r) = md" "maxEventsPerDevice (rlog ?r) = me"
    by (simp_all add: new_registry_def new_replay_log_def)
  ultimately show ?thesis by (auto simp: log_inv_def deviceCount_def)
qed

theorem replay_log_bounded_witness:
  "deviceCount (rlog (fst (reg_run [Sent ''a'' (1::nat) 1, Sent ''b'' 2 2] (new_registry 1 5) Map.empty))) \<le> 1"
  using replay_log_bounded [of "[Sent ''a'' (1::nat) 1, Sent ''b'' 2 2]" 1 5] by simp

text \<open>
  C31: An acknowledgement never covers a command that was not handled. However the successes
  arrive (in order, out of order, repeated), every number the device's acknowledgement level
  covers was recorded as handled successfully, and the number just above the level was not:
  the level stalls at the first failure and catches up as soon as the gap closes.
\<close>

theorem ack_level_contiguous:
  fixes d :: string and ss :: "int list"
  shows "let q = foldl (\<lambda>r s. markProcessed d s r) (new_registry md me :: 'e DeviceSessionRegistry) ss
    in {1..ackLevel d q} \<subseteq> set ss \<and> 0 \<le> ackLevel d q \<and> ackLevel d q + 1 \<notin> set ss"
proof -
  have nn: "0 \<le> ackLevel d (foldl (\<lambda>r s. markProcessed d s r) (new_registry md me :: 'e DeviceSessionRegistry) ss)"
    using ackt.notes_invar [OF no_command_processed(1), of ss] by (simp add: ackLevel_foldl processed_inv_def)
  moreover have "ackLevel d (foldl (\<lambda>r s. markProcessed d s r) (new_registry md me :: 'e DeviceSessionRegistry) ss) + 1
      \<notin> set ss"
    using nn unfolding ackLevel_foldl by (rule ackt.level_maximal [OF no_command_processed])
  ultimately show ?thesis using ack_level_covered by (simp add: Let_def)
qed

text \<open>
  The replay cap can silence a connected device. With room for one device, a device that
  has been sent two events and is then displaced by another device's first event has lost its
  counter: its next event is numbered 1 again, and a client that accepted 1 and 2 refuses that
  frame as a duplicate. Nothing in the protocol tells it to resync while it stays connected.
\<close>

theorem evicted_live_device_loses_events:
  fixes e1 e2 e3 e4 :: "'e"
  shows "let r = fst (reg_run [Sent ''a'' e1 1, Sent ''a'' e2 2, Sent ''b'' e3 3]
                        (new_registry 1 200) Map.empty)
    in fst (recordSent ''a'' e4 4 r) = 1
     \<and> \<not> fst (accept (snd (accept_run new_inbound [1, 2])) 1)"
  by (simp add: recordSent_def outboundFor_def outbound_next_def new_outbound_def log_record_def
      js_has_def evictLRUIfOverCap_def js_set_def js_delete_def push_entry_def new_registry_def
      new_replay_log_def accept_def new_inbound_def set_add_def prune_def prune_limit_def Let_def)



end
