(* ===== verification/Approvals.thy ===== *)
theory Approvals
  imports Types
begin

text \<open>
  The arbiter of approvals, \<^verbatim>\<open>packages/daemon/src/domain/approvals.ts\<close>. A waiter is whatever
  identifies the blocked hook; what the broker does beyond its own state (answering a waiter,
  emitting an event) is a list of effects in order. The 60 second retention timers are part
  of the state, so their firing is an operation like the others.
\<close>

record 'w ApprovalBroker =
  bk_pending :: "(string, PendingApproval) jsmap"
  bk_waiters :: "(string, 'w) jsmap"
  bk_timers :: "(string \<times> int) list"

datatype 'w broker_effect =
    Emit_pending PendingApproval
  | Respond 'w verdict string
  | Emit_resolved PendingApproval

datatype decide_outcome = Decide_ok | Decide_already | Decide_unknown

definition new_broker :: "'w ApprovalBroker" where
  "new_broker = \<lparr>bk_pending = [], bk_waiters = [], bk_timers = []\<rparr>"

definition retention_ms :: int where "retention_ms = 60000"

definition broker_open :: "PendingApproval \<Rightarrow> 'w \<Rightarrow> 'w ApprovalBroker \<Rightarrow>
    bool \<times> 'w broker_effect list \<times> 'w ApprovalBroker" where
  "broker_open approval waiter b =
     (if js_has (bk_pending b) (pa_toolUseId approval) then (False, [], b)
      else (True, [Emit_pending approval],
            b\<lparr>bk_pending := js_set (pa_toolUseId approval) approval (bk_pending b),
              bk_waiters := js_set (pa_toolUseId approval) waiter (bk_waiters b)\<rparr>))"

definition broker_list :: "'w ApprovalBroker \<Rightarrow> PendingApproval list" where
  "broker_list b = filter (\<lambda>a. pa_decision a = None) (js_values (bk_pending b))"

definition broker_get :: "string \<Rightarrow> 'w ApprovalBroker \<Rightarrow> PendingApproval option" where
  "broker_get toolUseId b = map_of (bk_pending b) toolUseId"

text \<open>
  The common tail of \<^verbatim>\<open>decide\<close> and \<^verbatim>\<open>abandon\<close>: store the decision in the shared approval
  object, take the waiter out, answer it if there is one, emit, and arm the retention timer.
\<close>

definition settle :: "string \<Rightarrow> PendingApproval \<Rightarrow> Decision \<Rightarrow> int \<Rightarrow> 'w ApprovalBroker \<Rightarrow>
    'w broker_effect list \<times> 'w ApprovalBroker" where
  "settle toolUseId a d now b =
     (let a1 = a\<lparr>pa_decision := Some d\<rparr>
      in ((case map_of (bk_waiters b) toolUseId of
             None \<Rightarrow> [] | Some w \<Rightarrow> [Respond w (d_decision d) (d_reason d)]) @ [Emit_resolved a1],
          \<lparr>bk_pending = js_set toolUseId a1 (bk_pending b),
           bk_waiters = js_delete toolUseId (bk_waiters b),
           bk_timers = bk_timers b @ [(toolUseId, now + retention_ms)]\<rparr>))"

definition broker_decide ::
    "string \<Rightarrow> verdict \<Rightarrow> string \<Rightarrow> string \<Rightarrow> int \<Rightarrow> 'w ApprovalBroker \<Rightarrow>
     decide_outcome \<times> 'w broker_effect list \<times> 'w ApprovalBroker" where
  "broker_decide toolUseId decision reason decider now b =
     (case map_of (bk_pending b) toolUseId of
        None \<Rightarrow> (Decide_unknown, [], b)
      | Some approval \<Rightarrow>
          if pa_decision approval \<noteq> None then (Decide_already, [], b)
          else (Decide_ok, settle toolUseId approval
                  \<lparr>d_decision = decision, d_reason = reason, d_by = decider, d_at = now\<rparr> now b))"

definition broker_abandon :: "string \<Rightarrow> int \<Rightarrow> 'w ApprovalBroker \<Rightarrow>
    'w broker_effect list \<times> 'w ApprovalBroker" where
  "broker_abandon toolUseId now b =
     (case map_of (bk_pending b) toolUseId of
        None \<Rightarrow> ([], b)
      | Some a \<Rightarrow>
          if pa_decision a \<noteq> None then ([], b)
          else settle toolUseId a \<lparr>d_decision = Deny, d_reason = ''request abandoned'',
                 d_by = ''daemon'', d_at = now\<rparr> now b)"

text \<open>A due retention timer fires: \<^verbatim>\<open>this.pending.delete(toolUseId)\<close>. \<open>None\<close>: no such timer.\<close>

definition broker_fire :: "string \<times> int \<Rightarrow> int \<Rightarrow> 'w ApprovalBroker \<Rightarrow> 'w ApprovalBroker option" where
  "broker_fire tm now b =
     (if tm \<in> set (bk_timers b) \<and> snd tm \<le> now
      then Some (b\<lparr>bk_timers := remove1 tm (bk_timers b),
                   bk_pending := js_delete (fst tm) (bk_pending b)\<rparr>)
      else None)"

section \<open>Runs\<close>

datatype 'w broker_op =
    Open PendingApproval 'w
  | DecideOp string verdict string string int
  | Abandon string int
  | Fire "string \<times> int" int

text \<open>One operation: the effects, the waiter that was accepted if one was, the new state.\<close>

fun broker_step :: "'w broker_op \<Rightarrow> 'w ApprovalBroker \<Rightarrow>
    'w broker_effect list \<times> 'w list \<times> 'w ApprovalBroker" where
  "broker_step (Open a w) b =
     (let (won, es, c) = broker_open a w b in (es, if won then [w] else [], c))"
| "broker_step (DecideOp i v rs who t) b =
     (let (_, es, c) = broker_decide i v rs who t b in (es, [], c))"
| "broker_step (Abandon i t) b = (let (es, c) = broker_abandon i t b in (es, [], c))"
| "broker_step (Fire tm t) b = ([], [], case broker_fire tm t b of None \<Rightarrow> b | Some c \<Rightarrow> c)"

fun broker_run :: "'w broker_op list \<Rightarrow> 'w ApprovalBroker \<Rightarrow>
    'w broker_effect list \<times> 'w list \<times> 'w ApprovalBroker" where
  "broker_run [] b = ([], [], b)"
| "broker_run (x # xs) b =
     (let (es, ws, c) = broker_step x b; (fs, vs, d) = broker_run xs c in (es @ fs, ws @ vs, d))"

fun responded :: "'w broker_effect list \<Rightarrow> 'w list" where
  "responded [] = []"
| "responded (Respond w _ _ # es) = w # responded es"
| "responded (_ # es) = responded es"

lemma responded_append [simp]: "responded (es @ fs) = responded es @ responded fs"
  by (induction es rule: responded.induct) simp_all

section \<open>Invariant\<close>

text \<open>
  The waiters are those of the undecided entries; the timers are those of the decided ones,
  one each; an entry is stored under its own id.
\<close>

definition broker_inv :: "'w ApprovalBroker \<Rightarrow> bool" where
  "broker_inv b \<longleftrightarrow> js_wf (bk_pending b) \<and> js_wf (bk_waiters b) \<and> distinct (map fst (bk_timers b))
     \<and> (\<forall>i. map_of (bk_waiters b) i \<noteq> None \<longleftrightarrow>
            (\<exists>a. map_of (bk_pending b) i = Some a \<and> pa_decision a = None))
     \<and> (\<forall>i. i \<in> fst ` set (bk_timers b) \<longleftrightarrow>
            (\<exists>a. map_of (bk_pending b) i = Some a \<and> pa_decision a \<noteq> None))
     \<and> (\<forall>i a. map_of (bk_pending b) i = Some a \<longrightarrow> pa_toolUseId a = i)"

lemma broker_inv_new [simp]: "broker_inv new_broker"
  by (simp add: broker_inv_def new_broker_def)

lemma broker_invD:
  assumes "broker_inv b"
  shows "map_of (bk_waiters b) i \<noteq> None \<longleftrightarrow>
      (\<exists>a. map_of (bk_pending b) i = Some a \<and> pa_decision a = None)"
    and "i \<in> fst ` set (bk_timers b) \<longleftrightarrow>
      (\<exists>a. map_of (bk_pending b) i = Some a \<and> pa_decision a \<noteq> None)"
    and "map_of (bk_pending b) i = Some a \<Longrightarrow> pa_toolUseId a = i"
  using assms unfolding broker_inv_def by simp_all

lemma broker_open_inv:
  assumes "broker_inv b" "pa_decision a = None"
  shows "broker_inv (snd (snd (broker_open a w b)))"
proof (cases "js_has (bk_pending b) (pa_toolUseId a)")
  case False
  then have n: "map_of (bk_pending b) (pa_toolUseId a) = None" by (simp add: js_has_def)
  with assms(1) have "pa_toolUseId a \<notin> fst ` set (bk_timers b)" by (auto simp: broker_inv_def)
  with False assms n show ?thesis
    unfolding broker_inv_def by (auto simp: broker_open_def js_has_def)
qed (use assms in \<open>simp add: broker_open_def\<close>)

lemma settle_inv:
  assumes "broker_inv b" "map_of (bk_pending b) i = Some a" "pa_decision a = None"
  shows "broker_inv (snd (settle i a d t b))"
proof -
  have "i \<notin> fst ` set (bk_timers b)" using assms by (auto simp: broker_inv_def)
  moreover have "pa_toolUseId a = i" using assms by (simp add: broker_inv_def)
  ultimately show ?thesis
    using assms(1) unfolding broker_inv_def by (auto simp: settle_def Let_def)
qed

lemma broker_decide_inv: "broker_inv b \<Longrightarrow> broker_inv (snd (snd (broker_decide i v rs who t b)))"
  by (auto simp: broker_decide_def settle_inv split: option.split)

lemma broker_abandon_inv: "broker_inv b \<Longrightarrow> broker_inv (snd (broker_abandon i t b))"
  by (auto simp: broker_abandon_def settle_inv split: option.split)

lemma broker_fire_inv:
  assumes "broker_inv b" "broker_fire tm t b = Some c"
  shows "broker_inv c"
proof -
  from assms(2) have tm: "tm \<in> set (bk_timers b)"
    and c: "c = b\<lparr>bk_timers := remove1 tm (bk_timers b), bk_pending := js_delete (fst tm) (bk_pending b)\<rparr>"
    by (auto simp: broker_fire_def split: if_splits)
  have d: "distinct (map fst (bk_timers b))" using assms(1) by (simp add: broker_inv_def)
  have undecided: "(\<exists>a. map_of (bk_pending b) i = Some a \<and> pa_decision a = None) \<longleftrightarrow>
      map_of (bk_waiters b) i \<noteq> None" for i
    by (rule broker_invD(1) [OF assms(1), symmetric])
  have "fst tm \<in> fst ` set (bk_timers b)" using tm by simp
  then obtain a where "map_of (bk_pending b) (fst tm) = Some a" "pa_decision a \<noteq> None"
    using broker_invD(2) [OF assms(1)] by blast
  then have none: "map_of (bk_waiters b) (fst tm) = None" using undecided [of "fst tm"] by auto
  have waiting: "map_of (bk_waiters b) i \<noteq> None \<longleftrightarrow>
      (\<exists>a. map_of (js_delete (fst tm) (bk_pending b)) i = Some a \<and> pa_decision a = None)" for i
    using undecided [of i] none by (cases "i = fst tm") auto
  have "fst ` set (remove1 tm (bk_timers b)) = fst ` set (bk_timers b) - {fst tm}"
    using d tm by (force simp: distinct_map set_remove1_eq inj_on_def)
  moreover have "distinct (map fst (remove1 tm (bk_timers b)))"
    using d by (simp add: distinct_map inj_on_def)
  moreover have "i \<in> fst ` set (bk_timers b) - {fst tm} \<longleftrightarrow>
      (\<exists>a. map_of (js_delete (fst tm) (bk_pending b)) i = Some a \<and> pa_decision a \<noteq> None)" for i
    using broker_invD(2) [OF assms(1), of i] by (cases "i = fst tm") auto
  moreover have "map_of (js_delete (fst tm) (bk_pending b)) i = Some a \<Longrightarrow> pa_toolUseId a = i" for i a
    using broker_invD(3) [OF assms(1), of i] by (cases "i = fst tm") auto
  moreover have "js_wf (bk_waiters b)" "js_wf (js_delete (fst tm) (bk_pending b))"
    using assms(1) by (simp_all add: broker_inv_def)
  ultimately show ?thesis
    using waiting unfolding broker_inv_def c
    by (simp del: map_of_js_delete not_None_eq)
qed

fun op_ok :: "'w broker_op \<Rightarrow> bool" where
  "op_ok (Open a _) = (pa_decision a = None)"
| "op_ok _ = True"

lemma broker_step_inv: "broker_inv b \<Longrightarrow> op_ok x \<Longrightarrow> broker_inv (snd (snd (broker_step x b)))"
  by (cases x) (auto simp: split_beta broker_open_inv broker_decide_inv broker_abandon_inv
      broker_fire_inv split: option.split)

lemma broker_run_inv: "broker_inv b \<Longrightarrow> \<forall>x\<in>set xs. op_ok x \<Longrightarrow> broker_inv (snd (snd (broker_run xs b)))"
  by (induction xs arbitrary: b) (auto simp: split_beta Let_def broker_step_inv)

section \<open>Accounting of waiters\<close>

lemma mset_values_set_new:
  "map_of m k = None \<Longrightarrow> mset (js_values (js_set k v m)) = add_mset v (mset (js_values m))"
  by (simp add: js_set_new map_of_eq_None_iff)

lemma mset_values_delete:
  "js_wf m \<Longrightarrow> map_of m k = Some v \<Longrightarrow>
     add_mset v (mset (js_values (js_delete k m))) = mset (js_values m)"
proof (induction m)
  case (Cons p m)
  show ?case
  proof (cases "fst p = k")
    case True
    with Cons.prems have "k \<notin> set (js_keys m)" by auto
    with True Cons.prems show ?thesis by (cases p) (simp add: js_delete_Cons js_delete_absent)
  next
    case False
    with Cons show ?thesis by (cases p) (simp add: js_delete_Cons add_mset_commute)
  qed
qed simp

lemma settle_account:
  assumes "broker_inv b" "map_of (bk_pending b) i = Some a" "pa_decision a = None"
  shows "mset (responded (fst (settle i a d t b))) + mset (js_values (bk_waiters (snd (settle i a d t b))))
       = mset (js_values (bk_waiters b))"
proof -
  have "map_of (bk_waiters b) i \<noteq> None"
    using assms by (simp add: broker_inv_def)
  then obtain w where w: "map_of (bk_waiters b) i = Some w" by blast
  have "js_wf (bk_waiters b)" using assms(1) by (simp add: broker_inv_def)
  from mset_values_delete [OF this w] w show ?thesis by (simp add: settle_def Let_def del: mset_map)
qed

lemma broker_step_account:
  assumes "broker_inv b"
  shows "mset (responded (fst (broker_step x b))) + mset (js_values (bk_waiters (snd (snd (broker_step x b)))))
       = mset (fst (snd (broker_step x b))) + mset (js_values (bk_waiters b))"
proof (cases x)
  case (Open a w)
  show ?thesis
  proof (cases "js_has (bk_pending b) (pa_toolUseId a)")
    case False
    then have "map_of (bk_waiters b) (pa_toolUseId a) = None"
      using assms unfolding broker_inv_def js_has_def by (metis option.discI)
    with False Open show ?thesis by (simp add: broker_open_def mset_values_set_new del: mset_map)
  qed (simp add: Open broker_open_def)
next
  case (DecideOp i v rs who t)
  then show ?thesis
    using settle_account [OF assms] by (auto simp: broker_decide_def split_beta split: option.split)
next
  case (Abandon i t)
  then show ?thesis
    using settle_account [OF assms] by (auto simp: broker_abandon_def split_beta split: option.split)
next
  case (Fire tm t)
  then show ?thesis by (auto simp: broker_fire_def)
qed

lemma broker_run_account:
  assumes "broker_inv b" "\<forall>x\<in>set xs. op_ok x"
  shows "mset (responded (fst (broker_run xs b))) + mset (js_values (bk_waiters (snd (snd (broker_run xs b)))))
       = mset (fst (snd (broker_run xs b))) + mset (js_values (bk_waiters b))"
  using assms
proof (induction xs arbitrary: b)
  case (Cons x xs)
  let ?c = "snd (snd (broker_step x b))"
  have "broker_inv ?c" using Cons.prems by (simp add: broker_step_inv)
  then have "mset (responded (fst (broker_run xs ?c))) + mset (js_values (bk_waiters (snd (snd (broker_run xs ?c)))))
       = mset (fst (snd (broker_run xs ?c))) + mset (js_values (bk_waiters ?c))"
    using Cons by simp
  with broker_step_account [OF Cons.prems(1), of x] show ?case
    by (simp add: split_beta Let_def ac_simps)
qed simp

section \<open>First decision wins\<close>

text \<open>
  The interface the command handler and the hook socket rely on: settling a key succeeds
  exactly when it is claimed and not yet settled, and then fixes its value.
\<close>

locale first_wins =
  fixes value_of :: "'s \<Rightarrow> 'k \<Rightarrow> 'v option"
    and claimed :: "'s \<Rightarrow> 'k \<Rightarrow> bool"
    and attempt :: "'k \<Rightarrow> 'v \<Rightarrow> 's \<Rightarrow> bool \<times> 's"
  assumes attempt_ok: "fst (attempt k v s) \<longleftrightarrow> claimed s k \<and> value_of s k = None"
    and attempt_value: "value_of (snd (attempt k v s)) =
        (if fst (attempt k v s) then (value_of s)(k \<mapsto> v) else value_of s)"
    and attempt_claimed: "claimed (snd (attempt k v s)) = claimed s"
begin

fun attempts :: "('k \<times> 'v) list \<Rightarrow> 's \<Rightarrow> bool list \<times> 's" where
  "attempts [] s = ([], s)"
| "attempts (p # kvs) s =
     (let (ok, t) = attempt (fst p) (snd p) s; (oks, u) = attempts kvs t in (ok # oks, u))"

lemma settled_stays: "value_of s k = Some v \<Longrightarrow> value_of (snd (attempts kvs s)) k = Some v"
proof (induction kvs arbitrary: s)
  case (Cons p kvs)
  have "value_of (snd (attempt (fst p) (snd p) s)) k = Some v"
    using Cons.prems by (cases "fst p = k") (simp_all add: attempt_value attempt_ok)
  with Cons.IH show ?case by (simp add: split_beta)
qed simp

lemma first_attempt_decides:
  "claimed s k \<Longrightarrow> value_of s k = None \<Longrightarrow>
     value_of (snd (attempts kvs s)) k = map_of kvs k"
proof (induction kvs arbitrary: s)
  case (Cons p kvs)
  let ?t = "snd (attempt (fst p) (snd p) s)"
  show ?case
  proof (cases "fst p = k")
    case True
    with Cons.prems have "value_of ?t k = Some (snd p)" by (simp add: attempt_value attempt_ok)
    then show ?thesis using True by (cases p) (simp add: split_beta settled_stays)
  next
    case False
    with Cons.prems have "value_of ?t k = None" "claimed ?t k"
      by (simp_all add: attempt_value attempt_claimed)
    with Cons.IH False show ?thesis by (cases p) (simp add: split_beta)
  qed
qed simp

lemma settled_no_winner:
  "value_of s k \<noteq> None \<Longrightarrow> filter (\<lambda>q. fst (fst q) = k \<and> snd q) (zip kvs (fst (attempts kvs s))) = []"
proof (induction kvs arbitrary: s)
  case (Cons p kvs)
  have "value_of (snd (attempt (fst p) (snd p) s)) k \<noteq> None" using Cons.prems by (simp add: attempt_value)
  with Cons show ?case by (auto simp: split_beta attempt_ok)
qed simp

lemma at_most_one_winner:
  "length (filter (\<lambda>q. fst (fst q) = k \<and> snd q) (zip kvs (fst (attempts kvs s)))) \<le> 1"
proof (induction kvs arbitrary: s)
  case (Cons p kvs)
  show ?case
  proof (cases "fst p = k \<and> fst (attempt (fst p) (snd p) s)")
    case True
    have "value_of (snd (attempt (fst p) (snd p) s)) (fst p) \<noteq> None"
      using True [THEN conjunct2] by (simp add: attempt_value)
    with True show ?thesis by (auto simp: split_beta settled_no_winner)
  next
    case False
    then show ?thesis using Cons.IH by (auto simp: split_beta)
  qed
qed simp

end

definition decision_of :: "'w ApprovalBroker \<Rightarrow> string \<Rightarrow> Decision option" where
  "decision_of b i = Option.bind (map_of (bk_pending b) i) pa_decision"

definition broker_attempt :: "string \<Rightarrow> Decision \<Rightarrow> 'w ApprovalBroker \<Rightarrow> bool \<times> 'w ApprovalBroker" where
  "broker_attempt i d b =
     (let (oc, _, c) = broker_decide i (d_decision d) (d_reason d) (d_by d) (d_at d) b in (oc = Decide_ok, c))"

interpretation arbiter: first_wins decision_of "\<lambda>b. js_has (bk_pending b)" broker_attempt
proof unfold_locales
  fix i d and b :: "'w ApprovalBroker"
  show "fst (broker_attempt i d b) \<longleftrightarrow> js_has (bk_pending b) i \<and> decision_of b i = None"
    by (auto simp: broker_attempt_def broker_decide_def decision_of_def js_has_def split_beta split: option.split)
  show "decision_of (snd (broker_attempt i d b)) =
      (if fst (broker_attempt i d b) then (decision_of b)(i \<mapsto> d) else decision_of b)"
    by (rule ext) (auto simp: broker_attempt_def broker_decide_def decision_of_def settle_def Let_def
        split_beta split: option.split)
  show "js_has (bk_pending (snd (broker_attempt i d b))) = js_has (bk_pending b)"
    by (rule ext) (auto simp: broker_attempt_def broker_decide_def js_has_def settle_def Let_def
        split_beta split: option.split)
qed

text \<open>Every client that decides, in the order the daemon handles them.\<close>

fun decide_run :: "(string \<times> Decision) list \<Rightarrow> 'w ApprovalBroker \<Rightarrow> bool list \<times> 'w ApprovalBroker" where
  "decide_run [] b = ([], b)"
| "decide_run (p # ps) b =
     (let (ok, c) = broker_attempt (fst p) (snd p) b; (oks, d) = decide_run ps c in (ok # oks, d))"

lemma decide_run_eq: "decide_run ps b = arbiter.attempts ps b"
  by (induction ps arbitrary: b) (auto simp: split_beta)

definition example_approval :: "string \<Rightarrow> PendingApproval" where
  "example_approval i = \<lparr>pa_toolUseId = i, pa_sessionId = ''s'', pa_toolName = ''Bash'',
     pa_toolInput = JNull, pa_description = None, pa_requestedAt = 0, pa_deadlineAt = 10,
     pa_decision = None\<rparr>"

lemmas broker_eval = broker_open_def broker_decide_def broker_abandon_def broker_fire_def settle_def
  new_broker_def example_approval_def js_has_def js_set_def js_delete_def retention_ms_def Let_def

section \<open>Properties\<close>

text \<open>
  C11: Every blocked hook gets at most one answer and none is forgotten. In any sequence of
  requests, decisions, abandonments and timer firings, the waiters whose request was accepted
  are, counted with multiplicity, exactly those answered so far and those still waiting.
\<close>

theorem approval_waiters_accounted:
  assumes "\<forall>x\<in>set ops. op_ok x"
  shows "case broker_run ops new_broker of (effects, accepted, b) \<Rightarrow>
    mset accepted = mset (responded effects) + mset (js_values (bk_waiters b))"
  using broker_run_account [OF broker_inv_new assms]
  by (simp add: split_beta new_broker_def)

theorem approval_waiters_accounted_witness:
  "case broker_run [Open (example_approval ''t'') (7::nat), DecideOp ''t'' Allow ''ok'' ''dev'' 5] new_broker of
     (effects, accepted, b) \<Rightarrow> mset accepted = mset (responded effects) + mset (js_values (bk_waiters b))"
  by (rule approval_waiters_accounted) (simp add: example_approval_def)

text \<open>
  C2: The first decision wins. When several clients decide the same pending tool call in any
  interleaving, exactly the first attempt takes effect: the stored decision is the first one
  made, and at most one attempt on that call reports success.
\<close>

theorem first_decision_wins:
  assumes "js_has (bk_pending b) i" "decision_of b i = None"
  shows "decision_of (snd (decide_run ds b)) i = map_of ds i
    \<and> length (filter (\<lambda>(p, ok). fst p = i \<and> ok) (zip ds (fst (decide_run ds b)))) \<le> 1"
  unfolding decide_run_eq
  unfolding split_beta
  using assms arbiter.first_attempt_decides arbiter.at_most_one_winner by blast

theorem first_decision_wins_witness:
  "let b = snd (snd (broker_open (example_approval ''t'') (1::nat) new_broker));
       yes = \<lparr>d_decision = Allow, d_reason = ''go'', d_by = ''a'', d_at = 1\<rparr>;
       no = \<lparr>d_decision = Deny, d_reason = ''stop'', d_by = ''b'', d_at = 2\<rparr>
   in decision_of (snd (decide_run [(''t'', yes), (''t'', no)] b)) ''t'' = Some yes"
  unfolding Let_def by (subst first_decision_wins [THEN conjunct1]) (simp_all add: broker_eval decision_of_def)

text \<open>
  A retention timer only ever removes a decided approval. In every state the broker can
  reach, a due timer that fires deletes an entry whose decision is already stored and whose
  waiter is gone, so no request is dropped without an answer.
\<close>

theorem retention_timer_drops_only_decided:
  assumes "\<forall>x\<in>set ops. op_ok x" and "b = snd (snd (broker_run ops new_broker))"
    and "broker_fire tm now b = Some c"
  shows "(\<exists>a. broker_get (fst tm) b = Some a \<and> pa_decision a \<noteq> None)
    \<and> map_of (bk_waiters b) (fst tm) = None \<and> broker_list c = broker_list b"
proof -
  have inv: "broker_inv b" using broker_run_inv [OF broker_inv_new assms(1)] assms(2) by simp
  from assms(3) have tm: "tm \<in> set (bk_timers b)"
    and c: "c = b\<lparr>bk_timers := remove1 tm (bk_timers b), bk_pending := js_delete (fst tm) (bk_pending b)\<rparr>"
    by (auto simp: broker_fire_def split: if_splits)
  have "fst tm \<in> fst ` set (bk_timers b)" using tm by simp
  with inv obtain a where a: "map_of (bk_pending b) (fst tm) = Some a" "pa_decision a \<noteq> None"
    unfolding broker_inv_def by blast
  moreover have "map_of (bk_waiters b) (fst tm) = None"
    using inv a unfolding broker_inv_def by (metis option.inject)
  moreover have "filter (\<lambda>a. pa_decision a = None) (js_values (js_delete i m)) =
      filter (\<lambda>a. pa_decision a = None) (js_values m)"
    if "js_wf m" "map_of m i = Some a" "pa_decision a \<noteq> None" for m :: "(string, PendingApproval) jsmap" and i
    using that by (induction m) (auto simp: js_delete_Cons js_delete_absent map_of_eq_Some_iff)
  ultimately show ?thesis
    using inv unfolding broker_list_def broker_get_def c broker_inv_def by simp
qed

theorem retention_timer_drops_only_decided_witness:
  "let b = snd (snd (broker_run [Open (example_approval ''t'') (7::nat), DecideOp ''t'' Deny ''no'' ''dev'' 5] new_broker))
   in map_of (bk_waiters b) ''t'' = None"
  unfolding Let_def
  using retention_timer_drops_only_decided [of
      "[Open (example_approval ''t'') (7::nat), DecideOp ''t'' Deny ''no'' ''dev'' 5]" _ "(''t'', 60005)" 60005, OF _ refl]
  by (simp add: broker_eval)

end
