(* ===== verification/HookMargin.thy ===== *)
theory HookMargin
  imports Types
begin

text \<open>
  The two rules that decide whether a session may be started: the hook margin
  (\<^verbatim>\<open>packages/daemon/src/domain/hookMargin.ts\<close>, with its file reader
  \<^verbatim>\<open>infrastructure/hookMarginFile.ts\<close>) and the permission modes
  (\<^verbatim>\<open>domain/permissionMode.ts\<close>). Iterating over a value that is not iterable throws, so the
  evaluation is a sum with the thrown error on the left. The file system and the parse of a
  text are arguments: a path gives a text or nothing, a text gives a JSON value or nothing.
\<close>

section \<open>The margin rule\<close>

datatype MarginResult = Margin_ok | Margin_refused margin_reason

definition MIN_MARGIN_MS :: rat where "MIN_MARGIN_MS = 30000"

definition bridge_name :: string where "bridge_name = ''approve-bridge.mjs''"

text \<open>The timeout of a hook that passes the filter of the inner loop.\<close>

definition hook_timeout :: "json \<Rightarrow> rat option" where
  "hook_timeout h =
     (case (field ''command'' (Some h), field ''timeout'' (Some h)) of
        (Some (JStr c), Some (JNum (Fin t))) \<Rightarrow> if str_includes c bridge_name then Some t else None
      | _ \<Rightarrow> None)"

fun collect_hooks :: "json list \<Rightarrow> rat list" where
  "collect_hooks [] = []"
| "collect_hooks (h # hs) = (case hook_timeout h of None \<Rightarrow> [] | Some t \<Rightarrow> [t]) @ collect_hooks hs"

fun collect_entries :: "json list \<Rightarrow> js_error + rat list" where
  "collect_entries [] = Inr []"
| "collect_entries (e # es) =
     (case iterate (nullish (field ''hooks'' (Some e)) (JArr [])) of
        None \<Rightarrow> Inl TypeError
      | Some hs \<Rightarrow>
          (case collect_entries es of Inl x \<Rightarrow> Inl x | Inr ts \<Rightarrow> Inr (collect_hooks hs @ ts)))"

definition evaluateHookMargin :: "json option \<Rightarrow> rat \<Rightarrow> string \<Rightarrow> js_error + MarginResult" where
  "evaluateHookMargin settings selfDenyMs label =
     (case iterate (nullish (field ''PreToolUse'' (field ''hooks'' settings)) (JArr [])) of
        None \<Rightarrow> Inl TypeError
      | Some entries \<Rightarrow>
          (case collect_entries entries of
             Inl x \<Rightarrow> Inl x
           | Inr timeouts \<Rightarrow> Inr (
               if timeouts = [] then Margin_refused (No_bridge_hook label)
               else let settingsTimeoutMs = Min (set timeouts) * 1000;
                        marginMs = settingsTimeoutMs - selfDenyMs
                    in if marginMs < MIN_MARGIN_MS
                       then Margin_refused (Thin_margin settingsTimeoutMs marginMs selfDenyMs)
                       else Margin_ok)))"

definition settings_path :: "string \<Rightarrow> string" where
  "settings_path cwd = cwd @ ''/.claude/settings.json''"

definition policy_check :: "(string \<Rightarrow> string option) \<Rightarrow> (string \<Rightarrow> json option) \<Rightarrow>
    string \<Rightarrow> rat \<Rightarrow> js_error + MarginResult" where
  "policy_check readFile JSON_parse cwd selfDenyMs =
     (case readFile (settings_path cwd) of
        None \<Rightarrow> Inr (Margin_refused (No_settings (settings_path cwd)))
      | Some raw \<Rightarrow>
          (case JSON_parse raw of
             None \<Rightarrow> Inr (Margin_refused (Invalid_settings (settings_path cwd)))
           | Some settings \<Rightarrow> evaluateHookMargin (Some settings) selfDenyMs (settings_path cwd)))"

section \<open>The permission modes\<close>

definition APPROVAL_PRESERVING_MODES :: "PermissionMode list" where
  "APPROVAL_PRESERVING_MODES = [Plan]"

definition permissionModeIsAllowed :: "PermissionMode \<Rightarrow> bool" where
  "permissionModeIsAllowed mode \<longleftrightarrow> mode \<in> set APPROVAL_PRESERVING_MODES"

definition permissionModeRefusal :: "PermissionMode \<Rightarrow> error_text" where
  "permissionModeRefusal mode = Mode_refused mode"

lemma permissionModeIsAllowed_iff [simp]: "permissionModeIsAllowed mode \<longleftrightarrow> mode = Plan"
  by (simp add: permissionModeIsAllowed_def APPROVAL_PRESERVING_MODES_def)

section \<open>What a settings file installs\<close>

text \<open>
  Declaratively, with no loop: the hooks a settings value installs for \<^verbatim>\<open>PreToolUse\<close>, and the
  timeouts of those that run the bridge.
\<close>

definition elements_of :: "json option \<Rightarrow> json set" where
  "elements_of v = (case iterate (nullish v (JArr [])) of None \<Rightarrow> {} | Some xs \<Rightarrow> set xs)"

definition installed_hooks :: "json option \<Rightarrow> json set" where
  "installed_hooks settings =
     (\<Union>e \<in> elements_of (field ''PreToolUse'' (field ''hooks'' settings)). elements_of (field ''hooks'' (Some e)))"

definition bridge_timeouts :: "json option \<Rightarrow> rat set" where
  "bridge_timeouts settings = {t. \<exists>h \<in> installed_hooks settings. hook_timeout h = Some t}"

lemma set_collect_hooks: "set (collect_hooks hs) = {t. \<exists>h \<in> set hs. hook_timeout h = Some t}"
  by (induction hs) (auto split: option.splits)

lemma set_collect_entries:
  "collect_entries es = Inr ts \<Longrightarrow>
     set ts = {t. \<exists>e \<in> set es. \<exists>h \<in> elements_of (field ''hooks'' (Some e)). hook_timeout h = Some t}"
proof (induction es arbitrary: ts)
  case (Cons e es)
  from Cons.prems obtain hs us where hs: "iterate (nullish (field ''hooks'' (Some e)) (JArr [])) = Some hs"
    and us: "collect_entries es = Inr us" and ts: "ts = collect_hooks hs @ us"
    by (auto split: option.splits sum.splits)
  have "elements_of (field ''hooks'' (Some e)) = set hs" by (simp add: elements_of_def hs)
  with Cons.IH [OF us] ts show ?case by (auto simp: set_collect_hooks)
qed simp

lemma evaluate_Inr:
  assumes "evaluateHookMargin settings selfDenyMs label = Inr r"
  obtains ts where "set ts = bridge_timeouts settings"
    and "r = (if ts = [] then Margin_refused (No_bridge_hook label)
              else if Min (set ts) * 1000 - selfDenyMs < MIN_MARGIN_MS
              then Margin_refused (Thin_margin (Min (set ts) * 1000) (Min (set ts) * 1000 - selfDenyMs) selfDenyMs)
              else Margin_ok)"
proof -
  from assms obtain es ts
    where es: "iterate (nullish (field ''PreToolUse'' (field ''hooks'' settings)) (JArr [])) = Some es"
      and ts: "collect_entries es = Inr ts"
      and r: "r = (if ts = [] then Margin_refused (No_bridge_hook label)
              else if Min (set ts) * 1000 - selfDenyMs < MIN_MARGIN_MS
              then Margin_refused (Thin_margin (Min (set ts) * 1000) (Min (set ts) * 1000 - selfDenyMs) selfDenyMs)
              else Margin_ok)"
    by (auto simp: evaluateHookMargin_def Let_def split: option.splits sum.splits)
  have "set ts = bridge_timeouts settings"
    unfolding set_collect_entries [OF ts] bridge_timeouts_def installed_hooks_def
    by (auto simp: elements_of_def [of "field ''PreToolUse'' _"] es)
  with r show thesis by (intro that)
qed

lemma margin_ok_iff:
  assumes "evaluateHookMargin settings selfDenyMs label = Inr r"
  shows "r = Margin_ok \<longleftrightarrow> bridge_timeouts settings \<noteq> {}
      \<and> (\<forall>t \<in> bridge_timeouts settings. selfDenyMs + MIN_MARGIN_MS \<le> t * 1000)"
proof -
  from evaluate_Inr [OF assms] obtain ts where ts: "set ts = bridge_timeouts settings"
    and r: "r = (if ts = [] then Margin_refused (No_bridge_hook label)
              else if Min (set ts) * 1000 - selfDenyMs < MIN_MARGIN_MS
              then Margin_refused (Thin_margin (Min (set ts) * 1000) (Min (set ts) * 1000 - selfDenyMs) selfDenyMs)
              else Margin_ok)" .
  have "Min (set ts) * 1000 - selfDenyMs < MIN_MARGIN_MS \<longleftrightarrow>
      (\<exists>t \<in> set ts. t * 1000 < selfDenyMs + MIN_MARGIN_MS)" if "ts \<noteq> []"
  proof -
    have in_set: "Min (set ts) \<in> set ts" using that by simp
    have least: "Min (set ts) \<le> t" if "t \<in> set ts" for t using that by simp
    show ?thesis
    proof
      assume "\<exists>t \<in> set ts. t * 1000 < selfDenyMs + MIN_MARGIN_MS"
      then obtain t where "t \<in> set ts" "t * 1000 < selfDenyMs + MIN_MARGIN_MS" by blast
      with least [of t] show "Min (set ts) * 1000 - selfDenyMs < MIN_MARGIN_MS" by linarith
    qed (use in_set in force)
  qed
  then show ?thesis unfolding r ts [symmetric] by (auto simp: not_le)
qed

section \<open>Properties\<close>



text \<open>
  A malformed settings file can make the margin check throw instead of refusing. The rule
  says of itself that it refuses anything it cannot verify; when \<^verbatim>\<open>PreToolUse\<close> is a number the
  loop throws a TypeError, and the policy that reads the file passes it on.
\<close>

theorem hook_margin_throws_on_non_iterable:
  fixes rd :: "string \<Rightarrow> string option" and parse :: "string \<Rightarrow> json option"
  assumes "rd (settings_path cwd) = Some raw"
    and "parse raw = Some (JObj [(''hooks'', JObj [(''PreToolUse'', JNum n)])])"
  shows "policy_check rd parse cwd selfDenyMs = Inl TypeError"
  using assms by (simp add: policy_check_def evaluateHookMargin_def)

theorem hook_margin_throws_on_non_iterable_witness:
  "policy_check (\<lambda>_. Some ''raw'')
     (\<lambda>_. Some (JObj [(''hooks'', JObj [(''PreToolUse'', JNum (Fin 5))])])) ''/p'' 540000 = Inl TypeError"
  by (rule hook_margin_throws_on_non_iterable) (rule refl)+

end
