(* ===== verification/Db.thy ===== *)
theory Db
  imports Types
begin

text \<open>
  The durable store, \<^verbatim>\<open>packages/daemon/src/infrastructure/db.ts\<close>. A table is the list of its
  rows in the order of insertion. An \<open>INSERT\<close> that violates the primary key and a parameter
  the driver cannot bind throw (\<open>None\<close>). \<open>ORDER BY x DESC LIMIT n\<close> sorts stably; the order of
  rows with equal keys, which SQL leaves open, is that of insertion. SQLite itself, file modes
  and the write-ahead log are not modelled.
\<close>

section \<open>Tables\<close>

record ApprovalRow =
  ar_tool_use_id :: string
  ar_session_id :: string
  ar_tool_name :: string
  ar_tool_input :: json
  ar_description :: "json option"
  ar_requested_at :: int
  ar_deadline_at :: int
  ar_decision :: "verdict option"
  ar_reason :: "string option"
  ar_decided_by :: "string option"
  ar_decided_at :: "int option"

datatype final_state = Ended SessionState | Orphaned

record SessionRow =
  sn_id :: string
  sn_claude_session_id :: "string option"
  sn_cwd :: string
  sn_label :: string
  sn_model :: "string option"
  sn_started_at :: int
  sn_last_activity_at :: int
  sn_ended_at :: "int option"
  sn_final_state :: "final_state option"
  sn_exit_code :: "int option"

record JobRow =
  jr_id :: string
  jr_cwd :: string
  jr_label :: "string option"
  jr_disallowed_tools :: "string list option"
  jr_state :: JobState
  jr_session_id :: "string option"
  jr_error :: "job_error option"
  jr_requested_by :: string
  jr_created_at :: int
  jr_started_at :: "int option"
  jr_finished_at :: "int option"

record PushRow =
  pr_device_id :: string
  pr_token :: string
  pr_platform :: PushPlatform
  pr_updated_at :: int

record Db =
  db_approvals :: "ApprovalRow list"
  db_sessions :: "SessionRow list"
  db_jobs :: "JobRow list"
  db_push :: "PushRow list"

definition empty_db :: Db where
  "empty_db = \<lparr>db_approvals = [], db_sessions = [], db_jobs = [], db_push = []\<rparr>"

text \<open>\<open>UPDATE ... WHERE\<close> on one table.\<close>

definition update_where :: "('r \<Rightarrow> bool) \<Rightarrow> ('r \<Rightarrow> 'r) \<Rightarrow> 'r list \<Rightarrow> 'r list" where
  "update_where P f rows = map (\<lambda>r. if P r then f r else r) rows"

text \<open>The parameters the driver binds: null, numbers and strings.\<close>

fun bindable :: "json option \<Rightarrow> bool" where
  "bindable (Some (JBool _)) = False"
| "bindable (Some (JArr _)) = False"
| "bindable (Some (JObj _)) = False"
| "bindable _ = True"

section \<open>The approvals table\<close>

definition approval_row :: "PendingApproval \<Rightarrow> ApprovalRow" where
  "approval_row a = \<lparr>ar_tool_use_id = pa_toolUseId a, ar_session_id = pa_sessionId a,
     ar_tool_name = pa_toolName a, ar_tool_input = pa_toolInput a, ar_description = pa_description a,
     ar_requested_at = pa_requestedAt a, ar_deadline_at = pa_deadlineAt a, ar_decision = None,
     ar_reason = None, ar_decided_by = None, ar_decided_at = None\<rparr>"

definition recordApprovalRequested :: "PendingApproval \<Rightarrow> Db \<Rightarrow> Db option" where
  "recordApprovalRequested a db =
     (if \<not> bindable (pa_description a) then None
      else if \<exists>r \<in> set (db_approvals db). ar_tool_use_id r = pa_toolUseId a then Some db
      else Some (db\<lparr>db_approvals := db_approvals db @ [approval_row a]\<rparr>))"

definition recordApprovalDecision :: "string \<Rightarrow> Decision \<Rightarrow> Db \<Rightarrow> Db" where
  "recordApprovalDecision toolUseId d db = db\<lparr>db_approvals :=
     update_where (\<lambda>r. ar_tool_use_id r = toolUseId)
       (\<lambda>r. r\<lparr>ar_decision := Some (d_decision d), ar_reason := Some (d_reason d),
              ar_decided_by := Some (d_by d), ar_decided_at := Some (d_at d)\<rparr>) (db_approvals db)\<rparr>"

definition history_entry :: "ApprovalRow \<Rightarrow> ApprovalHistoryEntry" where
  "history_entry r = \<lparr>ah_toolUseId = ar_tool_use_id r, ah_sessionId = ar_session_id r,
     ah_toolName = ar_tool_name r, ah_description = ar_description r,
     ah_requestedAt = ar_requested_at r, ah_decision = the (ar_decision r),
     ah_reason = the (ar_reason r), ah_decidedBy = the (ar_decided_by r), ah_decidedAt = the (ar_decided_at r)\<rparr>"

definition queryRecentApprovals :: "nat \<Rightarrow> Db \<Rightarrow> ApprovalHistoryEntry list" where
  "queryRecentApprovals limit db =
     map history_entry (take limit (sort_key (\<lambda>r. - the (ar_decided_at r))
       (filter (\<lambda>r. ar_decision r \<noteq> None) (db_approvals db))))"

section \<open>The sessions table\<close>

definition recordSessionStarted :: "string \<Rightarrow> string \<Rightarrow> string \<Rightarrow> int \<Rightarrow> Db \<Rightarrow> Db option" where
  "recordSessionStarted i cwd label startedAt db =
     (if \<exists>r \<in> set (db_sessions db). sn_id r = i then None
      else Some (db\<lparr>db_sessions := db_sessions db @
        [\<lparr>sn_id = i, sn_claude_session_id = None, sn_cwd = cwd, sn_label = label, sn_model = None,
          sn_started_at = startedAt, sn_last_activity_at = startedAt, sn_ended_at = None,
          sn_final_state = None, sn_exit_code = None\<rparr>]\<rparr>))"

definition updateSessionActivity :: "string \<Rightarrow> string option \<Rightarrow> string option \<Rightarrow> int \<Rightarrow> Db \<Rightarrow> Db" where
  "updateSessionActivity i claudeSessionId model ts db = db\<lparr>db_sessions :=
     update_where (\<lambda>r. sn_id r = i)
       (\<lambda>r. r\<lparr>sn_claude_session_id := claudeSessionId, sn_model := model, sn_last_activity_at := ts\<rparr>)
       (db_sessions db)\<rparr>"

definition recordSessionEnded :: "string \<Rightarrow> SessionState \<Rightarrow> int option \<Rightarrow> int \<Rightarrow> Db \<Rightarrow> Db" where
  "recordSessionEnded i finalState exitCode ts db = db\<lparr>db_sessions :=
     update_where (\<lambda>r. sn_id r = i)
       (\<lambda>r. r\<lparr>sn_ended_at := Some ts, sn_final_state := Some (Ended finalState), sn_exit_code := exitCode\<rparr>)
       (db_sessions db)\<rparr>"

definition reconcileOrphanedSessions :: "int \<Rightarrow> Db \<Rightarrow> nat \<times> Db" where
  "reconcileOrphanedSessions bootTime db =
     (length (filter (\<lambda>r. sn_final_state r = None) (db_sessions db)),
      db\<lparr>db_sessions := update_where (\<lambda>r. sn_final_state r = None)
        (\<lambda>r. r\<lparr>sn_ended_at := Some bootTime, sn_final_state := Some Orphaned\<rparr>) (db_sessions db)\<rparr>)"

section \<open>The jobs table\<close>

definition job_row :: "JobInfo \<Rightarrow> JobRow" where
  "job_row j = \<lparr>jr_id = j_id j, jr_cwd = j_cwd j, jr_label = j_label j,
     jr_disallowed_tools = j_disallowedTools j, jr_state = j_state j, jr_session_id = j_sessionId j,
     jr_error = j_error j, jr_requested_by = j_requestedBy j, jr_created_at = j_createdAt j,
     jr_started_at = j_startedAt j, jr_finished_at = j_finishedAt j\<rparr>"

definition insertJob :: "JobInfo \<Rightarrow> Db \<Rightarrow> Db option" where
  "insertJob job db =
     (if \<exists>r \<in> set (db_jobs db). jr_id r = j_id job then None
      else Some (db\<lparr>db_jobs := db_jobs db @ [job_row job]\<rparr>))"

record JobPatch =
  jp_state :: JobState
  jp_sessionId :: "string option"
  jp_error :: "job_error option"
  jp_startedAt :: "int option"
  jp_finishedAt :: "int option"

definition coalesce :: "'a option \<Rightarrow> 'a option \<Rightarrow> 'a option" where
  "coalesce a b = (case a of None \<Rightarrow> b | Some _ \<Rightarrow> a)"

definition patch_row :: "JobPatch \<Rightarrow> JobRow \<Rightarrow> JobRow" where
  "patch_row p r = r\<lparr>jr_state := jp_state p,
     jr_session_id := coalesce (jp_sessionId p) (jr_session_id r),
     jr_error := coalesce (jp_error p) (jr_error r),
     jr_started_at := coalesce (jp_startedAt p) (jr_started_at r),
     jr_finished_at := coalesce (jp_finishedAt p) (jr_finished_at r)\<rparr>"

definition updateJobState :: "string \<Rightarrow> JobPatch \<Rightarrow> Db \<Rightarrow> Db" where
  "updateJobState i patch db =
     db\<lparr>db_jobs := update_where (\<lambda>r. jr_id r = i) (patch_row patch) (db_jobs db)\<rparr>"

definition job_of_row :: "JobRow \<Rightarrow> JobInfo" where
  "job_of_row r = \<lparr>j_id = jr_id r, j_cwd = jr_cwd r, j_label = jr_label r,
     j_disallowedTools = jr_disallowed_tools r, j_model = None, j_permissionMode = None, j_effort = None,
     j_state = jr_state r, j_sessionId = jr_session_id r, j_error = jr_error r,
     j_requestedBy = jr_requested_by r, j_createdAt = jr_created_at r,
     j_startedAt = jr_started_at r, j_finishedAt = jr_finished_at r\<rparr>"

definition queryRecentJobs :: "nat \<Rightarrow> Db \<Rightarrow> JobInfo list" where
  "queryRecentJobs limit db =
     map job_of_row (take limit (sort_key (\<lambda>r. - jr_created_at r) (db_jobs db)))"

definition live_state :: "JobState \<Rightarrow> bool" where
  "live_state s \<longleftrightarrow> s = Queued \<or> s = Running"

definition reconcileOrphanedJobs :: "int \<Rightarrow> Db \<Rightarrow> nat \<times> Db" where
  "reconcileOrphanedJobs bootTime db =
     (length (filter (\<lambda>r. live_state (jr_state r)) (db_jobs db)),
      db\<lparr>db_jobs := update_where (\<lambda>r. live_state (jr_state r))
        (\<lambda>r. r\<lparr>jr_state := Failed, jr_error := Some Daemon_restarted, jr_finished_at := Some bootTime\<rparr>)
        (db_jobs db)\<rparr>)"

section \<open>Push registrations\<close>

definition upsertPushRegistration :: "string \<Rightarrow> string \<Rightarrow> PushPlatform \<Rightarrow> int \<Rightarrow> Db \<Rightarrow> Db" where
  "upsertPushRegistration deviceId token platform ts db =
     (if \<exists>r \<in> set (db_push db). pr_device_id r = deviceId
      then db\<lparr>db_push := update_where (\<lambda>r. pr_device_id r = deviceId)
        (\<lambda>r. r\<lparr>pr_token := token, pr_platform := platform, pr_updated_at := ts\<rparr>) (db_push db)\<rparr>
      else db\<lparr>db_push := db_push db @ [\<lparr>pr_device_id = deviceId, pr_token = token,
             pr_platform = platform, pr_updated_at = ts\<rparr>]\<rparr>)"

definition listPushTokens :: "Db \<Rightarrow> string list" where
  "listPushTokens db = map pr_token (db_push db)"

definition deletePushRegistration :: "string \<Rightarrow> Db \<Rightarrow> Db" where
  "deletePushRegistration deviceId db = db\<lparr>db_push := filter (\<lambda>r. pr_device_id r \<noteq> deviceId) (db_push db)\<rparr>"

section \<open>Laws\<close>

text \<open>The primary keys.\<close>

definition db_inv :: "Db \<Rightarrow> bool" where
  "db_inv db \<longleftrightarrow> distinct (map ar_tool_use_id (db_approvals db)) \<and> distinct (map sn_id (db_sessions db))
     \<and> distinct (map jr_id (db_jobs db)) \<and> distinct (map pr_device_id (db_push db))"

lemma map_update_where:
  "(\<And>r. k (f r) = k r) \<Longrightarrow> map k (update_where P f rows) = map k rows"
  by (simp add: update_where_def)

lemma set_update_where: "set (update_where P f rows) = f ` {r \<in> set rows. P r} \<union> {r \<in> set rows. \<not> P r}"
  by (auto simp: update_where_def)

lemma map_filter_neq: "map k (filter (\<lambda>r. k r \<noteq> x) rows) = filter (\<lambda>y. y \<noteq> x) (map k rows)"
  by (induction rows) auto

lemma db_inv_empty [simp]: "db_inv empty_db"
  by (simp add: db_inv_def empty_db_def)

lemma patch_row_id [simp]: "jr_id (patch_row p r) = jr_id r"
  by (simp add: patch_row_def)

lemma db_inv_ops:
  assumes "db_inv db"
  shows "recordApprovalRequested a db = Some e \<Longrightarrow> db_inv e"
    and "db_inv (recordApprovalDecision i d db)"
    and "recordSessionStarted i c l t db = Some e \<Longrightarrow> db_inv e"
    and "db_inv (updateSessionActivity i cs m t db)"
    and "db_inv (recordSessionEnded i fs x t db)"
    and "db_inv (snd (reconcileOrphanedSessions t db))"
    and "insertJob j db = Some e \<Longrightarrow> db_inv e"
    and "db_inv (updateJobState i p db)"
    and "db_inv (snd (reconcileOrphanedJobs t db))"
    and "db_inv (upsertPushRegistration i tok pl t db)"
    and "db_inv (deletePushRegistration i db)"
  using assms
  by (auto simp: db_inv_def recordApprovalRequested_def recordApprovalDecision_def map_update_where
      recordSessionStarted_def updateSessionActivity_def recordSessionEnded_def approval_row_def
      reconcileOrphanedSessions_def insertJob_def updateJobState_def reconcileOrphanedJobs_def job_row_def
      upsertPushRegistration_def deletePushRegistration_def map_filter_neq split: if_splits, (metis+)?)

section \<open>Runs\<close>

datatype db_op =
    Approval_requested PendingApproval
  | Approval_decided string Decision
  | Session_started string string string int
  | Session_activity string "string option" "string option" int
  | Session_ended string SessionState "int option" int
  | Job_inserted JobInfo
  | Job_updated string JobPatch
  | Push_upsert string string PushPlatform int
  | Push_delete string
  | Boot int

text \<open>A statement that throws leaves the store as it was. Boot reconciles both tables.\<close>

fun db_step :: "db_op \<Rightarrow> Db \<Rightarrow> Db" where
  "db_step (Approval_requested a) db = (case recordApprovalRequested a db of None \<Rightarrow> db | Some e \<Rightarrow> e)"
| "db_step (Approval_decided i d) db = recordApprovalDecision i d db"
| "db_step (Session_started i c l t) db = (case recordSessionStarted i c l t db of None \<Rightarrow> db | Some e \<Rightarrow> e)"
| "db_step (Session_activity i c m t) db = updateSessionActivity i c m t db"
| "db_step (Session_ended i f x t) db = recordSessionEnded i f x t db"
| "db_step (Job_inserted j) db = (case insertJob j db of None \<Rightarrow> db | Some e \<Rightarrow> e)"
| "db_step (Job_updated i p) db = updateJobState i p db"
| "db_step (Push_upsert i tok pl t) db = upsertPushRegistration i tok pl t db"
| "db_step (Push_delete i) db = deletePushRegistration i db"
| "db_step (Boot t) db = snd (reconcileOrphanedJobs t (snd (reconcileOrphanedSessions t db)))"

definition db_run :: "db_op list \<Rightarrow> Db \<Rightarrow> Db" where
  "db_run ops db = fold db_step ops db"

lemma db_step_inv: "db_inv db \<Longrightarrow> db_inv (db_step x db)"
  by (cases x) (auto intro: db_inv_ops split: option.split)

lemma db_run_inv: "db_inv db \<Longrightarrow> db_inv (db_run ops db)"
  by (induction ops arbitrary: db) (auto simp: db_run_def db_step_inv)

text \<open>The columns a request fills in.\<close>

definition request_part :: "ApprovalRow \<Rightarrow> ApprovalRow" where
  "request_part r = r\<lparr>ar_decision := None, ar_reason := None, ar_decided_by := None, ar_decided_at := None\<rparr>"

definition requests :: "Db \<Rightarrow> ApprovalRow list" where
  "requests db = map request_part (db_approvals db)"

lemma requests_decision [simp]: "requests (recordApprovalDecision i d db) = requests db"
  by (simp add: requests_def recordApprovalDecision_def map_update_where request_part_def)

lemma requests_other [simp]:
  "requests (updateSessionActivity i c m t db) = requests db"
  "requests (recordSessionEnded i f x t db) = requests db"
  "requests (updateJobState i p db) = requests db"
  "requests (upsertPushRegistration i tok pl t db) = requests db"
  "requests (deletePushRegistration i db) = requests db"
  "requests (snd (reconcileOrphanedJobs t db)) = requests db"
  "requests (snd (reconcileOrphanedSessions t db)) = requests db"
  by (simp_all add: requests_def updateSessionActivity_def recordSessionEnded_def updateJobState_def
      upsertPushRegistration_def deletePushRegistration_def reconcileOrphanedJobs_def reconcileOrphanedSessions_def)

lemma requests_insert:
  "recordApprovalRequested a db = Some e \<Longrightarrow> prefix (requests db) (requests e)"
  "recordSessionStarted i c l t db = Some e \<Longrightarrow> requests e = requests db"
  "insertJob j db = Some e \<Longrightarrow> requests e = requests db"
  by (auto simp: recordApprovalRequested_def recordSessionStarted_def insertJob_def requests_def split: if_splits)

lemma db_step_requests: "prefix (requests db) (requests (db_step x db))"
  by (cases x) (auto simp: requests_insert split: option.split)

lemma db_run_requests: "prefix (requests db) (requests (db_run ops db))"
proof (induction ops arbitrary: db)
  case (Cons x ops)
  have "prefix (requests (db_step x db)) (requests (db_run ops (db_step x db)))" by (rule Cons.IH)
  then show ?case using db_step_requests [of db x] by (simp add: db_run_def prefix_order.trans)
qed (simp add: db_run_def)

lemma the_row:
  "distinct (map k rows) \<Longrightarrow> r \<in> set rows \<Longrightarrow> s \<in> set rows \<Longrightarrow> k r = k s \<Longrightarrow> r = s"
  by (metis distinct_map inj_onD)

section \<open>Properties\<close>

text \<open>
  The record of what was asked is append-only. Whatever the daemon does to the store
  afterwards, including a second request with the same tool call id, decisions, revocations
  and restarts, the request columns of every stored approval keep their first value and their
  place, and there is never a second row for an id.
\<close>

theorem audit_requests_append_only:
  "prefix (requests (db_run ops empty_db)) (requests (db_run (ops @ later) empty_db))
   \<and> distinct (map ar_tool_use_id (db_approvals (db_run (ops @ later) empty_db)))"
proof -
  have "db_run (ops @ later) empty_db = db_run later (db_run ops empty_db)" by (simp add: db_run_def)
  moreover have "db_inv (db_run (ops @ later) empty_db)" by (simp add: db_run_inv)
  ultimately show ?thesis using db_run_requests by (simp add: db_inv_def)
qed

text \<open>
  Boot reconciliation. After it no job row is queued or running and no session row is
  without a final state; the rows it changed are the ones it counts, it marks them as failed
  or orphaned at boot time, and it leaves every other row exactly as it was.
\<close>

theorem boot_reconciles:
  "let db1 = db_step (Boot t) db
   in list_all (\<lambda>r. jr_state r \<in> {Done, Failed}) (db_jobs db1)
    \<and> list_all (\<lambda>r. sn_final_state r \<noteq> None) (db_sessions db1)
    \<and> filter (\<lambda>r. \<not> live_state (jr_state r)) (db_jobs db)
        = map fst (filter (\<lambda>(r, r1). r1 = r) (zip (db_jobs db) (db_jobs db1)))
    \<and> fst (reconcileOrphanedJobs t db) = length (filter (\<lambda>(r, r1). r1 \<noteq> r) (zip (db_jobs db) (db_jobs db1)))
    \<and> db_approvals db1 = db_approvals db \<and> db_push db1 = db_push db"
proof -
  define f where "f r = (if live_state (jr_state r)
      then r\<lparr>jr_state := Failed, jr_error := Some Daemon_restarted, jr_finished_at := Some t\<rparr> else r)" for r :: JobRow
  let ?db1 = "db_step (Boot t) db"
  have jobs: "db_jobs ?db1 = map f (db_jobs db)"
    by (simp add: reconcileOrphanedJobs_def reconcileOrphanedSessions_def update_where_def f_def)
  have changed: "f r = r \<longleftrightarrow> \<not> live_state (jr_state r)" for r
    by (cases r) (auto simp: f_def live_state_def)
  have zip: "zip (db_jobs db) (map f (db_jobs db)) = map (\<lambda>r. (r, f r)) (db_jobs db)"
    by (simp add: zip_map2 zip_same_conv_map)
  have "jr_state (f r) \<in> {Done, Failed}" for r by (cases "jr_state r") (simp_all add: f_def live_state_def)
  moreover have "list_all (\<lambda>r. sn_final_state r \<noteq> None) (db_sessions ?db1)"
    by (auto simp: list_all_iff reconcileOrphanedJobs_def reconcileOrphanedSessions_def update_where_def)
  ultimately show ?thesis
    unfolding Let_def jobs zip
    by (simp add: list_all_iff filter_map o_def changed)
      (simp add: reconcileOrphanedJobs_def reconcileOrphanedSessions_def)
qed

text \<open>
  The audit read side. \<^verbatim>\<open>queryRecentApprovals\<close> returns as many entries as the limit allows.
  Together with the ones it leaves out they are exactly the decided approvals, each once, in
  descending order of decision time, so what it leaves out is never more recent than what it
  returns.
\<close>

theorem history_query_correct:
  "let es = queryRecentApprovals limit db; ds = filter (\<lambda>r. ar_decision r \<noteq> None) (db_approvals db)
   in length es = min limit (length ds)
    \<and> (\<exists>rest. mset (es @ rest) = mset (map history_entry ds) \<and> sorted_wrt (\<ge>) (map ah_decidedAt (es @ rest)))"
proof -
  let ?ds = "filter (\<lambda>r. ar_decision r \<noteq> None) (db_approvals db)"
  let ?k = "\<lambda>r. - the (ar_decided_at r)"
  let ?s = "sort_key ?k ?ds"
  have es: "queryRecentApprovals limit db = map history_entry (take limit ?s)"
    by (simp add: queryRecentApprovals_def)
  let ?rest = "map history_entry (drop limit ?s)"
  have all: "queryRecentApprovals limit db @ ?rest = map history_entry ?s"
    unfolding es by (metis append_take_drop_id map_append)
  have "sorted (map ?k ?s)" by (rule sorted_sort_key)
  then have "sorted_wrt (\<ge>) (map ah_decidedAt (map history_entry ?s))"
    by (simp add: sorted_wrt_map history_entry_def)
  moreover have "mset (map history_entry ?s) = mset (map history_entry ?ds)" by simp
  moreover have "length (queryRecentApprovals limit db) = min limit (length ?ds)" unfolding es by simp
  ultimately show ?thesis unfolding Let_def using all by metis
qed

end
