(* ===== verification/Jobs.thy ===== *)
theory Jobs
  imports HookMargin Db
begin

text \<open>
  The job queue, \<^verbatim>\<open>packages/daemon/src/application/jobs.ts\<close>. A job is one mutable object that
  the map of live jobs, the exit handler of its session and the caller share; \<open>jq_heap\<close> holds
  every job object created and \<open>jq_live\<close> the keys of the map in insertion order. What the queue
  asks of the outside (the margin check, the spawn, the clock) is an environment indexed by the
  number of calls made so far, so a check may answer differently each time. What it does to
  the outside is a list of effects in order. Log lines are left out.
\<close>

section \<open>State and environment\<close>

record JobQueue =
  jq_heap :: "(string, JobInfo) jsmap"
  jq_live :: "string list"
  jq_running :: int
  jq_ticks :: nat

definition new_queue :: JobQueue where
  "new_queue = \<lparr>jq_heap = [], jq_live = [], jq_running = 0, jq_ticks = 0\<rparr>"

text \<open>
  \<open>Spawn_threw\<close>: \<^verbatim>\<open>spawnSession\<close> threw. \<open>Setup_threw\<close>: the session was created and \<^verbatim>\<open>onSession\<close> threw.
\<close>

datatype spawn_result = Spawned string | Spawn_threw string | Setup_threw string string

record job_env =
  je_max :: "nat option"
  je_check :: "nat \<Rightarrow> string \<Rightarrow> js_error + MarginResult"
  je_spawn :: "nat \<Rightarrow> SpawnRequest \<Rightarrow> spawn_result"
  je_now :: "nat \<Rightarrow> int"

datatype job_effect =
    Insert_job JobInfo
  | Update_state string JobPatch
  | Emit_update JobInfo
  | Do_spawn SpawnRequest
  | On_session string string

text \<open>\<^verbatim>\<open>this.running >= this.opts.maxConcurrent\<close>; no cap is \<open>Infinity\<close>.\<close>

definition at_cap :: "job_env \<Rightarrow> JobQueue \<Rightarrow> bool" where
  "at_cap e q = (case je_max e of None \<Rightarrow> False | Some m \<Rightarrow> int m \<le> jq_running q)"

definition tick :: "JobQueue \<Rightarrow> JobQueue" where
  "tick q = q\<lparr>jq_ticks := Suc (jq_ticks q)\<rparr>"

definition store_job :: "JobInfo \<Rightarrow> JobQueue \<Rightarrow> JobQueue" where
  "store_job job q = q\<lparr>jq_heap := js_set (j_id job) job (jq_heap q)\<rparr>"

definition drop_live :: "string \<Rightarrow> JobQueue \<Rightarrow> JobQueue" where
  "drop_live i q = q\<lparr>jq_live := set_delete i (jq_live q)\<rparr>"

definition no_patch :: "JobState \<Rightarrow> JobPatch" where
  "no_patch s = \<lparr>jp_state = s, jp_sessionId = None, jp_error = None, jp_startedAt = None, jp_finishedAt = None\<rparr>"

definition request_of :: "JobInfo \<Rightarrow> SpawnRequest" where
  "request_of job = \<lparr>sr_cwd = j_cwd job, sr_label = j_label job, sr_disallowedTools = j_disallowedTools job,
     sr_model = j_model job, sr_permissionMode = j_permissionMode job, sr_effort = j_effort job\<rparr>"

section \<open>Operations\<close>

text \<open>The terminal transition common to the three failure paths and the exit handler.\<close>

definition finish_job :: "JobInfo \<Rightarrow> JobState \<Rightarrow> job_error option \<Rightarrow> int \<Rightarrow> JobQueue \<Rightarrow> job_effect list \<times> JobQueue" where
  "finish_job job s err now q =
     (let j1 = job\<lparr>j_state := s, j_error := err, j_finishedAt := Some now\<rparr>
      in ([Update_state (j_id job) (no_patch s\<lparr>jp_error := err, jp_finishedAt := Some now\<rparr>), Emit_update j1],
          drop_live (j_id job) (store_job j1 q)))"

text \<open>The part of \<^verbatim>\<open>tryStart\<close> after the margin check passed.\<close>

definition start_job :: "job_env \<Rightarrow> JobInfo \<Rightarrow> JobQueue \<Rightarrow> job_effect list \<times> JobQueue" where
  "start_job e job q =
     (let now = je_now e (jq_ticks q);
          j1 = job\<lparr>j_state := Running, j_startedAt := Some now\<rparr>;
          q1 = tick ((store_job j1 q)\<lparr>jq_running := jq_running q + 1\<rparr>);
          es = [Update_state (j_id job) (no_patch Running\<lparr>jp_startedAt := Some now\<rparr>), Emit_update j1,
                Do_spawn (request_of job)]
      in case je_spawn e (jq_ticks q) (request_of job) of
           Spawned sid \<Rightarrow>
             (es @ [Update_state (j_id job) (no_patch Running\<lparr>jp_sessionId := Some sid\<rparr>), On_session (j_id job) sid],
              store_job (j1\<lparr>j_sessionId := Some sid\<rparr>) q1)
         | Spawn_threw msg \<Rightarrow>
             (let (fs, q2) = finish_job j1 Failed (Some (Failed_to_spawn msg)) (je_now e (jq_ticks q1))
                               (q1\<lparr>jq_running := jq_running q1 - 1\<rparr>)
              in (es @ fs, q2))
         | Setup_threw sid msg \<Rightarrow>
             (let j2 = j1\<lparr>j_sessionId := Some sid\<rparr>;
                  (fs, q2) = finish_job j2 Failed (Some (Failed_to_spawn msg)) (je_now e (jq_ticks q1))
                               ((store_job j2 q1)\<lparr>jq_running := jq_running q1 - 1\<rparr>)
              in (es @ [Update_state (j_id job) (no_patch Running\<lparr>jp_sessionId := Some sid\<rparr>),
                        On_session (j_id job) sid] @ fs, q2)))"

definition tryStart :: "job_env \<Rightarrow> string \<Rightarrow> JobQueue \<Rightarrow> js_error option \<times> job_effect list \<times> JobQueue" where
  "tryStart e i q =
     (case map_of (jq_heap q) i of
        None \<Rightarrow> (None, [], q)
      | Some job \<Rightarrow>
          if j_state job \<noteq> Queued \<or> at_cap e q then (None, [], q)
          else (case je_check e (jq_ticks q) (j_cwd job) of
                  Inl err \<Rightarrow> (Some err, [], tick q)
                | Inr (Margin_refused reason) \<Rightarrow>
                    (None, finish_job job Failed (Some (Refusing_to_spawn reason)) (je_now e (jq_ticks q)) (tick q))
                | Inr Margin_ok \<Rightarrow> (None, start_job e job (tick q))))"

text \<open>The loop of \<^verbatim>\<open>pumpQueue\<close> over the keys of the map; only a visited key is deleted on the way.\<close>

fun pump_loop :: "job_env \<Rightarrow> string list \<Rightarrow> JobQueue \<Rightarrow> js_error option \<times> job_effect list \<times> JobQueue" where
  "pump_loop e [] q = (None, [], q)"
| "pump_loop e (i # is) q =
     (if at_cap e q then (None, [], q)
      else if map_option j_state (map_of (jq_heap q) i) = Some Queued
      then (case tryStart e i q of
              (Some err, es, q1) \<Rightarrow> (Some err, es, q1)
            | (None, es, q1) \<Rightarrow> (let (r, fs, q2) = pump_loop e is q1 in (r, es @ fs, q2)))
      else pump_loop e is q)"

definition pumpQueue :: "job_env \<Rightarrow> JobQueue \<Rightarrow> js_error option \<times> job_effect list \<times> JobQueue" where
  "pumpQueue e q = pump_loop e (jq_live q) q"

definition new_job :: "string \<Rightarrow> SpawnRequest \<Rightarrow> string \<Rightarrow> int \<Rightarrow> JobInfo" where
  "new_job i req requestedBy now = \<lparr>j_id = i, j_cwd = sr_cwd req, j_label = sr_label req,
     j_disallowedTools = sr_disallowedTools req, j_model = sr_model req,
     j_permissionMode = sr_permissionMode req, j_effort = sr_effort req, j_state = Queued,
     j_sessionId = None, j_error = None, j_requestedBy = requestedBy, j_createdAt = now,
     j_startedAt = None, j_finishedAt = None\<rparr>"

text \<open>The identifier that \<^verbatim>\<open>randomUUID\<close> returns is an argument.\<close>

definition enqueue :: "job_env \<Rightarrow> string \<Rightarrow> SpawnRequest \<Rightarrow> string \<Rightarrow> JobQueue \<Rightarrow>
    (js_error + JobInfo) \<times> job_effect list \<times> JobQueue" where
  "enqueue e i req requestedBy q =
     (let now = je_now e (jq_ticks q);
          job = new_job i req requestedBy now
      in case je_check e (jq_ticks q) (sr_cwd req) of
           Inl err \<Rightarrow> (Inl err, [], tick q)
         | Inr (Margin_refused reason) \<Rightarrow>
             (let j1 = job\<lparr>j_state := Failed, j_error := Some (Refusing_to_spawn reason), j_finishedAt := Some now\<rparr>
              in (Inr j1, [Insert_job j1, Emit_update j1], store_job j1 (tick q)))
         | Inr Margin_ok \<Rightarrow>
             (let q1 = (store_job job (tick q))\<lparr>jq_live := set_add i (jq_live q)\<rparr>;
                  (r, es, q2) = tryStart e i q1
              in (case r of Some err \<Rightarrow> Inl err
                          | None \<Rightarrow> Inr (case map_of (jq_heap q2) i of Some j \<Rightarrow> j | None \<Rightarrow> job),
                  [Insert_job job, Emit_update job] @ es, q2)))"

definition exit_error :: "int option \<Rightarrow> string option \<Rightarrow> JobInfo \<Rightarrow> job_error option" where
  "exit_error code err job =
     (if code = Some 0 then j_error job
      else Some (case err of Some m \<Rightarrow> Failed_to_spawn m | None \<Rightarrow> Exited_with code))"

definition job_exit :: "job_env \<Rightarrow> string \<Rightarrow> int option \<Rightarrow> string option \<Rightarrow> JobQueue \<Rightarrow>
    js_error option \<times> job_effect list \<times> JobQueue" where
  "job_exit e i code err q =
     (case map_of (jq_heap q) i of
        None \<Rightarrow> (None, [], q)
      | Some job \<Rightarrow>
          (let (es, q1) = finish_job job (if code = Some 0 then Done else Failed) (exit_error code err job)
                            (je_now e (jq_ticks q)) (tick (q\<lparr>jq_running := jq_running q - 1\<rparr>));
               (r, fs, q2) = pumpQueue e q1
           in (r, es @ fs, q2)))"

definition job_list :: "JobQueue \<Rightarrow> JobInfo list" where
  "job_list q = map (\<lambda>i. the (map_of (jq_heap q) i)) (jq_live q)"

definition mergeSnapshotJobs :: "JobInfo list \<Rightarrow> JobInfo list \<Rightarrow> JobInfo list" where
  "mergeSnapshotJobs live durable = live @ filter (\<lambda>j. j_id j \<notin> set (map j_id live)) durable"

lemmas job_q_defs = tick_def store_job_def drop_live_def

section \<open>The shape of the queue\<close>

text \<open>
  The live keys are a segment of running jobs followed by a segment of queued ones; the
  counter is the length of the first; every other job object is in a terminal state.
\<close>

definition job_at :: "JobQueue \<Rightarrow> string \<Rightarrow> JobState \<Rightarrow> bool" where
  "job_at q i s \<longleftrightarrow> (\<exists>job. map_of (jq_heap q) i = Some job \<and> j_id job = i \<and> j_state job = s)"

definition segments :: "job_env \<Rightarrow> JobQueue \<Rightarrow> string list \<Rightarrow> string list \<Rightarrow> bool" where
  "segments e q rs ws \<longleftrightarrow> jq_live q = rs @ ws \<and> distinct (rs @ ws)
     \<and> (\<forall>i \<in> set rs. job_at q i Running) \<and> (\<forall>i \<in> set ws. job_at q i Queued)
     \<and> (\<forall>i job. map_of (jq_heap q) i = Some job \<and> i \<notin> set (rs @ ws) \<longrightarrow> j_id job = i \<and> \<not> live_state (j_state job))
     \<and> jq_running q = int (length rs)
     \<and> (case je_max e of None \<Rightarrow> True | Some m \<Rightarrow> length rs \<le> m)"

lemma at_cap_tick [simp]: "at_cap e (tick q) = at_cap e q"
  by (simp add: at_cap_def tick_def split: option.split)

lemma tick_fields [simp]:
  "jq_heap (tick q) = jq_heap q" "jq_live (tick q) = jq_live q" "jq_running (tick q) = jq_running q"
  by (simp_all add: tick_def)

lemma segments_tick [simp]: "segments e (tick q) rs ws = segments e q rs ws"
  by (simp add: segments_def job_at_def)

lemma finish_job_fields:
  "jq_heap (snd (finish_job job s err now q)) =
     js_set (j_id job) (job\<lparr>j_state := s, j_error := err, j_finishedAt := Some now\<rparr>) (jq_heap q)"
  "jq_live (snd (finish_job job s err now q)) = set_delete (j_id job) (jq_live q)"
  "jq_running (snd (finish_job job s err now q)) = jq_running q"
  by (simp_all add: finish_job_def job_q_defs Let_def)

lemma set_delete_append [simp]: "set_delete x (xs @ ys) = set_delete x xs @ set_delete x ys"
  by (simp add: set_delete_def)

lemma set_delete_absent: "x \<notin> set xs \<Longrightarrow> set_delete x xs = xs"
  by (auto simp: set_delete_def filter_id_conv)

lemma set_delete_Cons_same: "x \<notin> set xs \<Longrightarrow> set_delete x (x # xs) = xs"
  by (auto simp: set_delete_def filter_id_conv)

text \<open>A queued job that ends without a session: the head of the second segment goes.\<close>

lemma segments_drop_head:
  assumes "segments e q rs (i # ws)" "\<not> live_state s" "j_id job = i" "j_state job = s"
    and "jq_heap q1 = js_set i job (jq_heap p)" "map_of (jq_heap p) = (map_of (jq_heap q))(i := x)"
    and "jq_live q1 = set_delete i (jq_live q)" "jq_running q1 = jq_running q"
  shows "segments e q1 rs ws"
proof -
  have "i \<notin> set rs" "i \<notin> set ws" using assms(1) by (auto simp: segments_def)
  then show ?thesis
    using assms by (auto simp: segments_def job_at_def set_delete_absent set_delete_Cons_same)
qed

text \<open>A queued job that starts: it moves from the head of the second segment to the end of the first.\<close>

lemma segments_move_head:
  assumes "segments e q rs (i # ws)" "\<not> at_cap e q" "j_id job = i" "j_state job = Running"
    and "jq_heap q1 = js_set i job (jq_heap p)" "map_of (jq_heap p) = (map_of (jq_heap q))(i := x)"
    and "jq_live q1 = jq_live q" "jq_running q1 = jq_running q + 1"
  shows "segments e q1 (rs @ [i]) ws"
proof -
  have "i \<notin> set rs" "i \<notin> set ws" using assms(1) by (auto simp: segments_def)
  then show ?thesis
    using assms by (auto simp: segments_def job_at_def at_cap_def split: option.splits)
qed

lemma start_job_segments:
  assumes seg: "segments e q rs (i # ws)" and cap: "\<not> at_cap e q"
    and job: "map_of (jq_heap q) i = Some job" "j_id job = i"
  shows "segments e (snd (start_job e job q)) rs ws \<or> segments e (snd (start_job e job q)) (rs @ [i]) ws"
proof (cases "je_spawn e (jq_ticks q) (request_of job)")
  case (Spawned sid)
  have "segments e (snd (start_job e job q)) (rs @ [i]) ws"
    by (rule segments_move_head [OF seg cap, where p = "store_job (job\<lparr>j_state := Running, j_startedAt := Some (je_now e (jq_ticks q))\<rparr>) q"])
      (simp_all add: start_job_def Spawned store_job_def job Let_def)
  then show ?thesis ..
next
  case (Spawn_threw msg)
  have "segments e (snd (start_job e job q)) rs ws"
    by (rule segments_drop_head [OF seg, where s = Failed and p = "store_job (job\<lparr>j_state := Running, j_startedAt := Some (je_now e (jq_ticks q))\<rparr>) q"])
      (simp_all add: start_job_def Spawn_threw store_job_def job Let_def split_beta finish_job_fields live_state_def)
  then show ?thesis ..
next
  case (Setup_threw sid msg)
  let ?j = "job\<lparr>j_state := Running, j_startedAt := Some (je_now e (jq_ticks q))\<rparr>"
  have "segments e (snd (start_job e job q)) rs ws"
    by (rule segments_drop_head [OF seg, where s = Failed and p = "store_job (?j\<lparr>j_sessionId := Some sid\<rparr>) (store_job ?j q)"])
      (simp_all add: start_job_def Setup_threw store_job_def job Let_def split_beta finish_job_fields live_state_def)
  then show ?thesis ..
qed

definition never_throws :: "job_env \<Rightarrow> bool" where
  "never_throws e \<longleftrightarrow> (\<forall>n cwd. \<exists>r. je_check e n cwd = Inr r)"

lemma tryStart_head:
  assumes seg: "segments e q rs (i # ws)" and cap: "\<not> at_cap e q" and ok: "never_throws e"
  shows "fst (tryStart e i q) = None
    \<and> (segments e (snd (snd (tryStart e i q))) rs ws \<or> segments e (snd (snd (tryStart e i q))) (rs @ [i]) ws)"
proof -
  from seg obtain job where job: "map_of (jq_heap q) i = Some job" "j_id job = i" "j_state job = Queued"
    by (auto simp: segments_def job_at_def)
  from ok obtain r where r: "je_check e (jq_ticks q) (j_cwd job) = Inr r" by (auto simp: never_throws_def)
  show ?thesis
  proof (cases r)
    case Margin_ok
    then show ?thesis using start_job_segments [of e "tick q" rs i ws job] seg cap job r
      by (simp add: tryStart_def)
  next
    case (Margin_refused reason)
    have "segments e (snd (snd (tryStart e i q))) rs ws"
      by (rule segments_drop_head [OF seg, where s = Failed and p = q and x = "Some job"])
        (use Margin_refused r job cap in \<open>simp_all add: tryStart_def finish_job_fields live_state_def fun_upd_idem\<close>)
    with Margin_refused r job cap show ?thesis by (simp add: tryStart_def)
  qed
qed

definition queue_ok :: "job_env \<Rightarrow> JobQueue \<Rightarrow> bool" where
  "queue_ok e q \<longleftrightarrow> (\<exists>rs ws. segments e q rs ws \<and> (ws \<noteq> [] \<longrightarrow> at_cap e q))"

lemma pump_loop_queued:
  "segments e q rs ws \<Longrightarrow> never_throws e \<Longrightarrow>
     fst (pump_loop e ws q) = None \<and> queue_ok e (snd (snd (pump_loop e ws q)))"
proof (induction ws arbitrary: q rs)
  case (Cons i ws)
  show ?case
  proof (cases "at_cap e q")
    case False
    have queued: "map_option j_state (map_of (jq_heap q) i) = Some Queued"
      using Cons.prems(1) by (auto simp: segments_def job_at_def)
    from tryStart_head [OF Cons.prems(1) False Cons.prems(2)]
    obtain rs' where "fst (tryStart e i q) = None" "segments e (snd (snd (tryStart e i q))) rs' ws" by blast
    with Cons.IH [OF _ Cons.prems(2)] False queued show ?thesis
      by (cases "tryStart e i q") (auto simp: split_beta Let_def)
  qed (use Cons.prems in \<open>auto simp: queue_ok_def\<close>)
qed (auto simp: queue_ok_def)

lemma pump_loop_skip:
  "\<forall>i \<in> set rs. job_at q i Running \<Longrightarrow> \<not> at_cap e q \<Longrightarrow> pump_loop e (rs @ ws) q = pump_loop e ws q"
  by (induction rs) (auto simp: job_at_def)

lemma pumpQueue_ok:
  assumes "segments e q rs ws" "never_throws e"
  shows "fst (pumpQueue e q) = None \<and> queue_ok e (snd (snd (pumpQueue e q)))"
proof (cases "at_cap e q")
  case True
  then have "pumpQueue e q = (None, [], q)" by (cases "jq_live q") (simp_all add: pumpQueue_def)
  with True assms show ?thesis by (auto simp: queue_ok_def)
next
  case False
  have "pumpQueue e q = pump_loop e ws q"
    using assms(1) False by (simp add: pumpQueue_def segments_def pump_loop_skip)
  with pump_loop_queued [OF assms] show ?thesis by simp
qed

lemma segments_exit:
  assumes "segments e q rs ws" "i \<in> set rs" "map_of (jq_heap q) i = Some job" "\<not> live_state s"
  shows "segments e (snd (finish_job job s err now (tick (q\<lparr>jq_running := jq_running q - 1\<rparr>)))) (remove1 i rs) ws"
proof -
  have d: "distinct (rs @ ws)" "i \<notin> set ws" "j_id job = i" using assms by (auto simp: segments_def job_at_def)
  then have "set_delete i rs = remove1 i rs" by (simp add: set_delete_def distinct_remove1_removeAll removeAll_filter_not_eq) metis
  moreover have "set (remove1 i rs) = set rs - {i}" "distinct (remove1 i rs)" using d by simp_all
  moreover have "length rs = Suc (length (remove1 i rs))"
    using assms(2) by (metis One_nat_def Suc_pred length_pos_if_in_set length_remove1)
  ultimately show ?thesis
    using assms d
    by (auto simp: segments_def job_at_def finish_job_fields set_delete_absent split: option.splits)
qed

lemma segments_running:
  assumes "segments e q rs ws" "map_of (jq_heap q) i = Some job" "j_state job = Running"
  shows "i \<in> set rs"
proof (rule ccontr)
  assume "i \<notin> set rs"
  moreover have "i \<notin> set ws" using assms by (force simp: segments_def job_at_def)
  ultimately show False using assms by (simp add: segments_def live_state_def)
qed

lemma job_exit_ok:
  assumes "queue_ok e q" "never_throws e" "job_at q i Running"
  shows "fst (job_exit e i code err q) = None \<and> queue_ok e (snd (snd (job_exit e i code err q)))"
proof -
  from assms(1) obtain rs ws where seg: "segments e q rs ws" by (auto simp: queue_ok_def)
  from assms(3) obtain job where job: "map_of (jq_heap q) i = Some job" "j_state job = Running"
    by (auto simp: job_at_def)
  have "i \<in> set rs" using segments_running [OF seg job] .
  then have "segments e (snd (finish_job job (if code = Some 0 then Done else Failed) (exit_error code err job)
      (je_now e (jq_ticks q)) (tick (q\<lparr>jq_running := jq_running q - 1\<rparr>)))) (remove1 i rs) ws"
    by (rule segments_exit [OF seg _ job(1)]) (simp add: live_state_def)
  from pumpQueue_ok [OF this assms(2)] show ?thesis
    by (simp add: job_exit_def job split_beta Let_def)
qed

lemma segments_add:
  assumes "segments e q rs ws" "map_of (jq_heap q) i = None"
  shows "segments e ((store_job (new_job i req who now) (tick q))\<lparr>jq_live := set_add i (jq_live q)\<rparr>) rs (ws @ [i])"
proof -
  have "i \<notin> set (rs @ ws)" using assms by (auto simp: segments_def job_at_def)
  then show ?thesis
    using assms by (auto simp: segments_def job_at_def store_job_def new_job_def set_add_def)
qed

lemma enqueue_ok:
  assumes "queue_ok e q" "never_throws e" "map_of (jq_heap q) i = None"
  shows "queue_ok e (snd (snd (enqueue e i req who q)))
    \<and> (\<exists>job. fst (enqueue e i req who q) = Inr job)"
proof -
  from assms(1) obtain rs ws where seg: "segments e q rs ws" and cons: "ws \<noteq> [] \<longrightarrow> at_cap e q"
    by (auto simp: queue_ok_def)
  from assms(2) obtain r where r: "je_check e (jq_ticks q) (sr_cwd req) = Inr r" by (auto simp: never_throws_def)
  show ?thesis
  proof (cases r)
    case Margin_ok
    let ?q = "(store_job (new_job i req who (je_now e (jq_ticks q))) (tick q))\<lparr>jq_live := set_add i (jq_live q)\<rparr>"
    note new = segments_add [OF seg assms(3), of req who "je_now e (jq_ticks q)"]
    have capq: "at_cap e ?q = at_cap e q"
      by (simp add: at_cap_def store_job_def split: option.split)
    have "fst (tryStart e i ?q) = None \<and> queue_ok e (snd (snd (tryStart e i ?q)))"
    proof (cases "at_cap e q")
      case True
      then have "tryStart e i ?q = (None, [], ?q)" using capq by (simp add: tryStart_def split: option.split)
      with True new capq show ?thesis by (auto simp: queue_ok_def)
    next
      case False
      with cons new have "segments e ?q rs [i]" by simp
      from tryStart_head [OF this _ assms(2)] False capq show ?thesis by (auto simp: queue_ok_def)
    qed
    with Margin_ok r show ?thesis by (simp add: enqueue_def Let_def split_beta)
  next
    case (Margin_refused reason)
    have "segments e (snd (snd (enqueue e i req who q))) rs ws"
      using seg assms(3) by (auto simp: enqueue_def r Margin_refused Let_def segments_def job_at_def
          store_job_def new_job_def live_state_def)
    moreover have "at_cap e (snd (snd (enqueue e i req who q))) = at_cap e q"
      by (simp add: enqueue_def r Margin_refused Let_def at_cap_def store_job_def split: option.split)
    ultimately show ?thesis using cons by (auto simp: queue_ok_def enqueue_def r Margin_refused Let_def)
  qed
qed

section \<open>The durable mirror\<close>

text \<open>The effects on the store, in order. An insert that violates the key would throw; ids are fresh.\<close>

fun store_effect :: "job_effect \<Rightarrow> Db \<Rightarrow> Db" where
  "store_effect (Insert_job j) db = (case insertJob j db of None \<Rightarrow> db | Some db1 \<Rightarrow> db1)"
| "store_effect (Update_state i p) db = updateJobState i p db"
| "store_effect _ db = db"

definition store_effects :: "job_effect list \<Rightarrow> Db \<Rightarrow> Db" where
  "store_effects es db = fold store_effect es db"

lemma store_effects_simps [simp]:
  "store_effects [] db = db"
  "store_effects (x # es) db = store_effects es (store_effect x db)"
  "store_effects (es @ fs) db = store_effects fs (store_effects es db)"
  by (simp_all add: store_effects_def)

definition find_row :: "string \<Rightarrow> Db \<Rightarrow> JobRow option" where
  "find_row i db = find (\<lambda>r. jr_id r = i) (db_jobs db)"

lemma find_row_update [simp]:
  "find_row k (updateJobState i p db) = (if k = i then map_option (patch_row p) (find_row k db) else find_row k db)"
proof -
  have "find (\<lambda>r. jr_id r = k) (update_where (\<lambda>r. jr_id r = i) (patch_row p) rows) =
      (if k = i then map_option (patch_row p) (find (\<lambda>r. jr_id r = k) rows) else find (\<lambda>r. jr_id r = k) rows)" for rows
    by (induction rows) (auto simp: update_where_def)
  then show ?thesis by (simp add: find_row_def updateJobState_def)
qed

lemma find_row_insert:
  assumes "find_row (j_id j) db = None"
  shows "find_row k (store_effect (Insert_job j) db) = (if k = j_id j then Some (job_row j) else find_row k db)"
proof -
  have "\<not> (\<exists>r \<in> set (db_jobs db). jr_id r = j_id j)"
    using assms by (auto simp: find_row_def find_None_iff)
  moreover have "find P (rows @ [r]) = (case find P rows of None \<Rightarrow> if P r then Some r else None | x \<Rightarrow> x)"
    for P and rows :: "JobRow list" and r by (induction rows) auto
  ultimately show ?thesis
    using assms by (auto simp: find_row_def insertJob_def job_row_def split: option.split)
qed

definition mirrors :: "JobQueue \<Rightarrow> Db \<Rightarrow> bool" where
  "mirrors q db \<longleftrightarrow> (\<forall>k job. map_of (jq_heap q) k = Some job \<longrightarrow> find_row k db = Some (job_row job))"

lemma mirrorsD: "mirrors q db \<Longrightarrow> map_of (jq_heap q) k = Some job \<Longrightarrow> find_row k db = Some (job_row job)"
  by (simp add: mirrors_def)

lemma coalesce_simps [simp]: "coalesce None b = b" "coalesce (Some a) b = Some a" "coalesce x x = x"
  by (simp_all add: coalesce_def split: option.split)

lemma finish_job_mirrors:
  assumes "mirrors q db" "map_of (jq_heap q) (j_id job) = Some job" "j_error job = None \<or> j_error job = err"
  shows "mirrors (snd (finish_job job s err now q)) (store_effects (fst (finish_job job s err now q)) db)"
  using assms unfolding mirrors_def finish_job_fields
  by (auto simp: finish_job_def Let_def patch_row_def no_patch_def job_row_def coalesce_def split: option.split)

text \<open>Every object is stored under its own id, and only a terminal one carries an error.\<close>

definition heap_ok :: "JobQueue \<Rightarrow> bool" where
  "heap_ok q \<longleftrightarrow> (\<forall>i job. map_of (jq_heap q) i = Some job \<longrightarrow>
     j_id job = i \<and> (live_state (j_state job) \<longrightarrow> j_error job = None))"

lemma heap_okD:
  "heap_ok q \<Longrightarrow> map_of (jq_heap q) i = Some job \<Longrightarrow> j_id job = i"
  "heap_ok q \<Longrightarrow> map_of (jq_heap q) i = Some job \<Longrightarrow> live_state (j_state job) \<Longrightarrow> j_error job = None"
  by (auto simp: heap_ok_def)

lemma heap_ok_store:
  "heap_ok q \<Longrightarrow> (live_state (j_state job) \<longrightarrow> j_error job = None) \<Longrightarrow>
     jq_heap q1 = js_set (j_id job) job (jq_heap q) \<Longrightarrow> heap_ok q1"
  by (auto simp: heap_ok_def)

lemma mirrors_tick [simp]: "mirrors (tick q) db = mirrors q db" "heap_ok (tick q) = heap_ok q"
  by (simp_all add: mirrors_def heap_ok_def)

lemma mirrors_running [simp]:
  "mirrors (q\<lparr>jq_running := n\<rparr>) db = mirrors q db" "heap_ok (q\<lparr>jq_running := n\<rparr>) = heap_ok q"
  by (simp_all add: mirrors_def heap_ok_def)

lemma store_job_run:
  "mirrors (store_job j (tick (q\<lparr>jq_running := n\<rparr>))) db = mirrors (store_job j q) db"
  "heap_ok (store_job j (tick (q\<lparr>jq_running := n\<rparr>))) = heap_ok (store_job j q)"
  by (simp_all add: mirrors_def heap_ok_def store_job_def)

lemma mirrors_patch:
  assumes "mirrors q db" "map_of (jq_heap q) (j_id job) = Some job" "j_id job1 = j_id job"
    and "patch_row p (job_row job) = job_row job1"
  shows "mirrors (store_job job1 q) (updateJobState (j_id job) p db)"
  using assms by (auto simp: mirrors_def store_job_def)

lemma finish_job_both:
  assumes "mirrors q db" "heap_ok q" "map_of (jq_heap q) (j_id job) = Some job"
    and "\<not> live_state s" "j_error job = None \<or> j_error job = err"
  shows "mirrors (snd (finish_job job s err now q)) (store_effects (fst (finish_job job s err now q)) db)
    \<and> heap_ok (snd (finish_job job s err now q))"
  using finish_job_mirrors [OF assms(1,3,5)] assms(4)
  by (auto intro!: heap_ok_store [OF assms(2), of "job\<lparr>j_state := s, j_error := err, j_finishedAt := Some now\<rparr>"]
      simp: finish_job_fields)

lemma start_job_both:
  assumes m: "mirrors q db" "heap_ok q" and job: "map_of (jq_heap q) (j_id job) = Some job" "j_error job = None"
  shows "mirrors (snd (start_job e job q)) (store_effects (fst (start_job e job q)) db)
    \<and> heap_ok (snd (start_job e job q))"
proof -
  define now where "now = je_now e (jq_ticks q)"
  define j1 where "j1 = job\<lparr>j_state := Running, j_startedAt := Some now\<rparr>"
  define db1 where "db1 = updateJobState (j_id job) (no_patch Running\<lparr>jp_startedAt := Some now\<rparr>) db"
  have m1: "mirrors (store_job j1 q) db1"
    unfolding db1_def by (rule mirrors_patch [OF m(1) job(1)]) (simp_all add: j1_def patch_row_def no_patch_def job_row_def)
  have h1: "heap_ok (store_job j1 q)"
    by (rule heap_ok_store [OF m(2), of j1]) (simp_all add: j1_def job store_job_def)
  have l1: "map_of (jq_heap (store_job j1 q)) (j_id j1) = Some j1" by (simp add: store_job_def)
  have m2: "mirrors (store_job (j1\<lparr>j_sessionId := Some sid\<rparr>) (store_job j1 q))
        (updateJobState (j_id job) (no_patch Running\<lparr>jp_sessionId := Some sid\<rparr>) db1)
      \<and> heap_ok (store_job (j1\<lparr>j_sessionId := Some sid\<rparr>) (store_job j1 q))" for sid
  proof
    have "mirrors (store_job (j1\<lparr>j_sessionId := Some sid\<rparr>) (store_job j1 q))
        (updateJobState (j_id j1) (no_patch Running\<lparr>jp_sessionId := Some sid\<rparr>) db1)"
      by (rule mirrors_patch [OF m1 l1]) (simp_all add: j1_def patch_row_def no_patch_def job_row_def)
    then show "mirrors (store_job (j1\<lparr>j_sessionId := Some sid\<rparr>) (store_job j1 q))
        (updateJobState (j_id job) (no_patch Running\<lparr>jp_sessionId := Some sid\<rparr>) db1)" by (simp add: j1_def)
    show "heap_ok (store_job (j1\<lparr>j_sessionId := Some sid\<rparr>) (store_job j1 q))"
      by (rule heap_ok_store [OF h1, of "j1\<lparr>j_sessionId := Some sid\<rparr>"]) (simp_all add: j1_def job store_job_def)
  qed
  show ?thesis
  proof (cases "je_spawn e (jq_ticks q) (request_of job)")
    case (Spawned sid)
    then show ?thesis using m2 [of sid]
      by (simp add: start_job_def Let_def now_def [symmetric] j1_def [symmetric] db1_def [symmetric] store_job_run)
  next
    case (Spawn_threw msg)
    let ?q = "(tick ((store_job j1 q)\<lparr>jq_running := jq_running q + 1\<rparr>))\<lparr>jq_running := jq_running q\<rparr>"
    have "mirrors ?q db1" "heap_ok ?q" "map_of (jq_heap ?q) (j_id j1) = Some j1" using m1 h1 l1 by simp_all
    from finish_job_both [OF this, of Failed] Spawn_threw show ?thesis
      by (simp add: start_job_def Let_def now_def [symmetric] j1_def [symmetric] db1_def [symmetric]
          split_beta live_state_def) (simp add: j1_def job)
  next
    case (Setup_threw sid msg)
    let ?j = "j1\<lparr>j_sessionId := Some sid\<rparr>"
    let ?q = "(store_job ?j (tick ((store_job j1 q)\<lparr>jq_running := jq_running q + 1\<rparr>)))\<lparr>jq_running := jq_running q\<rparr>"
    have "mirrors ?q (updateJobState (j_id job) (no_patch Running\<lparr>jp_sessionId := Some sid\<rparr>) db1)"
      "heap_ok ?q" "map_of (jq_heap ?q) (j_id ?j) = Some ?j"
      using m2 [of sid] by (simp_all add: store_job_run) (simp add: store_job_def)
    from finish_job_both [OF this, of Failed] Setup_threw show ?thesis
      by (simp add: start_job_def Let_def now_def [symmetric] j1_def [symmetric] db1_def [symmetric]
          split_beta live_state_def) (simp add: j1_def job)
  qed
qed

lemma tryStart_both:
  assumes "mirrors q db" "heap_ok q"
  shows "mirrors (snd (snd (tryStart e i q))) (store_effects (fst (snd (tryStart e i q))) db)
    \<and> heap_ok (snd (snd (tryStart e i q)))"
proof (cases "map_of (jq_heap q) i")
  case (Some job)
  show ?thesis
  proof (cases "j_state job \<noteq> Queued \<or> at_cap e q")
    case False
    then have job: "map_of (jq_heap (tick q)) (j_id job) = Some job" "j_error job = None"
      using heap_okD [OF assms(2) Some] Some by (simp_all add: live_state_def)
    have t: "mirrors (tick q) db" "heap_ok (tick q)" using assms by simp_all
    show ?thesis
      using False Some t start_job_both [OF t job] finish_job_both [OF t job(1), of Failed] job(2)
      by (auto simp: tryStart_def live_state_def split: sum.split MarginResult.split)
  qed (use Some assms in \<open>simp add: tryStart_def\<close>)
qed (use assms in \<open>simp add: tryStart_def\<close>)

lemma pump_loop_both:
  "mirrors q db \<Longrightarrow> heap_ok q \<Longrightarrow>
     mirrors (snd (snd (pump_loop e is q))) (store_effects (fst (snd (pump_loop e is q))) db)
     \<and> heap_ok (snd (snd (pump_loop e is q)))"
proof (induction "is" arbitrary: q db)
  case (Cons i "is")
  obtain r es q1 where t: "tryStart e i q = (r, es, q1)" by (metis prod_cases3)
  then have "mirrors q1 (store_effects es db)" "heap_ok q1" using tryStart_both [OF Cons.prems, of e i] by simp_all
  with Cons.IH [of q1 "store_effects es db"] Cons.IH [OF Cons.prems] Cons.prems t show ?case
    by (auto simp: split_beta Let_def split: option.split)
qed simp

lemma job_exit_both:
  assumes "mirrors q db" "heap_ok q" "job_at q i Running"
  shows "mirrors (snd (snd (job_exit e i code err q))) (store_effects (fst (snd (job_exit e i code err q))) db)
    \<and> heap_ok (snd (snd (job_exit e i code err q)))"
proof -
  from assms(3) obtain job where job: "map_of (jq_heap q) i = Some job" "j_id job = i" "j_state job = Running"
    by (auto simp: job_at_def)
  let ?q = "tick (q\<lparr>jq_running := jq_running q - 1\<rparr>)"
  let ?f = "finish_job job (if code = Some 0 then Done else Failed) (exit_error code err job) (je_now e (jq_ticks q)) ?q"
  have "mirrors (snd ?f) (store_effects (fst ?f) db) \<and> heap_ok (snd ?f)"
    by (rule finish_job_both)
      (use assms job heap_okD(2) [OF assms(2) job(1)] in \<open>simp_all add: live_state_def exit_error_def\<close>)
  from pump_loop_both [OF this [THEN conjunct1] this [THEN conjunct2]] show ?thesis
    by (simp add: job_exit_def job split_beta Let_def pumpQueue_def)
qed

lemma enqueue_both:
  assumes "mirrors q db" "heap_ok q" "map_of (jq_heap q) i = None" "find_row i db = None"
  shows "mirrors (snd (snd (enqueue e i req who q))) (store_effects (fst (snd (enqueue e i req who q))) db)
    \<and> heap_ok (snd (snd (enqueue e i req who q)))"
proof -
  have new: "mirrors q1 (store_effect (Insert_job j) db) \<and> heap_ok q1"
    if "j_id j = i" "live_state (j_state j) \<longrightarrow> j_error j = None" "jq_heap q1 = js_set i j (jq_heap q)" for q1 j
    using assms that by (auto simp: mirrors_def heap_ok_def find_row_insert simp del: store_effect.simps)
  show ?thesis
  proof (cases "je_check e (jq_ticks q) (sr_cwd req)")
    case (Inl err)
    then show ?thesis using assms by (simp add: enqueue_def Let_def)
  next
    case (Inr r)
    show ?thesis
    proof (cases r)
      case Margin_ok
      let ?j = "new_job i req who (je_now e (jq_ticks q))"
      let ?q = "(store_job ?j (tick q))\<lparr>jq_live := set_add i (jq_live q)\<rparr>"
      have "mirrors ?q (store_effect (Insert_job ?j) db) \<and> heap_ok ?q"
        by (rule new [of ?j]) (simp_all add: new_job_def store_job_def)
      from tryStart_both [OF this [THEN conjunct1] this [THEN conjunct2], of e i] Inr Margin_ok show ?thesis
        by (simp add: enqueue_def Let_def split_beta del: store_effect.simps(1))
    next
      case (Margin_refused reason)
      let ?j = "(new_job i req who (je_now e (jq_ticks q)))\<lparr>j_state := Failed,
          j_error := Some (Refusing_to_spawn reason), j_finishedAt := Some (je_now e (jq_ticks q))\<rparr>"
      have "mirrors (store_job ?j (tick q)) (store_effect (Insert_job ?j) db) \<and> heap_ok (store_job ?j (tick q))"
        by (rule new [of ?j]) (simp_all add: new_job_def store_job_def live_state_def)
      with Inr Margin_refused show ?thesis
        by (simp add: enqueue_def Let_def del: store_effect.simps(1))
    qed
  qed
qed

section \<open>Reachable queues\<close>

text \<open>
  A request arrives with a fresh id, or the session of a running job exits; the store starts
  with whatever earlier processes left in it.
\<close>

inductive job_reach :: "job_env \<Rightarrow> JobQueue \<Rightarrow> Db \<Rightarrow> bool" for e where
  reach_init: "job_reach e new_queue db"
| reach_enqueue: "job_reach e q db \<Longrightarrow> map_of (jq_heap q) i = None \<Longrightarrow> find_row i db = None \<Longrightarrow>
    enqueue e i req who q = (r, es, q1) \<Longrightarrow> job_reach e q1 (store_effects es db)"
| reach_exit: "job_reach e q db \<Longrightarrow> job_at q i Running \<Longrightarrow>
    job_exit e i code err q = (r, es, q1) \<Longrightarrow> job_reach e q1 (store_effects es db)"

lemma reach_queue_ok: "job_reach e q db \<Longrightarrow> never_throws e \<Longrightarrow> queue_ok e q"
proof (induction rule: job_reach.induct)
  case (reach_init db)
  have "segments e new_queue [] []" by (simp add: segments_def new_queue_def split: option.split)
  then show ?case by (auto simp: queue_ok_def)
next
  case (reach_enqueue q db i req who r es q1)
  with enqueue_ok [of e q i req who] show ?case by simp
next
  case (reach_exit q db i code err r es q1)
  with job_exit_ok [of e q i code err] show ?case by simp
qed

lemma reach_mirrors: "job_reach e q db \<Longrightarrow> mirrors q db \<and> heap_ok q"
proof (induction rule: job_reach.induct)
  case (reach_init db)
  then show ?case by (simp add: mirrors_def heap_ok_def new_queue_def)
next
  case (reach_enqueue q db i req who r es q1)
  with enqueue_both [of q db i e req who] show ?case by simp
next
  case (reach_exit q db i code err r es q1)
  with job_exit_both [of q db i e code err] show ?case by simp
qed

section \<open>A concrete environment\<close>

definition example_env :: job_env where
  "example_env = \<lparr>je_max = Some 1, je_check = (\<lambda>_ _. Inr Margin_ok),
     je_spawn = (\<lambda>n _. Spawned (decimal n)), je_now = int\<rparr>"

definition example_request :: SpawnRequest where
  "example_request = \<lparr>sr_cwd = ''/p'', sr_label = None, sr_disallowedTools = None, sr_model = None,
     sr_permissionMode = None, sr_effort = None\<rparr>"

lemmas job_eval = enqueue_def tryStart_def start_job_def new_job_def job_exit_def finish_job_def
  exit_error_def pumpQueue_def at_cap_def request_of_def job_q_defs no_patch_def new_queue_def
  example_env_def example_request_def js_set_def set_add_def set_delete_def Let_def

text \<open>Two requests under a cap of one: the first runs, the second waits.\<close>

definition example_queue :: JobQueue where
  "example_queue = snd (snd (enqueue example_env ''b'' example_request ''dev''
     (snd (snd (enqueue example_env ''a'' example_request ''dev'' new_queue)))))"

lemma example_states: "map j_state (job_list example_queue) = [Running, Queued]"
  by (simp add: example_queue_def job_eval job_list_def)

lemma reach_enqueue_result:
  "job_reach e q db \<Longrightarrow> map_of (jq_heap q) i = None \<Longrightarrow> find_row i db = None \<Longrightarrow>
     job_reach e (snd (snd (enqueue e i req who q))) (store_effects (fst (snd (enqueue e i req who q))) db)"
  using reach_enqueue [of e q db i req who "fst (enqueue e i req who q)"] by simp

lemma example_reach: "\<exists>db. job_reach example_env example_queue db"
  unfolding example_queue_def
  by (intro exI, rule reach_enqueue_result, rule reach_enqueue_result, rule reach_init [of _ empty_db])
    (simp_all add: job_eval find_row_def empty_db_def insertJob_def updateJobState_def update_where_def
      job_row_def patch_row_def)

section \<open>Properties\<close>

text \<open>
  C12: The queue is first-in first-out, respects its cap, and never idles. As long as the
  margin check does not throw, in every reachable state the live jobs in the order of arrival
  are some running ones followed by queued ones only; the counter is the number of running
  ones and never exceeds the cap; and a job waits only while the cap is reached. In
  particular the two paths that fail a job without pumping the queue strand nothing.
\<close>

theorem job_queue_work_conserving:
  assumes "job_reach e q db" "never_throws e"
  shows "\<exists>r w. map j_state (job_list q) = replicate r Running @ replicate w Queued
    \<and> jq_running q = int r
    \<and> (case je_max e of None \<Rightarrow> w = 0 | Some m \<Rightarrow> r \<le> m \<and> (w = 0 \<or> r = m))"
proof -
  from reach_queue_ok [OF assms] obtain rs ws where seg: "segments e q rs ws" and ws: "ws \<noteq> [] \<longrightarrow> at_cap e q"
    by (auto simp: queue_ok_def)
  have "map (\<lambda>i. j_state (the (map_of (jq_heap q) i))) is = replicate (length is) s"
    if "\<forall>i \<in> set is. job_at q i s" for "is" s
    using that by (induction "is") (auto simp: job_at_def)
  then have "map j_state (job_list q) = replicate (length rs) Running @ replicate (length ws) Queued"
    using seg by (simp add: job_list_def segments_def o_def)
  then show ?thesis
    using seg ws by (intro exI [of _ "length rs"] exI [of _ "length ws"])
      (auto simp: segments_def at_cap_def split: option.splits)
qed

theorem job_queue_work_conserving_witness:
  "\<exists>r w. map j_state (job_list example_queue) = replicate r Running @ replicate w Queued
    \<and> jq_running example_queue = int r
    \<and> (case je_max example_env of None \<Rightarrow> w = 0 | Some m \<Rightarrow> r \<le> m \<and> (w = 0 \<or> r = m))"
proof -
  obtain db where "job_reach example_env example_queue db" using example_reach by blast
  then show ?thesis
    by (rule job_queue_work_conserving) (simp add: never_throws_def example_env_def)
qed

text \<open>
  C33: The durable row of a job never lags behind the job. In every reachable state, for every
  job this process has created, live or finished, the row in the store is exactly the job's
  current state, session, error and times; this also holds when checks, spawns or the session
  set-up throw. So the snapshot a reconnecting client gets from the store is the truth.
\<close>

theorem job_rows_mirror_jobs:
  assumes "job_reach e q db" "map_of (jq_heap q) i = Some job"
  shows "find_row i db = Some (job_row job)"
  using reach_mirrors [OF assms(1)] assms(2) by (auto intro: mirrorsD)

theorem job_rows_mirror_jobs_witness:
  "\<exists>db job. map_of (jq_heap example_queue) ''a'' = Some job \<and> find_row ''a'' db = Some (job_row job)"
proof -
  obtain db where db: "job_reach example_env example_queue db" using example_reach by blast
  have "map_of (jq_heap example_queue) ''a'' \<noteq> None" by (simp add: example_queue_def job_eval)
  then obtain job where "map_of (jq_heap example_queue) ''a'' = Some job" by blast
  with job_rows_mirror_jobs [OF db this] show ?thesis by blast
qed

text \<open>
  The job part of a snapshot. If neither list repeats an id, the merge lists every live
  job first, in order and with its live contents, then exactly the durable jobs that are not
  live, and no id twice.
\<close>

theorem snapshot_jobs_merge:
  assumes "distinct (map j_id live)" "distinct (map j_id durable)"
  shows "distinct (map j_id (mergeSnapshotJobs live durable))
    \<and> set (map j_id (mergeSnapshotJobs live durable)) = set (map j_id live) \<union> set (map j_id durable)
    \<and> prefix live (mergeSnapshotJobs live durable)
    \<and> map_of (map (\<lambda>j. (j_id j, j)) (mergeSnapshotJobs live durable)) =
        map_of (map (\<lambda>j. (j_id j, j)) durable) ++ map_of (map (\<lambda>j. (j_id j, j)) live)"
proof -
  have ids: "map j_id (filter (\<lambda>j. j_id j \<notin> A) js) = filter (\<lambda>i. i \<notin> A) (map j_id js)" for A and js :: "JobInfo list"
    by (induction js) auto
  have look: "map_of (map (\<lambda>j. (j_id j, j)) (filter (\<lambda>j. j_id j \<notin> A) js)) k =
      (if k \<in> A then None else map_of (map (\<lambda>j. (j_id j, j)) js) k)" for A k and js :: "JobInfo list"
    by (induction js) auto
  have none: "map_of (map (\<lambda>j. (j_id j, j)) js) k = None \<longleftrightarrow> k \<notin> set (map j_id js)" for k and js :: "JobInfo list"
    by (induction js) auto
  have "map_of (map (\<lambda>j. (j_id j, j)) (mergeSnapshotJobs live durable)) k =
      (map_of (map (\<lambda>j. (j_id j, j)) durable) ++ map_of (map (\<lambda>j. (j_id j, j)) live)) k" for k
    using none [of live k] by (auto simp: mergeSnapshotJobs_def map_add_def look split: option.split)
  moreover have "distinct (map j_id (mergeSnapshotJobs live durable))"
    using assms by (auto simp: mergeSnapshotJobs_def ids)
  moreover have "set (map j_id (mergeSnapshotJobs live durable)) = set (map j_id live) \<union> set (map j_id durable)"
    unfolding mergeSnapshotJobs_def map_append set_append ids by auto
  ultimately show ?thesis by (auto simp: mergeSnapshotJobs_def)
qed

theorem snapshot_jobs_merge_witness:
  "let a = new_job ''a'' example_request ''d'' 1; b = new_job ''b'' example_request ''d'' 2
   in distinct (map j_id (mergeSnapshotJobs [a\<lparr>j_state := Running\<rparr>] [a, b]))"
  using snapshot_jobs_merge [of "[(new_job ''a'' example_request ''d'' 1)\<lparr>j_state := Running\<rparr>]"
      "[new_job ''a'' example_request ''d'' 1, new_job ''b'' example_request ''d'' 2]"]
  by (simp add: new_job_def Let_def)

text \<open>
  A failure while wiring a spawned session leaves the process running outside the cap.
  When \<^verbatim>\<open>onSession\<close> throws after the session was created, the job is failed and its slot is
  released although the session exists, so under a cap of one the next request spawns a
  second process.
\<close>

theorem setup_failure_frees_slot:
  "let e = example_env\<lparr>je_spawn := (\<lambda>n _. if n = 2 then Setup_threw ''s1'' ''disk full'' else Spawned ''s2'')\<rparr>;
       (r1, es1, q1) = enqueue e ''a'' example_request ''dev'' new_queue;
       (r2, es2, q2) = enqueue e ''b'' example_request ''dev'' q1
   in On_session ''a'' ''s1'' \<in> set es1 \<and> jq_running q1 = 0
      \<and> On_session ''b'' ''s2'' \<in> set es2 \<and> jq_running q2 = 1"
  by (simp add: job_eval split_beta)

end
