(* ===== verification/Framing.thy ===== *)
theory Framing
  imports Prelude
begin

text \<open>
  Newline framing, the loop that every stream handler of the program runs
  (\<^verbatim>\<open>infrastructure/session.ts\<close>, \<^verbatim>\<open>interface/hookBridge.ts\<close>, \<^verbatim>\<open>interface/clientConnection.ts\<close>):
  append the chunk to the buffer, then cut off one line at a time while there is a newline.
  A chunk is text already decoded by \<^verbatim>\<open>chunk.toString('utf8')\<close>.
\<close>

abbreviation newline :: char where "newline \<equiv> CHR 0x0A"

text \<open>\<^verbatim>\<open>while ((i = buf.indexOf('\n')) >= 0) { line = buf.slice(0, i); buf = buf.slice(i + 1); ... }\<close>\<close>

function line_loop :: "string \<Rightarrow> string list \<times> string" where
  "line_loop buf =
     (if newline \<in> set buf
      then let line = takeWhile (\<lambda>c. c \<noteq> newline) buf;
               (ls, rest) = line_loop (drop (Suc (length line)) buf)
           in (line # ls, rest)
      else ([], buf))"
  by pat_completeness auto
termination
  by (relation "measure length") (auto intro!: diff_less dest: length_pos_if_in_set)

declare line_loop.simps [simp del]

definition feed_line :: "string \<Rightarrow> string \<Rightarrow> string list \<times> string" where
  "feed_line buf chunk = line_loop (buf @ chunk)"

text \<open>\<^verbatim>\<open>!line.trim()\<close>\<close>

definition js_space :: "char \<Rightarrow> bool" where
  "js_space c \<longleftrightarrow> c \<in> {CHR 0x09, CHR 0x0A, CHR 0x0B, CHR 0x0C, CHR 0x0D, CHR 0x20, CHR 0xA0}"

definition blank :: "string \<Rightarrow> bool" where
  "blank line \<longleftrightarrow> list_all js_space line"

section \<open>Laws\<close>

lemma line_loop_nil [simp]: "newline \<notin> set buf \<Longrightarrow> line_loop buf = ([], buf)"
  by (simp add: line_loop.simps)

lemma line_loop_line:
  "newline \<notin> set l \<Longrightarrow> line_loop (l @ newline # rest) = (l # fst (line_loop rest), snd (line_loop rest))"
  by (subst line_loop.simps) (simp add: split_beta takeWhile_append Let_def cong: if_cong)

lemma line_loop_split:
  obtains "newline \<notin> set buf" | l rest where "newline \<notin> set l" "buf = l @ newline # rest"
  by (metis split_list_first)

text \<open>What the loop leaves has no newline, and lines and rest are the buffer.\<close>

lemma line_loop_rest: "newline \<notin> set (snd (line_loop buf))"
proof (induction buf rule: length_induct)
  case (1 buf)
  then show ?case by (cases buf rule: line_loop_split) (auto simp: line_loop_line)
qed

lemma line_loop_lines: "\<forall>l \<in> set (fst (line_loop buf)). newline \<notin> set l"
proof (induction buf rule: length_induct)
  case (1 buf)
  show ?case
  proof (cases buf rule: line_loop_split)
    case (2 l rest)
    then have "length rest < length buf" by simp
    with 1 have "\<forall>l \<in> set (fst (line_loop rest)). newline \<notin> set l" by blast
    with 2 show ?thesis by (simp add: line_loop_line)
  qed simp
qed

lemma line_loop_concat: "concat (map (\<lambda>l. l @ [newline]) (fst (line_loop buf))) @ snd (line_loop buf) = buf"
proof (induction buf rule: length_induct)
  case (1 buf)
  then show ?case by (cases buf rule: line_loop_split) (auto simp: line_loop_line)
qed

lemma line_loop_append:
  "line_loop (a @ b) =
     (fst (line_loop a) @ fst (line_loop (snd (line_loop a) @ b)), snd (line_loop (snd (line_loop a) @ b)))"
proof (induction a rule: length_induct)
  case (1 a)
  show ?case
  proof (cases a rule: line_loop_split)
    case (2 l rest)
    then have "length rest < length a" by simp
    with 1 have "line_loop (rest @ b) = (fst (line_loop rest) @ fst (line_loop (snd (line_loop rest) @ b)),
        snd (line_loop (snd (line_loop rest) @ b)))" by blast
    with 2 show ?thesis by (simp add: line_loop_line)
  qed simp
qed

interpretation lines: chunked_parser feed_line "\<lambda>buf. newline \<notin> set buf"
proof unfold_locales
  fix s a b :: string
  show "newline \<notin> set s \<Longrightarrow> feed_line s (a @ b) =
      (fst (feed_line s a) @ fst (feed_line (snd (feed_line s a)) b), snd (feed_line (snd (feed_line s a)) b))"
    using line_loop_append [of "s @ a" b] by (simp add: feed_line_def)
qed (simp_all add: feed_line_def line_loop_rest)

text \<open>Writing lines and reading them back: \<^verbatim>\<open>JSON.stringify(m) + '\n'\<close> on the other side.\<close>

lemma line_loop_written:
  assumes "\<forall>l \<in> set ls. newline \<notin> set l"
  shows "line_loop (concat (map (\<lambda>l. l @ [newline]) ls)) = (ls, [])"
  using assms by (induction ls) (simp_all add: line_loop_line)

section \<open>Properties\<close>

text \<open>
  How the transport cuts a stream into chunks does not matter. If a peer writes lines
  without newlines in them, one newline after each, then however the text is cut into chunks,
  feeding the chunks one after the other yields exactly those lines, in order, and leaves an
  empty buffer.
\<close>

theorem framing_roundtrip:
  assumes "\<forall>l \<in> set ls. newline \<notin> set l" "concat chunks = concat (map (\<lambda>l. l @ [newline]) ls)"
  shows "lines.feed_all [] chunks = (ls, [])"
  using lines.feed_all_concat [of "[]" chunks] line_loop_written [OF assms(1)] assms(2)
  by (simp add: feed_line_def)

theorem framing_roundtrip_witness:
  "lines.feed_all [] [''ab'', ''c'' @ [newline] @ ''d'', [newline]] = ([''abc'', ''d''], [])"
  by (rule framing_roundtrip) simp_all

end
