(* ===== verification/Session.thy ===== *)
theory Session
  imports Types Framing
begin

text \<open>
  One headless session, \<^verbatim>\<open>packages/daemon/src/infrastructure/session.ts\<close> with the event mapping
  of \<^verbatim>\<open>sessionState.ts\<close>. The child process is the environment: its events are inputs, the lines
  written to its stdin and the emitted events are effects in order. \<^verbatim>\<open>JSON.parse\<close> of a line is an
  argument. A handler that throws is an uncaught exception and returns the error. Of an init
  event only a string \<^verbatim>\<open>session_id\<close> or \<^verbatim>\<open>model\<close> is kept, anything else reads as null.
\<close>

record Session =
  ss_id :: string
  ss_cwd :: string
  ss_label :: string
  ss_claudeSessionId :: "string option"
  ss_model :: "string option"
  ss_state :: SessionState
  ss_startedAt :: int
  ss_lastActivityAt :: int
  ss_pendingApprovals :: "string list"
  ss_buf :: string

datatype session_effect =
    Emit_state SessionState
  | Emit_stream json
  | Emit_stderr string
  | Emit_exit "int option" "string option"
  | Write_stdin json

section \<open>Construction\<close>

fun mode_text :: "PermissionMode \<Rightarrow> string" where
  "mode_text AcceptEdits = ''acceptEdits''"
| "mode_text Auto = ''auto''"
| "mode_text BypassPermissions = ''bypassPermissions''"
| "mode_text Manual = ''manual''"
| "mode_text DontAsk = ''dontAsk''"
| "mode_text Plan = ''plan''"

fun effort_text :: "EffortLevel \<Rightarrow> string" where
  "effort_text Low = ''low''"
| "effort_text Medium = ''medium''"
| "effort_text High = ''high''"
| "effort_text Xhigh = ''xhigh''"
| "effort_text Max = ''max''"

text \<open>\<^verbatim>\<open>opts.cwd.split('/').pop()\<close>: what follows the last slash.\<close>

definition last_segment :: "string \<Rightarrow> string" where
  "last_segment s = rev (takeWhile (\<lambda>c. c \<noteq> CHR ''/'') (rev s))"

text \<open>An optional argument; the empty string is falsy.\<close>

definition opt_arg :: "string \<Rightarrow> string option \<Rightarrow> string list" where
  "opt_arg flag v = (case v of None \<Rightarrow> [] | Some s \<Rightarrow> if s = [] then [] else [flag, s])"

definition session_args :: "SpawnRequest \<Rightarrow> string list" where
  "session_args opts =
     [''-p'', ''--input-format'', ''stream-json'', ''--output-format'', ''stream-json'', ''--verbose'']
     @ concat (map (\<lambda>t. [''--disallowedTools'', t])
         (case sr_disallowedTools opts of None \<Rightarrow> [] | Some ts \<Rightarrow> ts))
     @ opt_arg ''--model'' (sr_model opts)
     @ opt_arg ''--permission-mode'' (map_option mode_text (sr_permissionMode opts))
     @ opt_arg ''--effort'' (map_option effort_text (sr_effort opts))"

definition new_session :: "string \<Rightarrow> SpawnRequest \<Rightarrow> int \<Rightarrow> Session" where
  "new_session i opts now = \<lparr>ss_id = i, ss_cwd = sr_cwd opts,
     ss_label = (case sr_label opts of Some l \<Rightarrow> l | None \<Rightarrow> last_segment (sr_cwd opts)),
     ss_claudeSessionId = None,
     ss_model = (case sr_model opts of Some m \<Rightarrow> if m = [] then None else Some m | None \<Rightarrow> None),
     ss_state = Starting, ss_startedAt = now, ss_lastActivityAt = now, ss_pendingApprovals = [], ss_buf = []\<rparr>"

section \<open>State transitions\<close>

definition isTerminal :: "Session \<Rightarrow> bool" where
  "isTerminal s \<longleftrightarrow> ss_state s = Finished \<or> ss_state s = Errored"

definition setState :: "SessionState \<Rightarrow> Session \<Rightarrow> session_effect list \<times> Session" where
  "setState st s = (if ss_state s = st then ([], s) else ([Emit_state st], s\<lparr>ss_state := st\<rparr>))"

definition is_str :: "string \<Rightarrow> json option \<Rightarrow> bool" where
  "is_str t v \<longleftrightarrow> v = Some (JStr t)"

definition deriveSessionState :: "json \<Rightarrow> SessionState option" where
  "deriveSessionState ev =
     (let ty = field ''type'' (Some ev); sub = field ''subtype'' (Some ev);
          nt = field ''notification_type'' (Some ev)
      in if is_str ''system'' ty \<and> is_str ''init'' sub then Some Idle
         else if is_str ''system'' ty \<and> is_str ''notification'' sub then
           (if is_str ''permission_prompt'' nt then Some Waiting_approval
            else if is_str ''agent_needs_input'' nt \<or> is_str ''idle_prompt'' nt then Some Waiting_input
            else if is_str ''agent_completed'' nt then Some Idle
            else None)
         else if is_str ''assistant'' ty then Some Working
         else if is_str ''result'' ty then Some Idle
         else None)"

fun json_string :: "json option \<Rightarrow> string option" where
  "json_string (Some (JStr s)) = Some s"
| "json_string _ = None"

text \<open>The identity and model that an init event carries.\<close>

definition note_init :: "json \<Rightarrow> Session \<Rightarrow> Session" where
  "note_init ev s =
     (if is_str ''system'' (field ''type'' (Some ev)) \<and> is_str ''init'' (field ''subtype'' (Some ev))
      then s\<lparr>ss_claudeSessionId := json_string (field ''session_id'' (Some ev)),
             ss_model := json_string (field ''model'' (Some ev))\<rparr>
      else s)"

definition apply_event :: "json \<Rightarrow> Session \<Rightarrow> session_effect list \<times> Session" where
  "apply_event ev s =
     (let (es, s1) = (case deriveSessionState ev of None \<Rightarrow> ([], s) | Some st \<Rightarrow> setState st s)
      in (es @ [Emit_stream ev], s1))"

text \<open>Reading \<^verbatim>\<open>ev.type\<close> of \<^verbatim>\<open>null\<close> throws, after the activity time was set.\<close>

definition handleEvent :: "json \<Rightarrow> int \<Rightarrow> Session \<Rightarrow> js_error option \<times> session_effect list \<times> Session" where
  "handleEvent ev now s =
     (let s1 = s\<lparr>ss_lastActivityAt := now\<rparr>
      in if ev = JNull then (Some TypeError, [], s1) else (None, apply_event ev (note_init ev s1)))"

fun handle_lines :: "(string \<Rightarrow> json option) \<Rightarrow> int \<Rightarrow> string list \<Rightarrow> Session \<Rightarrow>
    js_error option \<times> session_effect list \<times> Session" where
  "handle_lines parse now [] s = (None, [], s)"
| "handle_lines parse now (l # ls) s =
     (if blank l then handle_lines parse now ls s
      else case parse l of
             None \<Rightarrow> handle_lines parse now ls s
           | Some ev \<Rightarrow>
               (case handleEvent ev now s of
                  (Some err, es, s1) \<Rightarrow> (Some err, es, s1)
                | (None, es, s1) \<Rightarrow> (let (r, fs, s2) = handle_lines parse now ls s1 in (r, es @ fs, s2))))"

definition onStdout :: "(string \<Rightarrow> json option) \<Rightarrow> int \<Rightarrow> string \<Rightarrow> Session \<Rightarrow>
    js_error option \<times> session_effect list \<times> Session" where
  "onStdout parse now chunk s =
     (let (ls, rest) = feed_line (ss_buf s) chunk in handle_lines parse now ls (s\<lparr>ss_buf := rest\<rparr>))"

definition onProcSpawn :: "Session \<Rightarrow> session_effect list \<times> Session" where
  "onProcSpawn s = (if ss_state s = Starting then setState Ready s else ([], s))"

definition onProcExit :: "int option \<Rightarrow> Session \<Rightarrow> session_effect list \<times> Session" where
  "onProcExit code s =
     (if isTerminal s then ([], s)
      else let (es, s1) = setState (if code = Some 0 then Finished else Errored) s
           in (es @ [Emit_exit code None], s1))"

definition onProcError :: "string \<Rightarrow> Session \<Rightarrow> session_effect list \<times> Session" where
  "onProcError msg s =
     (if isTerminal s then ([], s)
      else let (es, s1) = setState Errored s in (es @ [Emit_exit None (Some msg)], s1))"

section \<open>Steering\<close>

definition user_message :: "string \<Rightarrow> json" where
  "user_message text = JObj [(''type'', JStr ''user''), (''message'', JObj [(''role'', JStr ''user''),
     (''content'', JArr [JObj [(''type'', JStr ''text''), (''text'', JStr text)]])])]"

text \<open>A control request carries an id from \<^verbatim>\<open>randomUUID\<close>, an argument here.\<close>

definition control_request :: "string \<Rightarrow> (string \<times> json) list \<Rightarrow> json" where
  "control_request rid req = JObj [(''type'', JStr ''control_request''), (''request_id'', JStr rid), (''request'', JObj req)]"

definition session_send :: "string \<Rightarrow> Session \<Rightarrow> session_effect list \<times> Session" where
  "session_send text s =
     (if isTerminal s then ([], s)
      else let (es, s1) = setState Working s in (Write_stdin (user_message text) # es, s1))"

definition session_interrupt :: "string \<Rightarrow> Session \<Rightarrow> session_effect list \<times> Session" where
  "session_interrupt rid s =
     (if isTerminal s then ([], s)
      else ([Write_stdin (control_request rid [(''subtype'', JStr ''interrupt'')])], s))"

definition setModel :: "string \<Rightarrow> string \<Rightarrow> Session \<Rightarrow> session_effect list \<times> Session" where
  "setModel rid model s =
     (if isTerminal s then ([], s)
      else ([Write_stdin (control_request rid [(''subtype'', JStr ''set_model''), (''model'', JStr model)])],
            s\<lparr>ss_model := Some model\<rparr>))"

definition setPermissionMode :: "string \<Rightarrow> PermissionMode \<Rightarrow> Session \<Rightarrow> session_effect list \<times> Session" where
  "setPermissionMode rid mode s =
     (if isTerminal s then ([], s)
      else ([Write_stdin (control_request rid
              [(''subtype'', JStr ''set_permission_mode''), (''mode'', JStr (mode_text mode))])], s))"

definition trackPendingApproval :: "string \<Rightarrow> Session \<Rightarrow> Session" where
  "trackPendingApproval toolUseId s = s\<lparr>ss_pendingApprovals := set_add toolUseId (ss_pendingApprovals s)\<rparr>"

definition untrackPendingApproval :: "string \<Rightarrow> Session \<Rightarrow> Session" where
  "untrackPendingApproval toolUseId s = s\<lparr>ss_pendingApprovals := set_delete toolUseId (ss_pendingApprovals s)\<rparr>"

definition session_info :: "Session \<Rightarrow> SessionInfo" where
  "session_info s = \<lparr>si_id = ss_id s, si_claudeSessionId = ss_claudeSessionId s, si_cwd = ss_cwd s,
     si_label = ss_label s, si_state = ss_state s, si_model = ss_model s, si_startedAt = ss_startedAt s,
     si_lastActivityAt = ss_lastActivityAt s, si_pendingApprovals = length (ss_pendingApprovals s)\<rparr>"

section \<open>Runs\<close>

datatype session_input =
    In_spawn
  | In_stdout string int
  | In_stderr string
  | In_exit "int option"
  | In_error string
  | Cmd_send string
  | Cmd_interrupt string
  | Cmd_model string string
  | Cmd_mode string PermissionMode
  | In_track string
  | In_untrack string

fun session_step :: "(string \<Rightarrow> json option) \<Rightarrow> session_input \<Rightarrow> Session \<Rightarrow>
    js_error option \<times> session_effect list \<times> Session" where
  "session_step parse In_spawn s = (None, onProcSpawn s)"
| "session_step parse (In_stdout chunk now) s = onStdout parse now chunk s"
| "session_step parse (In_stderr text) s = (None, [Emit_stderr text], s)"
| "session_step parse (In_exit code) s = (None, onProcExit code s)"
| "session_step parse (In_error msg) s = (None, onProcError msg s)"
| "session_step parse (Cmd_send text) s = (None, session_send text s)"
| "session_step parse (Cmd_interrupt rid) s = (None, session_interrupt rid s)"
| "session_step parse (Cmd_model rid m) s = (None, setModel rid m s)"
| "session_step parse (Cmd_mode rid m) s = (None, setPermissionMode rid m s)"
| "session_step parse (In_track i) s = (None, [], trackPendingApproval i s)"
| "session_step parse (In_untrack i) s = (None, [], untrackPendingApproval i s)"

text \<open>An uncaught exception ends the process.\<close>

fun session_run :: "(string \<Rightarrow> json option) \<Rightarrow> session_input list \<Rightarrow> Session \<Rightarrow>
    js_error option \<times> session_effect list \<times> Session" where
  "session_run parse [] s = (None, [], s)"
| "session_run parse (x # xs) s =
     (case session_step parse x s of
        (Some err, es, s1) \<Rightarrow> (Some err, es, s1)
      | (None, es, s1) \<Rightarrow> (let (r, fs, s2) = session_run parse xs s1 in (r, es @ fs, s2)))"

fun is_end :: "session_input \<Rightarrow> bool" where
  "is_end (In_exit _) = True"
| "is_end (In_error _) = True"
| "is_end _ = False"

fun is_command :: "session_input \<Rightarrow> bool" where
  "is_command (Cmd_send _) = True"
| "is_command (Cmd_interrupt _) = True"
| "is_command (Cmd_model _ _) = True"
| "is_command (Cmd_mode _ _) = True"
| "is_command _ = False"

fun is_output :: "session_input \<Rightarrow> bool" where
  "is_output (In_stdout _ _) = True"
| "is_output _ = False"

fun is_exit :: "session_effect \<Rightarrow> bool" where
  "is_exit (Emit_exit _ _) = True"
| "is_exit _ = False"

fun is_write :: "session_effect \<Rightarrow> bool" where
  "is_write (Write_stdin _) = True"
| "is_write _ = False"

text \<open>No stdout data is delivered after the process ended.\<close>

fun quiet_after_end :: "session_input list \<Rightarrow> bool" where
  "quiet_after_end [] = True"
| "quiet_after_end (x # xs) = ((is_end x \<longrightarrow> \<not> list_ex is_output xs) \<and> quiet_after_end xs)"

definition exits :: "session_effect list \<Rightarrow> nat" where
  "exits es = length (filter is_exit es)"

lemma exits_append [simp]: "exits (es @ fs) = exits es + exits fs" "exits [] = 0"
  "exits (x # es) = (if is_exit x then 1 else 0) + exits es"
  by (simp_all add: exits_def)

lemma setState_simps [simp]:
  "exits (fst (setState st s)) = 0" "ss_state (snd (setState st s)) = st" "list_ex is_write (fst (setState st s)) = False"
  by (simp_all add: setState_def)

lemma derive_not_terminal: "deriveSessionState ev = Some st \<Longrightarrow> st \<noteq> Finished \<and> st \<noteq> Errored"
  by (auto simp: deriveSessionState_def Let_def split: if_splits)

lemma apply_event_live:
  assumes "\<not> isTerminal s"
  shows "exits (fst (apply_event ev s)) = 0 \<and> \<not> isTerminal (snd (apply_event ev s))"
proof (cases "deriveSessionState ev")
  case (Some st)
  then show ?thesis using derive_not_terminal [OF Some] by (simp add: apply_event_def split_beta isTerminal_def)
qed (use assms in \<open>simp add: apply_event_def\<close>)

lemma isTerminal_upd [simp]:
  "isTerminal (s\<lparr>ss_lastActivityAt := t\<rparr>) = isTerminal s" "isTerminal (s\<lparr>ss_buf := b\<rparr>) = isTerminal s"
  "isTerminal (note_init ev s) = isTerminal s"
  by (simp_all add: isTerminal_def note_init_def)

lemma handleEvent_live:
  assumes "\<not> isTerminal s"
  shows "exits (fst (snd (handleEvent ev now s))) = 0 \<and> \<not> isTerminal (snd (snd (handleEvent ev now s)))"
  using assms by (simp add: handleEvent_def Let_def apply_event_live)

lemma handle_lines_live:
  "\<not> isTerminal s \<Longrightarrow>
     exits (fst (snd (handle_lines parse now ls s))) = 0 \<and> \<not> isTerminal (snd (snd (handle_lines parse now ls s)))"
proof (induction ls arbitrary: s)
  case (Cons l ls)
  show ?case
  proof (cases "blank l \<or> parse l = None")
    case True
    then have "handle_lines parse now (l # ls) s = handle_lines parse now ls s" by auto
    with Cons.IH [OF Cons.prems] show ?thesis by metis
  next
    case False
    then obtain ev where ev: "parse l = Some ev" "\<not> blank l" by blast
    obtain r es s1 where h: "handleEvent ev now s = (r, es, s1)" by (rule prod_cases3)
    with handleEvent_live [OF Cons.prems, of ev now] have "exits es = 0" "\<not> isTerminal s1" by simp_all
    with Cons.IH [of s1] ev h show ?thesis by (cases r) (simp_all add: split_beta Let_def)
  qed
qed simp

lemma step_live:
  assumes "\<not> isTerminal s"
  shows "exits (fst (snd (session_step parse x s))) = (if is_end x then 1 else 0)
    \<and> (isTerminal (snd (snd (session_step parse x s))) \<longleftrightarrow> is_end x)"
proof (cases x)
  case (In_stdout chunk now)
  with assms handle_lines_live show ?thesis by (simp add: onStdout_def split_beta)
qed (use assms in \<open>auto simp: onProcSpawn_def onProcExit_def onProcError_def session_send_def session_interrupt_def
    setModel_def setPermissionMode_def trackPendingApproval_def untrackPendingApproval_def split_beta isTerminal_def Let_def\<close>)

lemma step_terminal:
  assumes "isTerminal s" "\<not> is_output x"
  shows "fst (session_step parse x s) = None \<and> exits (fst (snd (session_step parse x s))) = 0
    \<and> \<not> list_ex is_write (fst (snd (session_step parse x s)))
    \<and> ss_state (snd (snd (session_step parse x s))) = ss_state s"
  using assms
  by (cases x) (auto simp: onProcSpawn_def onProcExit_def onProcError_def session_send_def session_interrupt_def
    setModel_def setPermissionMode_def trackPendingApproval_def untrackPendingApproval_def isTerminal_def)

lemma run_terminal:
  assumes "isTerminal s" "\<not> list_ex is_output xs"
  shows "fst (session_run parse xs s) = None \<and> exits (fst (snd (session_run parse xs s))) = 0
    \<and> \<not> list_ex is_write (fst (snd (session_run parse xs s)))
    \<and> ss_state (snd (snd (session_run parse xs s))) = ss_state s"
  using assms
proof (induction xs arbitrary: s)
  case (Cons x xs)
  obtain r es s1 where t: "session_step parse x s = (r, es, s1)" by (rule prod_cases3)
  with step_terminal [OF Cons.prems(1), of x parse] Cons.prems(2)
  have "r = None" "exits es = 0" "\<not> list_ex is_write es" "ss_state s1 = ss_state s" by auto
  moreover from this have "isTerminal s1" using Cons.prems(1) by (simp add: isTerminal_def)
  ultimately show ?case using Cons.IH [of s1] Cons.prems(2) t by (simp add: split_beta Let_def)
qed simp

lemma run_live:
  assumes "\<not> isTerminal s" "quiet_after_end xs"
  shows "exits (fst (snd (session_run parse xs s))) \<le> 1
    \<and> (fst (session_run parse xs s) = None \<longrightarrow>
        exits (fst (snd (session_run parse xs s))) = (if list_ex is_end xs then 1 else 0)
        \<and> (isTerminal (snd (snd (session_run parse xs s))) \<longleftrightarrow> list_ex is_end xs))"
  using assms
proof (induction xs arbitrary: s)
  case (Cons x xs)
  obtain r es s1 where t: "session_step parse x s = (r, es, s1)" by (rule prod_cases3)
  with step_live [OF Cons.prems(1), of parse x]
  have s1: "exits es = (if is_end x then 1 else 0)" "isTerminal s1 \<longleftrightarrow> is_end x" by simp_all
  show ?case
  proof (cases "is_end x")
    case True
    then have q: "\<not> list_ex is_output xs" using Cons.prems(2) by simp
    from run_terminal [OF _ q, of s1 parse] s1 True have "exits (fst (snd (session_run parse xs s1))) = 0"
      "ss_state (snd (snd (session_run parse xs s1))) = ss_state s1" "isTerminal s1" by auto
    with t s1 True show ?thesis by (auto simp: split_beta Let_def isTerminal_def split: option.split)
  next
    case False
    with Cons.IH [of s1] Cons.prems(2) s1 t show ?thesis by (auto simp: split_beta Let_def split: option.split)
  qed
qed simp

lemma writes_of_command:
  assumes "Write_stdin j \<in> set (fst (snd (session_step parse x s)))"
  shows "(\<exists>text. x = Cmd_send text \<and> j = user_message text)
    \<or> (\<exists>rid. x = Cmd_interrupt rid \<and> j = control_request rid [(''subtype'', JStr ''interrupt'')])
    \<or> (\<exists>rid m. x = Cmd_model rid m \<and> j = control_request rid [(''subtype'', JStr ''set_model''), (''model'', JStr m)])
    \<or> (\<exists>rid m. x = Cmd_mode rid m \<and> j = control_request rid [(''subtype'', JStr ''set_permission_mode''), (''mode'', JStr (mode_text m))])"
proof -
  have "Write_stdin j \<notin> set (fst (setState st s'))" for st s' by (simp add: setState_def)
  moreover have hl: "Write_stdin j \<notin> set (fst (snd (handle_lines parse now ls s')))" for now ls s'
  proof (induction ls arbitrary: s')
    case (Cons l ls)
    have "Write_stdin j \<notin> set (fst (snd (handleEvent ev now s')))" for ev
      by (auto simp: handleEvent_def apply_event_def setState_def split_beta Let_def split: option.splits)
    note he = this
    show ?case
    proof (cases "blank l \<or> parse l = None")
      case False
      then obtain ev where p: "\<not> blank l" "parse l = Some ev" by auto
      obtain r es s1 where h: "handleEvent ev now s' = (r, es, s1)" by (rule prod_cases3)
      with he [of ev] Cons [of s1] p show ?thesis by (cases r) (simp_all add: split_beta Let_def)
    qed (use Cons in auto)
  qed simp
  ultimately show ?thesis using assms
    by (cases x) (auto simp: onStdout_def onProcSpawn_def onProcExit_def onProcError_def session_send_def
        session_interrupt_def setModel_def setPermissionMode_def split_beta Let_def split: if_splits)
qed

section \<open>Properties\<close>

text \<open>
  C34: A session ends exactly once. If no stdout data arrives after the process ended, then
  whatever else happens, in any order, including both an error and an exit of the process and
  commands to a dead session: \<^verbatim>\<open>exit\<close> is emitted at most once, and when no handler threw it was
  emitted exactly if the process ended and the session is in a terminal state exactly then.
  The job queue releases a slot per emission, so this keeps its counter right.
\<close>

theorem session_exits_once:
  assumes "quiet_after_end ins" and "session_run parse ins (new_session i opts now) = (r, es, s)"
  shows "length (filter is_exit es) \<le> 1
    \<and> (r = None \<longrightarrow> length (filter is_exit es) = (if list_ex is_end ins then 1 else 0)
        \<and> (isTerminal s \<longleftrightarrow> list_ex is_end ins))"
proof -
  have "\<not> isTerminal (new_session i opts now)" by (simp add: isTerminal_def new_session_def)
  from run_live [OF this assms(1), of parse] assms(2) show ?thesis by (simp add: exits_def)
qed

theorem session_exits_once_witness:
  "let (r, es, s) = session_run (\<lambda>_. None) [In_spawn, In_error ''ENOENT'', In_exit None, Cmd_send ''hi'']
        (new_session ''s'' \<lparr>sr_cwd = ''/a/b'', sr_label = None, sr_disallowedTools = None, sr_model = None,
           sr_permissionMode = None, sr_effort = None\<rparr> 0)
   in length (filter is_exit es) \<le> 1"
proof -
  let ?ins = "[In_spawn, In_error ''ENOENT'', In_exit None, Cmd_send ''hi'']"
  let ?s = "new_session ''s'' \<lparr>sr_cwd = ''/a/b'', sr_label = None, sr_disallowedTools = None, sr_model = None,
           sr_permissionMode = None, sr_effort = None\<rparr> 0"
  obtain r es s where run: "session_run (\<lambda>_. None) ?ins ?s = (r, es, s)" by (rule prod_cases3)
  have "quiet_after_end ?ins" by simp
  from session_exits_once [OF this run] show ?thesis unfolding run by simp
qed

text \<open>
  Late output revives a dead session. Nothing guards the output handler, and Node may
  deliver buffered stdout data after \<^verbatim>\<open>exit\<close>: an assistant event that arrives then moves the
  finished session back to working, after its exit was announced and it was dropped from the
  fleet, and a later process error makes it announce its exit a second time.
\<close>

theorem late_output_revives_session:
  "let (r, es, s) = session_run (\<lambda>_. Some (JObj [(''type'', JStr ''assistant'')]))
        [In_spawn, In_exit (Some 0), In_stdout (''x'' @ [newline]) 5] (new_session i opts 0);
       (r2, es2, s2) = session_run (\<lambda>_. None) [In_error ''kill EPERM''] s
   in exits es = 1 \<and> ss_state s = Working \<and> exits es2 = 1"
  by (simp add: new_session_def onProcSpawn_def onProcExit_def onProcError_def setState_def isTerminal_def
      onStdout_def feed_line_def line_loop.simps blank_def js_space_def handleEvent_def deriveSessionState_def
      apply_event_def note_init_def is_str_def Let_def)

text \<open>
  A line \<^verbatim>\<open>null\<close> on a session's stdout throws. The mapping of events to states tolerates a
  null event, but the handler reads a field of it first, so a chunk whose first line parses to
  null raises a TypeError out of the stream callback, whatever the state of the session.
\<close>

theorem null_output_line_throws:
  assumes "parse l = Some JNull" "\<not> blank l" "newline \<notin> set l" "ss_buf s = []"
  shows "fst (onStdout parse now (l @ newline # rest) s) = Some TypeError
    \<and> deriveSessionState JNull = None"
  using assms
  by (simp add: onStdout_def feed_line_def line_loop_line handleEvent_def deriveSessionState_def is_str_def Let_def split_beta)

theorem null_output_line_throws_witness:
  "fst (onStdout (\<lambda>l. if l = ''null'' then Some JNull else None) 7 (''null'' @ newline # []) (new_session ''s''
      \<lparr>sr_cwd = ''/a'', sr_label = None, sr_disallowedTools = None, sr_model = None,
       sr_permissionMode = None, sr_effort = None\<rparr> 0)) = Some TypeError"
  by (rule null_output_line_throws [THEN conjunct1]) (simp_all add: blank_def js_space_def new_session_def)

end
