(* ===== verification/HookBridge.thy ===== *)
theory HookBridge
  imports Approvals Session Db
begin

text \<open>
  The hook socket, \<^verbatim>\<open>packages/daemon/src/interface/hookBridge.ts\<close>, with the guard of
  \<^verbatim>\<open>messageGuard.ts\<close>, the lookup \<^verbatim>\<open>sessionByClaudeId\<close> and the broker listeners of \<^verbatim>\<open>index.ts\<close>. A waiter
  of the broker is the closure of \<^verbatim>\<open>respond\<close>: the socket it writes to, the owning session if
  there is one, and the tool call. Sockets are numbered. Effects are what leaves the
  component, in order. In a request, an id or name that is not a string reads as absent.
\<close>

record hook_waiter =
  hw_sock :: nat
  hw_owner :: "string option"
  hw_tool :: string

record HookServer =
  hk_broker :: "hook_waiter ApprovalBroker"
  hk_claimed :: "nat \<Rightarrow> string list"
  hk_buf :: "nat \<Rightarrow> string"

definition new_hook_server :: HookServer where
  "new_hook_server = \<lparr>hk_broker = new_broker, hk_claimed = (\<lambda>_. []), hk_buf = (\<lambda>_. [])\<rparr>"

datatype hook_effect =
    Hook_write nat verdict string
  | Hook_destroy nat
  | Track string string
  | Untrack string string
  | Owner_update string
  | Db_requested PendingApproval
  | Notify_push
  | Db_decided PendingApproval
  | Broadcast ServerEvent

definition MAX_HOOK_LINE :: nat where "MAX_HOOK_LINE = 8 * 1024 * 1024"

section \<open>Lookup of the owner\<close>

definition sessionByClaudeId :: "(string, Session) jsmap \<Rightarrow> string option \<Rightarrow> Session option" where
  "sessionByClaudeId sessions claudeSessionId =
     (case claudeSessionId of
        None \<Rightarrow> None
      | Some c \<Rightarrow> if c = [] then None
                  else List.find (\<lambda>s. ss_claudeSessionId s = Some c) (js_values sessions))"

section \<open>Effects of the broker\<close>

text \<open>The \<^verbatim>\<open>respond\<close> closure, and the listeners for \<^verbatim>\<open>pending\<close> and \<^verbatim>\<open>resolved\<close>.\<close>

fun hook_effects_of :: "hook_waiter broker_effect \<Rightarrow> hook_effect list" where
  "hook_effects_of (Emit_pending a) = [Db_requested a, Notify_push]"
| "hook_effects_of (Respond w v reason) =
     Hook_write (hw_sock w) v reason #
       (case hw_owner w of None \<Rightarrow> [] | Some sid \<Rightarrow> [Untrack sid (hw_tool w), Owner_update sid])"
| "hook_effects_of (Emit_resolved a) =
     (case pa_decision a of
        None \<Rightarrow> []
      | Some d \<Rightarrow> [Db_decided a, Broadcast (Approval_resolved (pa_toolUseId a) (d_decision d) (d_by d))])"

definition hook_effects :: "hook_waiter broker_effect list \<Rightarrow> hook_effect list" where
  "hook_effects es = concat (map hook_effects_of es)"

section \<open>One request\<close>

definition default_to :: "string \<Rightarrow> string option \<Rightarrow> string" where
  "default_to d v = (case v of None \<Rightarrow> d | Some s \<Rightarrow> s)"

definition request_approval :: "(string, Session) jsmap \<Rightarrow> int \<Rightarrow> int \<Rightarrow> json \<Rightarrow> PendingApproval \<times> string option" where
  "request_approval sessions selfDenyMs now msg =
     (let event = Some (nullish (field ''event'' (Some msg)) (JObj []));
          sid = json_string (field ''session_id'' event);
          toolUseId = default_to (default_to ''undefined'' sid @ ''-'' @ decimal_int now)
                        (json_string (field ''tool_use_id'' event));
          owner = map_option ss_id (sessionByClaudeId sessions sid)
      in (\<lparr>pa_toolUseId = toolUseId,
            pa_sessionId = (case owner of Some o_id \<Rightarrow> o_id | None \<Rightarrow> default_to ''unknown'' sid),
            pa_toolName = default_to ''unknown'' (json_string (field ''tool_name'' event)),
            pa_toolInput = nullish (field ''tool_input'' event) (JObj []),
            pa_description = field ''description'' (field ''tool_input'' event),
            pa_requestedAt = now, pa_deadlineAt = now + selfDenyMs, pa_decision = None\<rparr>, owner))"

text \<open>
  The guarded body. The first result is what \<^verbatim>\<open>guardMessage\<close> returns. The listener that records
  the request runs inside \<^verbatim>\<open>broker.open\<close>; when the driver cannot bind the description it throws
  and the rest of the body is skipped, with the broker already changed.
\<close>

definition open_request :: "nat \<Rightarrow> PendingApproval \<Rightarrow> string option \<Rightarrow> HookServer \<Rightarrow>
    bool \<times> hook_effect list \<times> HookServer" where
  "open_request k approval owner h =
     (let tool = pa_toolUseId approval;
          (won, es, b) = broker_open approval \<lparr>hw_sock = k, hw_owner = owner, hw_tool = tool\<rparr> (hk_broker h)
      in if won \<and> \<not> bindable (pa_description approval) then (False, [], h\<lparr>hk_broker := b\<rparr>)
         else if \<not> won then
           (True, [Hook_write k Deny ''duplicate tool_use_id already pending'', Hook_destroy k], h)
         else (True,
               hook_effects es @ (case owner of None \<Rightarrow> [] | Some sid \<Rightarrow> [Track sid tool])
                 @ [Broadcast (Approval_pending approval)]
                 @ (case owner of None \<Rightarrow> [] | Some sid \<Rightarrow> [Owner_update sid]),
               h\<lparr>hk_broker := b, hk_claimed := (hk_claimed h)(k := set_add tool (hk_claimed h k))\<rparr>))"

text \<open>One line: \<open>Inl\<close> is the uncaught TypeError of reading \<^verbatim>\<open>msg.kind\<close> of null.\<close>

definition hook_line :: "(string \<Rightarrow> json option) \<Rightarrow> (string, Session) jsmap \<Rightarrow> int \<Rightarrow> int \<Rightarrow> nat \<Rightarrow> string \<Rightarrow>
    HookServer \<Rightarrow> js_error + hook_effect list \<times> HookServer" where
  "hook_line parse sessions selfDenyMs now k line h =
     (if blank line then Inr ([], h)
      else case parse line of
             None \<Rightarrow> Inr ([], h)
           | Some msg \<Rightarrow>
               if msg = JNull then Inl TypeError
               else if \<not> is_str ''approval_request'' (field ''kind'' (Some msg)) then Inr ([], h)
               else (let (approval, owner) = request_approval sessions selfDenyMs now msg
                     in Inr (snd (open_request k approval owner h))))"

fun hook_lines :: "(string \<Rightarrow> json option) \<Rightarrow> (string, Session) jsmap \<Rightarrow> int \<Rightarrow> int \<Rightarrow> nat \<Rightarrow> string list \<Rightarrow>
    HookServer \<Rightarrow> js_error + hook_effect list \<times> HookServer" where
  "hook_lines parse ss sd now k [] h = Inr ([], h)"
| "hook_lines parse ss sd now k (l # ls) h =
     (case hook_line parse ss sd now k l h of
        Inl err \<Rightarrow> Inl err
      | Inr (es, h1) \<Rightarrow>
          (case hook_lines parse ss sd now k ls h1 of Inl err \<Rightarrow> Inl err | Inr (fs, h2) \<Rightarrow> Inr (es @ fs, h2)))"

definition hook_data :: "(string \<Rightarrow> json option) \<Rightarrow> (string, Session) jsmap \<Rightarrow> int \<Rightarrow> int \<Rightarrow> nat \<Rightarrow> string \<Rightarrow>
    HookServer \<Rightarrow> js_error + hook_effect list \<times> HookServer" where
  "hook_data parse sessions selfDenyMs now k chunk h =
     (if MAX_HOOK_LINE < length (hk_buf h k @ chunk)
      then Inr ([Hook_destroy k], h\<lparr>hk_buf := (hk_buf h)(k := [])\<rparr>)
      else let (ls, rest) = feed_line (hk_buf h k) chunk
           in hook_lines parse sessions selfDenyMs now k ls (h\<lparr>hk_buf := (hk_buf h)(k := rest)\<rparr>))"

fun abandon_all :: "string list \<Rightarrow> int \<Rightarrow> hook_waiter ApprovalBroker \<Rightarrow>
    hook_waiter broker_effect list \<times> hook_waiter ApprovalBroker" where
  "abandon_all [] now b = ([], b)"
| "abandon_all (i # is) now b =
     (let (es, b1) = broker_abandon i now b; (fs, b2) = abandon_all is now b1 in (es @ fs, b2))"

definition hook_close :: "nat \<Rightarrow> int \<Rightarrow> HookServer \<Rightarrow> hook_effect list \<times> HookServer" where
  "hook_close k now h =
     (let (es, b) = abandon_all (hk_claimed h k) now (hk_broker h) in (hook_effects es, h\<lparr>hk_broker := b\<rparr>))"

text \<open>A decision by a client and a due retention timer, as the rest of the daemon drives the broker.\<close>

definition hook_decide :: "string \<Rightarrow> verdict \<Rightarrow> string \<Rightarrow> string \<Rightarrow> int \<Rightarrow> HookServer \<Rightarrow>
    decide_outcome \<times> hook_effect list \<times> HookServer" where
  "hook_decide i v reason who now h =
     (let (oc, es, b) = broker_decide i v reason who now (hk_broker h) in (oc, hook_effects es, h\<lparr>hk_broker := b\<rparr>))"

definition hook_timer :: "string \<times> int \<Rightarrow> int \<Rightarrow> HookServer \<Rightarrow> HookServer" where
  "hook_timer tm now h =
     (case broker_fire tm now (hk_broker h) of None \<Rightarrow> h | Some b \<Rightarrow> h\<lparr>hk_broker := b\<rparr>)"

section \<open>Ownership of waiters\<close>

text \<open>
  A waiter is stored under its own tool call, and its socket has claimed that call, unless the
  request could not be recorded.
\<close>

definition claim_inv :: "HookServer \<Rightarrow> bool" where
  "claim_inv h \<longleftrightarrow> broker_inv (hk_broker h)
     \<and> (\<forall>i w. map_of (bk_waiters (hk_broker h)) i = Some w \<longrightarrow>
          hw_tool w = i \<and> (i \<in> set (hk_claimed h (hw_sock w))
            \<or> (\<exists>a. broker_get i (hk_broker h) = Some a \<and> \<not> bindable (pa_description a))))"

lemma claim_inv_new: "claim_inv new_hook_server"
  by (simp add: claim_inv_def new_hook_server_def) (simp add: new_broker_def)

text \<open>Operations that only settle entries keep the invariant.\<close>

lemma claim_inv_shrink:
  assumes "claim_inv h" "broker_inv b"
    and "\<And>i w. map_of (bk_waiters b) i = Some w \<Longrightarrow>
      map_of (bk_waiters (hk_broker h)) i = Some w \<and> broker_get i b = broker_get i (hk_broker h)"
  shows "claim_inv (h\<lparr>hk_broker := b\<rparr>)"
  unfolding claim_inv_def
proof (intro conjI allI impI)
  fix i w assume "map_of (bk_waiters (hk_broker (h\<lparr>hk_broker := b\<rparr>))) i = Some w"
  then have w: "map_of (bk_waiters b) i = Some w" by simp
  from assms(3) [OF this] assms(1) have "hw_tool w = i \<and> (i \<in> set (hk_claimed h (hw_sock w))
      \<or> (\<exists>a. broker_get i (hk_broker h) = Some a \<and> \<not> bindable (pa_description a)))"
    unfolding claim_inv_def by blast
  with assms(3) [OF w] show "hw_tool w = i" and "i \<in> set (hk_claimed (h\<lparr>hk_broker := b\<rparr>) (hw_sock w))
      \<or> (\<exists>a. broker_get i (hk_broker (h\<lparr>hk_broker := b\<rparr>)) = Some a \<and> \<not> bindable (pa_description a))"
    by simp_all
qed (use assms(2) in simp)

lemma settle_fields:
  "bk_waiters (snd (settle i a d t b)) = js_delete i (bk_waiters b)"
  "bk_pending (snd (settle i a d t b)) = js_set i (a\<lparr>pa_decision := Some d\<rparr>) (bk_pending b)"
  by (simp_all add: settle_def Let_def)

lemma undecided_iff_waiting:
  assumes "broker_inv b" "map_of (bk_pending b) i = Some a"
  shows "map_of (bk_waiters b) i = None \<longleftrightarrow> pa_decision a \<noteq> None"
  using broker_invD(1) [OF assms(1), of i] assms(2) by auto

lemma abandon_waiters:
  assumes "broker_inv b"
  shows "map_of (bk_waiters (snd (broker_abandon i t b))) = (map_of (bk_waiters b))(i := None)"
proof (cases "map_of (bk_pending b) i")
  case None
  then have "map_of (bk_waiters b) i = None" using broker_invD(1) [OF assms, of i] by auto
  then show ?thesis using None by (simp add: broker_abandon_def fun_upd_idem)
next
  case (Some a)
  then show ?thesis
    using undecided_iff_waiting [OF assms Some] by (simp add: broker_abandon_def settle_fields fun_upd_idem)
qed

lemma abandon_get: "k \<noteq> i \<Longrightarrow> broker_get k (snd (broker_abandon i t b)) = broker_get k b"
  by (simp add: broker_abandon_def broker_get_def settle_fields split: option.split)

lemma abandon_all_props:
  "broker_inv b \<Longrightarrow> broker_inv (snd (abandon_all is t b))
     \<and> map_of (bk_waiters (snd (abandon_all is t b))) = map_of (bk_waiters b) |` (- set is)
     \<and> (\<forall>k. k \<notin> set is \<longrightarrow> broker_get k (snd (abandon_all is t b)) = broker_get k b)"
proof (induction "is" arbitrary: b)
  case (Cons i "is")
  let ?b = "snd (broker_abandon i t b)"
  have inv: "broker_inv ?b" using Cons.prems by (rule broker_abandon_inv)
  have "(map_of (bk_waiters b))(i := None) |` (- set is) = map_of (bk_waiters b) |` (- set (i # is))"
    by (auto simp: restrict_map_def)
  then have "map_of (bk_waiters ?b) |` (- set is) = map_of (bk_waiters b) |` (- set (i # is))"
    unfolding abandon_waiters [OF Cons.prems] .
  with Cons.IH [OF inv] show ?case
    by (simp add: split_beta Let_def abandon_get)
qed (simp add: restrict_map_def)

lemma hook_close_inv: "claim_inv h \<Longrightarrow> claim_inv (snd (hook_close k now h))"
proof -
  assume inv: "claim_inv h"
  let ?r = "abandon_all (hk_claimed h k) now (hk_broker h)"
  have "broker_inv (hk_broker h)" using inv by (simp add: claim_inv_def)
  from abandon_all_props [OF this, of "hk_claimed h k" now] have "claim_inv (h\<lparr>hk_broker := snd ?r\<rparr>)"
    by (intro claim_inv_shrink [OF inv]) (auto simp: restrict_map_def split: if_splits)
  then show ?thesis by (simp add: hook_close_def split_beta Let_def)
qed

lemma hook_decide_inv:
  assumes "claim_inv h"
  shows "claim_inv (snd (snd (hook_decide i v reason who now h)))"
proof -
  have inv: "broker_inv (hk_broker h)" using assms by (simp add: claim_inv_def)
  have "claim_inv (h\<lparr>hk_broker := snd (snd (broker_decide i v reason who now (hk_broker h)))\<rparr>)"
  proof (rule claim_inv_shrink [OF assms broker_decide_inv [OF inv]])
    fix k w assume "map_of (bk_waiters (snd (snd (broker_decide i v reason who now (hk_broker h))))) k = Some w"
    then show "map_of (bk_waiters (hk_broker h)) k = Some w
        \<and> broker_get k (snd (snd (broker_decide i v reason who now (hk_broker h)))) = broker_get k (hk_broker h)"
      by (auto simp: broker_decide_def broker_get_def settle_fields split: option.splits if_splits)
  qed
  then show ?thesis by (simp add: hook_decide_def split_beta Let_def)
qed

lemma hook_timer_inv:
  assumes "claim_inv h"
  shows "claim_inv (hook_timer tm now h)"
proof (cases "broker_fire tm now (hk_broker h)")
  case (Some b)
  have inv: "broker_inv (hk_broker h)" using assms by (simp add: claim_inv_def)
  from Some have tm: "tm \<in> set (bk_timers (hk_broker h))"
    and b: "b = (hk_broker h)\<lparr>bk_timers := remove1 tm (bk_timers (hk_broker h)),
                              bk_pending := js_delete (fst tm) (bk_pending (hk_broker h))\<rparr>"
    by (auto simp: broker_fire_def split: if_splits)
  have "fst tm \<in> fst ` set (bk_timers (hk_broker h))" using tm by simp
  then obtain a where "map_of (bk_pending (hk_broker h)) (fst tm) = Some a" "pa_decision a \<noteq> None"
    using broker_invD(2) [OF inv] by blast
  then have "map_of (bk_waiters (hk_broker h)) (fst tm) = None" using undecided_iff_waiting [OF inv] by blast
  then have "claim_inv (h\<lparr>hk_broker := b\<rparr>)"
    by (intro claim_inv_shrink [OF assms broker_fire_inv [OF inv Some]]) (auto simp: b broker_get_def)
  with Some show ?thesis by (simp add: hook_timer_def)
qed (use assms in \<open>simp add: hook_timer_def\<close>)

lemma open_request_inv:
  assumes "claim_inv h" "pa_decision a = None"
  shows "claim_inv (snd (snd (open_request k a owner h)))"
proof (cases "js_has (bk_pending (hk_broker h)) (pa_toolUseId a)")
  case True
  then show ?thesis using assms by (simp add: open_request_def broker_open_def)
next
  case False
  let ?w = "\<lparr>hw_sock = k, hw_owner = owner, hw_tool = pa_toolUseId a\<rparr>"
  let ?b = "snd (snd (broker_open a ?w (hk_broker h)))"
  have binv: "broker_inv (hk_broker h)" using assms by (simp add: claim_inv_def)
  have b: "bk_waiters ?b = js_set (pa_toolUseId a) ?w (bk_waiters (hk_broker h))"
    "bk_pending ?b = js_set (pa_toolUseId a) a (bk_pending (hk_broker h))"
    using False by (simp_all add: broker_open_def)
  have inv: "broker_inv ?b" by (rule broker_open_inv [OF binv assms(2)])
  let ?h = "snd (snd (open_request k a owner h))"
  have h: "hk_broker ?h = ?b" and claimed: "set (hk_claimed h x) \<subseteq> set (hk_claimed ?h x)"
    and own: "bindable (pa_description a) \<Longrightarrow> pa_toolUseId a \<in> set (hk_claimed ?h k)" for x
    using False by (auto simp: open_request_def broker_open_def Let_def)
  have "hw_tool w = i \<and> (i \<in> set (hk_claimed ?h (hw_sock w)) \<or> (\<exists>a. broker_get i ?b = Some a \<and> \<not> bindable (pa_description a)))"
    if w: "map_of (bk_waiters ?b) i = Some w" for i w
  proof (cases "i = pa_toolUseId a")
    case True
    with w b own show ?thesis by (auto simp: broker_get_def)
  next
    case False
    with w b have "map_of (bk_waiters (hk_broker h)) i = Some w" by simp
    with assms(1) have "hw_tool w = i \<and> (i \<in> set (hk_claimed h (hw_sock w))
        \<or> (\<exists>a. broker_get i (hk_broker h) = Some a \<and> \<not> bindable (pa_description a)))"
      unfolding claim_inv_def by blast
    with False b claimed show ?thesis by (auto simp: broker_get_def)
  qed
  with inv show ?thesis unfolding claim_inv_def h by blast
qed

lemma request_undecided: "pa_decision (fst (request_approval ss sd now msg)) = None"
  by (simp add: request_approval_def Let_def)

lemma hook_line_inv:
  "claim_inv h \<Longrightarrow> hook_line parse ss sd now k l h = Inr (es, h1) \<Longrightarrow> claim_inv h1"
  by (auto simp: hook_line_def split_beta Let_def dest: open_request_inv [OF _ request_undecided]
      split: if_splits option.splits) (metis open_request_inv request_undecided snd_conv)

lemma hook_lines_inv:
  "claim_inv h \<Longrightarrow> hook_lines parse ss sd now k ls h = Inr (es, h1) \<Longrightarrow> claim_inv h1"
  by (induction ls arbitrary: h es h1) (fastforce dest: hook_line_inv split: sum.splits)+

lemma claim_inv_buf [simp]: "claim_inv (h\<lparr>hk_buf := f\<rparr>) = claim_inv h"
  by (simp add: claim_inv_def)

lemma hook_data_inv:
  "claim_inv h \<Longrightarrow> hook_data parse ss sd now k chunk h = Inr (es, h1) \<Longrightarrow> claim_inv h1"
  by (auto simp: hook_data_def split_beta Let_def dest: hook_lines_inv [rotated] split: if_splits)

section \<open>Reachable states\<close>

text \<open>
  Data or a close on any socket, a decision by a client, a retention timer: in any order, with
  any sessions and any clock. A handler that throws ends the process and has no successor.
\<close>

inductive hook_reach :: "(string \<Rightarrow> json option) \<Rightarrow> HookServer \<Rightarrow> bool" for parse where
  hk_init: "hook_reach parse new_hook_server"
| hk_data: "hook_reach parse h \<Longrightarrow> hook_data parse ss sd now k chunk h = Inr (es, h1) \<Longrightarrow> hook_reach parse h1"
| hk_close: "hook_reach parse h \<Longrightarrow> hook_reach parse (snd (hook_close k now h))"
| hk_decide: "hook_reach parse h \<Longrightarrow> hook_reach parse (snd (snd (hook_decide i v reason who now h)))"
| hk_timer: "hook_reach parse h \<Longrightarrow> hook_reach parse (hook_timer tm now h)"

lemma reach_claim_inv: "hook_reach parse h \<Longrightarrow> claim_inv h"
  by (induction rule: hook_reach.induct)
    (auto intro: claim_inv_new hook_data_inv hook_close_inv hook_decide_inv hook_timer_inv)

lemma abandon_all_responds:
  "broker_inv b \<Longrightarrow> i \<in> set is \<Longrightarrow> map_of (bk_waiters b) i = Some w \<Longrightarrow>
     Respond w Deny ''request abandoned'' \<in> set (fst (abandon_all is t b))"
proof (induction "is" arbitrary: b)
  case (Cons j "is")
  obtain a where a: "map_of (bk_pending b) i = Some a" "pa_decision a = None"
    using broker_invD(1) [OF Cons.prems(1), of i] Cons.prems(3) by auto
  show ?case
  proof (cases "j = i")
    case True
    then show ?thesis using a Cons.prems(3) by (simp add: split_beta Let_def broker_abandon_def settle_def)
  next
    case False
    have "map_of (bk_waiters (snd (broker_abandon j t b))) i = Some w"
      using False Cons.prems(3) by (simp add: abandon_waiters [OF Cons.prems(1)])
    with Cons.IH [OF broker_abandon_inv [OF Cons.prems(1)]] Cons.prems(2) False show ?thesis
      by (auto simp: split_beta Let_def)
  qed
qed simp

section \<open>What is written to hook sockets\<close>

lemma hook_write_from:
  "Hook_write k v r \<in> set (hook_effects es) \<longleftrightarrow> (\<exists>w. Respond w v r \<in> set es \<and> hw_sock w = k)"
proof -
  have "Hook_write k v r \<in> set (hook_effects_of x) \<longleftrightarrow> (\<exists>w. x = Respond w v r \<and> hw_sock w = k)" for x
    by (cases x) (auto split: option.splits)
  then show ?thesis by (auto simp: hook_effects_def)
qed

lemma no_destroy: "Hook_destroy k \<notin> set (hook_effects es)"
proof -
  have "Hook_destroy k \<notin> set (hook_effects_of x)" for x by (cases x) (auto split: option.splits)
  then show ?thesis by (auto simp: hook_effects_def)
qed

lemma respond_decide:
  "Respond w v' r \<in> set (fst (snd (broker_decide i v reason who now b))) \<Longrightarrow> v' = v \<and> r = reason"
  by (auto simp: broker_decide_def settle_def Let_def split: option.splits if_splits)

lemma respond_abandon: "Respond w v r \<in> set (fst (broker_abandon i now b)) \<Longrightarrow> v = Deny"
  by (auto simp: broker_abandon_def settle_def Let_def split: option.splits if_splits)

lemma respond_abandon_all: "Respond w v r \<in> set (fst (abandon_all is now b)) \<Longrightarrow> v = Deny"
  by (induction "is" arbitrary: b) (auto simp: split_beta Let_def dest: respond_abandon)

lemma respond_open: "Respond w v r \<notin> set (fst (snd (broker_open a x b)))"
  by (auto simp: broker_open_def split: if_splits option.splits)

lemma open_request_writes_deny:
  "Hook_write j v r \<in> set (fst (snd (open_request k a owner h))) \<Longrightarrow> v = Deny"
proof -
  obtain won es b where o: "broker_open a \<lparr>hw_sock = k, hw_owner = owner, hw_tool = pa_toolUseId a\<rparr> (hk_broker h) = (won, es, b)"
    by (rule prod_cases3)
  have "Hook_write j v r \<notin> set (hook_effects es)"
    using respond_open [of _ v r a "\<lparr>hw_sock = k, hw_owner = owner, hw_tool = pa_toolUseId a\<rparr>" "hk_broker h"] o
    by (simp add: hook_write_from)
  then show "Hook_write j v r \<in> set (fst (snd (open_request k a owner h))) \<Longrightarrow> v = Deny"
    using o by (auto simp: open_request_def Let_def split: if_splits option.splits)
qed

lemma hook_line_writes_deny:
  "hook_line parse ss sd now k l h = Inr (es, h1) \<Longrightarrow> Hook_write j v r \<in> set es \<Longrightarrow> v = Deny"
  using open_request_writes_deny [of j v r k "fst (request_approval ss sd now (the (parse l)))"
    "snd (request_approval ss sd now (the (parse l)))" h]
  by (auto simp: hook_line_def split_beta Let_def split: if_splits option.splits)

lemma hook_lines_write_deny:
  "hook_lines parse ss sd now k ls h = Inr (es, h1) \<Longrightarrow> Hook_write j v r \<in> set es \<Longrightarrow> v = Deny"
proof (induction ls arbitrary: h es)
  case (Cons l ls)
  then obtain es1 h2 es2 where "hook_line parse ss sd now k l h = Inr (es1, h2)"
    "hook_lines parse ss sd now k ls h2 = Inr (es2, h1)" "es = es1 @ es2" by (auto split: sum.splits)
  with Cons show ?case by (auto dest: hook_line_writes_deny)
qed simp

lemma hook_data_writes_deny:
  "hook_data parse ss sd now k chunk h = Inr (es, h1) \<Longrightarrow> Hook_write j v r \<in> set es \<Longrightarrow> v = Deny"
  by (auto simp: hook_data_def split_beta Let_def split: if_splits dest: hook_lines_write_deny)

lemma hook_close_writes_deny: "Hook_write j v r \<in> set (fst (hook_close k now h)) \<Longrightarrow> v = Deny"
  by (auto simp: hook_close_def split_beta Let_def hook_write_from dest: respond_abandon_all)

section \<open>Who is on record as the decider\<close>

definition broker_by :: "string \<Rightarrow> 'w ApprovalBroker \<Rightarrow> bool" where
  "broker_by who b \<longleftrightarrow> (\<exists>i a d. map_of (bk_pending b) i = Some a \<and> pa_decision a = Some d \<and> d_by d = who)"

definition effects_by :: "string \<Rightarrow> hook_effect list \<Rightarrow> bool" where
  "effects_by who xs \<longleftrightarrow> (\<exists>a d. Db_decided a \<in> set xs \<and> pa_decision a = Some d \<and> d_by d = who)"

lemma effects_by_append [simp]: "effects_by who (xs @ ys) \<longleftrightarrow> effects_by who xs \<or> effects_by who ys"
  by (auto simp: effects_by_def)

lemma effects_by_Nil [simp]: "\<not> effects_by who []"
  by (simp add: effects_by_def)

lemma effects_by_hooks:
  "effects_by who (hook_effects es) \<longleftrightarrow> (\<exists>a d. Emit_resolved a \<in> set es \<and> pa_decision a = Some d \<and> d_by d = who)"
proof -
  have "Db_decided a \<in> set (hook_effects_of x) \<longleftrightarrow> x = Emit_resolved a \<and> pa_decision a \<noteq> None" for x a
    by (cases x; cases "pa_decision a") (auto split: option.splits)
  then show ?thesis by (fastforce simp: effects_by_def hook_effects_def)
qed

lemma settle_by:
  "broker_by who (snd (settle i a d now b)) \<Longrightarrow> broker_by who b \<or> d_by d = who"
  by (auto simp: broker_by_def settle_fields split: if_splits)

lemma settle_effects_by: "effects_by who (hook_effects (fst (settle i a d now b))) \<longleftrightarrow> d_by d = who"
  by (auto simp: effects_by_hooks settle_def Let_def split: option.splits)

lemma hook_decide_by:
  assumes "hook_decide i v reason who now h = (oc, xs, h1)"
  shows "broker_by x (hk_broker h1) \<Longrightarrow> broker_by x (hk_broker h) \<or> x = who"
    and "effects_by x xs \<Longrightarrow> x = who"
  using assms settle_by [of x i] settle_effects_by [of x i]
  by (fastforce simp: hook_decide_def broker_decide_def effects_by_hooks split_beta Let_def split: option.splits if_splits)+

lemma abandon_by:
  "broker_by x (snd (broker_abandon i now b)) \<Longrightarrow> broker_by x b \<or> x = ''daemon''"
  "effects_by x (hook_effects (fst (broker_abandon i now b))) \<Longrightarrow> x = ''daemon''"
  using settle_by [of x i] settle_effects_by [of x i]
  by (fastforce simp: broker_abandon_def effects_by_hooks split: option.splits if_splits)+

lemma hook_effects_append: "hook_effects (es @ fs) = hook_effects es @ hook_effects fs"
  by (simp add: hook_effects_def)

lemma abandon_all_by:
  "(broker_by x (snd (abandon_all is now b)) \<longrightarrow> broker_by x b \<or> x = ''daemon'')
   \<and> (effects_by x (hook_effects (fst (abandon_all is now b))) \<longrightarrow> x = ''daemon'')"
proof (induction "is" arbitrary: b)
  case (Cons i "is")
  then show ?case using abandon_by [of x i now b]
    by (auto simp: split_beta Let_def hook_effects_append)
qed (simp add: hook_effects_def)

lemma hook_close_by:
  assumes "hook_close k now h = (xs, h1)"
  shows "broker_by x (hk_broker h1) \<Longrightarrow> broker_by x (hk_broker h) \<or> x = ''daemon''"
    and "effects_by x xs \<Longrightarrow> x = ''daemon''"
  using assms abandon_all_by [of x "hk_claimed h k" now "hk_broker h"]
  by (auto simp: hook_close_def split_beta Let_def)

lemma hook_timer_by: "broker_by x (hk_broker (hook_timer tm now h)) \<Longrightarrow> broker_by x (hk_broker h)"
  by (fastforce simp: hook_timer_def broker_fire_def broker_by_def split: option.splits if_splits)

lemma open_request_by:
  assumes "pa_decision a = None"
  shows "broker_by x (hk_broker (snd (snd (open_request k a owner h)))) \<Longrightarrow> broker_by x (hk_broker h)"
    and "\<not> effects_by x (fst (snd (open_request k a owner h)))"
  using assms by (auto simp: open_request_def broker_open_def broker_by_def effects_by_def hook_effects_def
      Let_def split_beta split: if_splits option.splits)

lemma hook_line_by:
  assumes "hook_line parse ss sd now k l h = Inr (xs, h1)"
  shows "(broker_by x (hk_broker h1) \<longrightarrow> broker_by x (hk_broker h)) \<and> \<not> effects_by x xs"
proof -
  have "pa_decision (fst (request_approval ss sd now msg)) = None" for msg
    by (simp add: request_approval_def Let_def)
  note o = open_request_by [OF this, of x]
  show ?thesis using assms o(1) o(2)
    by (auto simp: hook_line_def split_beta Let_def split: if_splits option.splits) (metis fst_conv snd_conv)+
qed

lemma hook_data_by:
  assumes "hook_data parse ss sd now k chunk h = Inr (xs, h1)"
  shows "(broker_by x (hk_broker h1) \<longrightarrow> broker_by x (hk_broker h)) \<and> \<not> effects_by x xs"
proof -
  have l: "hook_lines parse ss sd now k ls g = Inr (xs, h1) \<Longrightarrow>
      (broker_by x (hk_broker h1) \<longrightarrow> broker_by x (hk_broker g)) \<and> \<not> effects_by x xs" for ls g xs
  proof (induction ls arbitrary: g xs)
    case (Cons l ls)
    then obtain es1 h2 es2 where "hook_line parse ss sd now k l g = Inr (es1, h2)"
      "hook_lines parse ss sd now k ls h2 = Inr (es2, h1)" "xs = es1 @ es2" by (auto split: sum.splits)
    with Cons.IH [of h2 es2] hook_line_by [of parse ss sd now k l g es1 h2 x] show ?case by simp
  qed simp
  show ?thesis using assms l by (fastforce simp: hook_data_def effects_by_def split_beta Let_def split: if_splits)
qed

section \<open>Properties\<close>

text \<open>
  C20: No approval outlives the hook that waits for it. In every reachable state, when a hook
  socket closes, every request that is still waiting on that socket is answered with a denial
  and nothing is left waiting on it, provided its request could be recorded; requests that
  wait on other sockets and were not claimed by this one keep waiting.
\<close>

theorem hook_close_denies_its_requests:
  assumes "hook_reach parse h" "hook_close k now h = (es, h1)"
  shows "(\<forall>i w. map_of (bk_waiters (hk_broker h1)) i = Some w \<and> hw_sock w = k \<longrightarrow>
            (\<exists>a. broker_get i (hk_broker h1) = Some a \<and> \<not> bindable (pa_description a)))
    \<and> (\<forall>i w. map_of (bk_waiters (hk_broker h)) i = Some w \<and> i \<in> set (hk_claimed h k) \<longrightarrow>
            Hook_write (hw_sock w) Deny ''request abandoned'' \<in> set es)
    \<and> (\<forall>i. i \<notin> set (hk_claimed h k) \<longrightarrow>
            map_of (bk_waiters (hk_broker h1)) i = map_of (bk_waiters (hk_broker h)) i)"
proof -
  have inv: "claim_inv h" and binv: "broker_inv (hk_broker h)"
    using reach_claim_inv [OF assms(1)] by (simp_all add: claim_inv_def)
  let ?r = "abandon_all (hk_claimed h k) now (hk_broker h)"
  have h1: "h1 = h\<lparr>hk_broker := snd ?r\<rparr>" and es: "es = hook_effects (fst ?r)"
    using assms(2) by (simp_all add: hook_close_def split_beta Let_def)
  have w: "map_of (bk_waiters (hk_broker h1)) = map_of (bk_waiters (hk_broker h)) |` (- set (hk_claimed h k))"
    using abandon_all_props [OF binv, of "hk_claimed h k" now] by (simp add: h1)
  have inv1: "claim_inv h1" using hook_close_inv [OF inv, of k now] assms(2) by simp
  have 1: "\<exists>a. broker_get i (hk_broker h1) = Some a \<and> \<not> bindable (pa_description a)"
    if "map_of (bk_waiters (hk_broker h1)) i = Some x" "hw_sock x = k" for i x
  proof -
    have "i \<notin> set (hk_claimed h1 (hw_sock x))" using that w by (auto simp: h1 restrict_map_def split: if_splits)
    with inv1 that(1) show ?thesis unfolding claim_inv_def by blast
  qed
  have 2: "Hook_write (hw_sock x) Deny ''request abandoned'' \<in> set es"
    if "map_of (bk_waiters (hk_broker h)) i = Some x" "i \<in> set (hk_claimed h k)" for i x
    using abandon_all_responds [OF binv that(2,1), of now] by (force simp: es hook_effects_def)
  show ?thesis using 1 2 w by (auto simp: restrict_map_def)
qed

text \<open>A stand-in for the parser under which a line is the id of the tool call it requests.\<close>

definition example_parse :: "string \<Rightarrow> json option" where
  "example_parse l = Some (JObj [(''kind'', JStr ''approval_request''), (''event'', JObj [(''tool_use_id'', JStr l)])])"

definition example_server :: HookServer where
  "example_server = (case hook_data example_parse [] 600000 0 1 (''t'' @ [newline]) new_hook_server of
     Inr (_, h) \<Rightarrow> h | Inl _ \<Rightarrow> new_hook_server)"

lemmas hook_eval = hook_data_def MAX_HOOK_LINE_def feed_line_def line_loop.simps hook_line_def blank_def js_space_def
  is_str_def request_approval_def default_to_def sessionByClaudeId_def open_request_def
  hook_effects_def new_hook_server_def example_parse_def

lemma example_server_reach: "hook_reach example_parse example_server"
proof -
  have "\<exists>es. hook_data example_parse [] 600000 0 1 (''t'' @ [newline]) new_hook_server = Inr (es, example_server)"
    unfolding example_server_def by (simp add: hook_eval broker_eval set_add_def)
  then show ?thesis using hk_data [OF hk_init] by blast
qed

theorem hook_close_denies_its_requests_witness:
  "\<exists>w. map_of (bk_waiters (hk_broker example_server)) ''t'' = Some w
     \<and> Hook_write (hw_sock w) Deny ''request abandoned'' \<in> set (fst (hook_close 1 5 example_server))"
proof -
  have "\<exists>w. map_of (bk_waiters (hk_broker example_server)) ''t'' = Some w" "''t'' \<in> set (hk_claimed example_server 1)"
    unfolding example_server_def by (simp_all add: hook_eval broker_eval set_add_def)
  with hook_close_denies_its_requests [OF example_server_reach, of 1 5 "fst (hook_close 1 5 example_server)"
      "snd (hook_close 1 5 example_server)"]
  show ?thesis by auto
qed

text \<open>
  A second request for a tool call that is already tracked is denied on its own socket and
  changes nothing: not the stored content, not the waiter, not what any socket has claimed. So
  the operator keeps seeing the first request and closing the second socket cannot deny it.
\<close>

theorem duplicate_request_denied:
  assumes "broker_get (pa_toolUseId a) (hk_broker h) = Some first"
  shows "open_request k a owner h =
    (True, [Hook_write k Deny ''duplicate tool_use_id already pending'', Hook_destroy k], h)"
  using assms by (simp add: open_request_def broker_open_def js_has_def broker_get_def)

theorem duplicate_request_denied_witness:
  "snd (open_request 2 (example_approval ''t'') None example_server) =
    ([Hook_write 2 Deny ''duplicate tool_use_id already pending'', Hook_destroy 2], example_server)"
proof -
  have "\<exists>a. broker_get (pa_toolUseId (example_approval ''t'')) (hk_broker example_server) = Some a"
    unfolding example_server_def by (simp add: hook_eval broker_eval broker_get_def)
  then show ?thesis using duplicate_request_denied by force
qed

text \<open>
  Closing an old socket can deny somebody else's request. A socket keeps the ids it claimed
  after they are decided; when the first entry has aged out and a second socket opens a request
  under the same id, the close of the first socket abandons the second request, which is what
  the guard in \<^verbatim>\<open>abandon\<close> is said to prevent.
\<close>

theorem stale_claim_denies_new_request:
  "let h1 = snd (snd (open_request 1 (example_approval ''t'') None new_hook_server));
       h2 = snd (snd (hook_decide ''t'' Allow '''' ''phone'' 0 h1));
       h3 = hook_timer (''t'', 60000) 60000 h2;
       (ok, es4, h4) = open_request 2 (example_approval ''t'') None h3
   in Broadcast (Approval_pending (example_approval ''t'')) \<in> set es4
      \<and> Hook_write 2 Deny ''request abandoned'' \<in> set (fst (hook_close 1 70000 h4))"
  by (simp add: open_request_def hook_decide_def hook_timer_def hook_close_def hook_effects_def
      broker_eval new_hook_server_def set_add_def)

text \<open>
  A request whose description cannot be bound is stranded. The record of the request throws
  inside \<^verbatim>\<open>open\<close>, after the broker has claimed the id: the call is never announced, and since the
  socket did not record its claim, closing it leaves the request pending with its waiter.
\<close>

theorem unbindable_request_stranded:
  "let a = (example_approval ''t'')\<lparr>pa_description := Some (JArr [])\<rparr>;
       (ok, es, h1) = open_request 1 a None new_hook_server;
       (es2, h2) = hook_close 1 9 h1
   in \<not> ok \<and> es = [] \<and> es2 = [] \<and> broker_list (hk_broker h2) = [a]"
  by (simp add: open_request_def hook_close_def hook_effects_def broker_eval broker_list_def new_hook_server_def)

text \<open>
  A line \<^verbatim>\<open>null\<close> on the hook socket throws outside the guard. Every other line leaves the
  daemon running: the handler of one line fails only for a line that parses to null.
\<close>

theorem hook_line_throws_iff_null:
  "(\<exists>err. hook_line parse ss sd now k line h = Inl err) \<longleftrightarrow> \<not> blank line \<and> parse line = Some JNull"
  by (auto simp: hook_line_def split_beta Let_def split: option.split)

end
