(* ===== verification/Pairing.thy ===== *)
theory Pairing
  imports Types
begin

text \<open>
  Device trust: \<^verbatim>\<open>packages/daemon/src/infrastructure/pairing.ts\<close>, the proof of
  \<^verbatim>\<open>packages/protocol/src/pairing-proof.ts\<close> and the pairing code of \<^verbatim>\<open>pairCode.ts\<close>. The keyed hash
  (HMAC-SHA256 in base64), the derivation of the public from the private key and fresh random
  values are arguments. The store file is part of the state: \<open>id_stored\<close> is the list of devices
  last written to it. The clock is the argument \<open>now\<close>, in milliseconds.
\<close>

section \<open>Proof and payload\<close>

definition pairingProof :: "(string \<Rightarrow> string \<Rightarrow> string) \<Rightarrow> string \<Rightarrow> string \<Rightarrow> string \<Rightarrow> string" where
  "pairingProof hmac secret devicePublicKey daemonPublicKey = hmac secret (devicePublicKey @ daemonPublicKey)"

text \<open>Equality of byte strings, with the early return on different lengths.\<close>

fun bytes_equal :: "string \<Rightarrow> string \<Rightarrow> bool" where
  "bytes_equal (a # as) (b # bs) = (a = b \<and> bytes_equal as bs)"
| "bytes_equal as bs = (as = [] \<and> bs = [])"

definition constantTimeEqual :: "string \<Rightarrow> string \<Rightarrow> bool" where
  "constantTimeEqual a b = (if length a \<noteq> length b then False else bytes_equal a b)"

record PairPayload =
  pp_v :: int
  pp_addr :: string
  pp_pk :: string
  pp_s :: string

definition payload_json :: "PairPayload \<Rightarrow> json" where
  "payload_json p = JObj [(''v'', JNum (Fin (of_int (pp_v p)))), (''addr'', JStr (pp_addr p)),
     (''pk'', JStr (pp_pk p)), (''s'', JStr (pp_s p))]"

datatype payload_error = Not_a_code | Missing_fields

text \<open>
  \<^verbatim>\<open>parsePairPayload\<close> on the parse of the text (\<open>None\<close>: not JSON). It checks the three strings and
  returns the value as it is; the version is not checked, so the result keeps the JSON value.
\<close>

definition parsePairPayload :: "json option \<Rightarrow> payload_error + json" where
  "parsePairPayload parsed =
     (case parsed of
        None \<Rightarrow> Inl Not_a_code
      | Some v \<Rightarrow>
          (case (field ''pk'' (Some v), field ''s'' (Some v), field ''addr'' (Some v)) of
             (Some (JStr _), Some (JStr _), Some (JStr _)) \<Rightarrow> Inr v
           | _ \<Rightarrow> Inl Missing_fields))"

text \<open>The regular expression \<^verbatim>\<open>/^tcp:\/\/(.+)$/\<close>; a dot matches anything but a line break.\<close>

definition tcpTargetFromAddr :: "string \<Rightarrow> string option" where
  "tcpTargetFromAddr addr =
     (let rest = drop 6 addr
      in if take 6 addr = ''tcp://'' \<and> rest \<noteq> [] \<and> CHR 0x0A \<notin> set rest \<and> CHR 0x0D \<notin> set rest
         then Some rest else None)"

section \<open>Identity\<close>

record PairedDevice =
  pd_deviceId :: string
  pd_name :: string
  pd_publicKey :: string
  pd_pairedAt :: int

record Identity =
  id_privateKey :: string
  id_publicKey :: string
  id_devices :: "PairedDevice list"
  id_pending :: "(string \<times> int) option"
  id_stored :: "PairedDevice list"

definition PAIRING_TTL_MS :: int where "PAIRING_TTL_MS = 3 * 60 * 1000"

definition persist :: "Identity \<Rightarrow> Identity" where
  "persist i = i\<lparr>id_stored := id_devices i\<rparr>"

text \<open>
  What reading the store gives: no such file, any other failure of reading or parsing, or the
  parsed value with its private key (if it is there and not empty) and its devices.
\<close>

datatype store_read =
    Enoent
  | Unreadable string
  | Store_value "string option" "PairedDevice list option"

datatype load_error = Store_unreadable string | Missing_private_key

definition load_identity :: "(string \<Rightarrow> string) \<Rightarrow> string \<Rightarrow> store_read \<Rightarrow> load_error + Identity" where
  "load_identity public_of fresh r =
     (case r of
        Enoent \<Rightarrow> Inr (persist \<lparr>id_privateKey = fresh, id_publicKey = public_of fresh, id_devices = [],
                     id_pending = None, id_stored = []\<rparr>)
      | Unreadable msg \<Rightarrow> Inl (Store_unreadable msg)
      | Store_value pk devs \<Rightarrow>
          (case pk of
             None \<Rightarrow> Inl Missing_private_key
           | Some k \<Rightarrow> if k = [] then Inl Missing_private_key
               else (let ds = (case devs of None \<Rightarrow> [] | Some ds \<Rightarrow> ds)
                     in Inr \<lparr>id_privateKey = k, id_publicKey = public_of k, id_devices = ds,
                             id_pending = None, id_stored = ds\<rparr>)))"

definition pairedCount :: "Identity \<Rightarrow> nat" where
  "pairedCount i = length (id_devices i)"

definition beginPairing :: "string \<Rightarrow> string \<Rightarrow> int \<Rightarrow> Identity \<Rightarrow> (PairPayload \<times> int) \<times> Identity" where
  "beginPairing address secret now i =
     (let expiresAt = now + PAIRING_TTL_MS
      in ((\<lparr>pp_v = 1, pp_addr = address, pp_pk = id_publicKey i, pp_s = secret\<rparr>, expiresAt),
          i\<lparr>id_pending := Some (secret, expiresAt)\<rparr>))"

datatype PairingFailure = No_pending_pairing | Expired | Bad_proof

definition completePairing :: "(string \<Rightarrow> string \<Rightarrow> string) \<Rightarrow> string \<Rightarrow> string \<Rightarrow> string \<Rightarrow> string \<Rightarrow> int \<Rightarrow>
    Identity \<Rightarrow> (PairingFailure + PairedDevice) \<times> Identity" where
  "completePairing hmac devicePublicKey deviceName proof freshId now i =
     (case id_pending i of
        None \<Rightarrow> (Inl No_pending_pairing, i)
      | Some (secret, expiresAt) \<Rightarrow>
          if expiresAt < now then (Inl Expired, i)
          else if \<not> constantTimeEqual proof (pairingProof hmac secret devicePublicKey (id_publicKey i))
          then (Inl Bad_proof, i)
          else (let device = \<lparr>pd_deviceId = freshId, pd_name = deviceName, pd_publicKey = devicePublicKey,
                              pd_pairedAt = now\<rparr>
                in (Inr device, persist (i\<lparr>id_pending := None, id_devices := id_devices i @ [device]\<rparr>))))"

definition find_device :: "string \<Rightarrow> Identity \<Rightarrow> PairedDevice option" where
  "find_device deviceId i = List.find (\<lambda>d. pd_deviceId d = deviceId) (id_devices i)"

definition revoke_device :: "string \<Rightarrow> Identity \<Rightarrow> bool \<times> Identity" where
  "revoke_device deviceId i =
     (let ds = filter (\<lambda>d. pd_deviceId d \<noteq> deviceId) (id_devices i)
      in if length ds = length (id_devices i) then (False, i\<lparr>id_devices := ds\<rparr>)
         else (True, persist (i\<lparr>id_devices := ds\<rparr>)))"

section \<open>Laws\<close>

lemma bytes_equal_iff [simp]: "bytes_equal a b \<longleftrightarrow> a = b"
  by (induction a b rule: bytes_equal.induct) auto

lemma constantTimeEqual_iff [simp]: "constantTimeEqual a b \<longleftrightarrow> a = b"
  by (auto simp: constantTimeEqual_def)

lemma completePairing_ok_iff:
  "(\<exists>d j. completePairing hmac pk name proof fid now i = (Inr d, j)) \<longleftrightarrow>
     (\<exists>secret expiry. id_pending i = Some (secret, expiry) \<and> now \<le> expiry
        \<and> proof = pairingProof hmac secret pk (id_publicKey i))"
  by (auto simp: completePairing_def Let_def split: option.split)

lemma completePairing_Inl: "completePairing hmac pk name proof fid now i = (Inl r, j) \<Longrightarrow> j = i"
  by (auto simp: completePairing_def Let_def split: option.splits if_splits)

section \<open>Runs\<close>

datatype pair_op =
    Begin string string int
  | Complete string string string string int
  | RevokeDev string

text \<open>
  One operation; for a completed pairing also the secret that was burnt, the time and the new
  device.
\<close>

fun pair_step :: "(string \<Rightarrow> string \<Rightarrow> string) \<Rightarrow> pair_op \<Rightarrow> Identity \<Rightarrow>
    (string \<times> int \<times> PairedDevice) list \<times> Identity" where
  "pair_step hmac (Begin address secret now) i = ([], snd (beginPairing address secret now i))"
| "pair_step hmac (Complete pk name proof fid now) i =
     (case completePairing hmac pk name proof fid now i of
        (Inl _, j) \<Rightarrow> ([], j)
      | (Inr d, j) \<Rightarrow> ([(fst (the (id_pending i)), now, d)], j))"
| "pair_step hmac (RevokeDev d) i = ([], snd (revoke_device d i))"

fun pair_run :: "(string \<Rightarrow> string \<Rightarrow> string) \<Rightarrow> pair_op list \<Rightarrow> Identity \<Rightarrow>
    (string \<times> int \<times> PairedDevice) list \<times> Identity" where
  "pair_run hmac [] i = ([], i)"
| "pair_run hmac (x # xs) i =
     (let (ps, j) = pair_step hmac x i; (qs, k) = pair_run hmac xs j in (ps @ qs, k))"

fun begun :: "pair_op list \<Rightarrow> (string \<times> int) list" where
  "begun [] = []"
| "begun (Begin _ secret now # xs) = (secret, now) # begun xs"
| "begun (_ # xs) = begun xs"

definition pending_start :: "Identity \<Rightarrow> (string \<times> int) list" where
  "pending_start i = (case id_pending i of None \<Rightarrow> [] | Some (s, e) \<Rightarrow> [(s, e - PAIRING_TTL_MS)])"

lemma pair_run_secrets:
  "distinct (map fst (pending_start i @ begun ops)) \<Longrightarrow>
     distinct (map fst (fst (pair_run hmac ops i)))
     \<and> (\<forall>(s, t, d) \<in> set (fst (pair_run hmac ops i)).
          \<exists>t0. (s, t0) \<in> set (pending_start i @ begun ops) \<and> t \<le> t0 + PAIRING_TTL_MS)"
proof (induction ops arbitrary: i)
  case (Cons x ops)
  show ?case
  proof (cases x)
    case (Begin address secret now)
    let ?j = "snd (beginPairing address secret now i)"
    have j: "pending_start ?j = [(secret, now)]" by (simp add: beginPairing_def pending_start_def Let_def)
    have "distinct (map fst (pending_start ?j @ begun ops))" using Cons.prems Begin j by auto
    from Cons.IH [OF this] j show ?thesis by (simp add: Begin split_beta Let_def) blast
  next
    case (Complete pk name pr fid now)
    show ?thesis
    proof (cases "completePairing hmac pk name pr fid now i")
      case (Pair r j)
      show ?thesis
      proof (cases r)
        case (Inl e)
        with Pair have "j = i" by (auto dest: completePairing_Inl)
        with Cons Complete Pair Inl show ?thesis by (simp add: split_beta)
      next
        case (Inr d)
        then obtain secret expiry where p: "id_pending i = Some (secret, expiry)" "now \<le> expiry" "id_pending j = None"
          using Pair by (auto simp: completePairing_def persist_def Let_def split: option.splits if_splits)
        have "distinct (map fst (pending_start j @ begun ops))" using Cons.prems Complete p by (simp add: pending_start_def)
        from Cons.IH [OF this] have IH: "distinct (map fst (fst (pair_run hmac ops j)))"
          "\<forall>(s, t, d) \<in> set (fst (pair_run hmac ops j)). \<exists>t0. (s, t0) \<in> set (begun ops) \<and> t \<le> t0 + PAIRING_TTL_MS"
          using p by (simp_all add: pending_start_def)
        moreover have "secret \<notin> fst ` set (begun ops)" using Cons.prems Complete p by (auto simp: image_iff pending_start_def)
        then have "secret \<notin> fst ` set (fst (pair_run hmac ops j))" using IH(2) by (fastforce simp: image_iff)
        ultimately show ?thesis using Complete Pair Inr p by (auto simp: split_beta pending_start_def)
      qed
    qed
  next
    case (RevokeDev d)
    have j: "pending_start (snd (revoke_device d i)) = pending_start i"
      by (simp add: revoke_device_def persist_def pending_start_def Let_def)
    have "distinct (map fst (pending_start (snd (revoke_device d i)) @ begun ops))"
      using Cons.prems unfolding j by (simp add: RevokeDev)
    from Cons.IH [OF this] show ?thesis unfolding j by (simp add: RevokeDev split_beta Let_def)
  qed
qed simp

lemma pair_step_stored: "id_stored i = id_devices i \<Longrightarrow> id_stored (snd (pair_step hmac x i)) = id_devices (snd (pair_step hmac x i))"
  by (cases x) (auto simp: beginPairing_def completePairing_def revoke_device_def persist_def Let_def
      length_filter_id split: option.split sum.split if_splits)

lemma pair_run_stored: "id_stored i = id_devices i \<Longrightarrow> id_stored (snd (pair_run hmac ops i)) = id_devices (snd (pair_run hmac ops i))"
  by (induction ops arbitrary: i) (simp_all add: split_beta Let_def pair_step_stored)

definition fresh_identity :: "string \<Rightarrow> Identity" where
  "fresh_identity pk = \<lparr>id_privateKey = [], id_publicKey = pk, id_devices = [], id_pending = None, id_stored = []\<rparr>"

section \<open>Properties\<close>

text \<open>
  C23: A pairing secret is one-time and short-lived. In any sequence of pairing attempts and
  revocations in which the generated secrets are distinct, no secret ever pairs two devices,
  and every pairing used a secret that was shown at most three minutes before.
\<close>

theorem pairing_secret_one_time:
  assumes "distinct (map fst (begun ops))" "id_pending i = None"
  shows "distinct (map fst (fst (pair_run hmac ops i)))
    \<and> (\<forall>(secret, t, device) \<in> set (fst (pair_run hmac ops i)).
         \<exists>t0. (secret, t0) \<in> set (begun ops) \<and> t \<le> t0 + 180000)"
  using pair_run_secrets [of i ops hmac] assms by (simp add: PAIRING_TTL_MS_def pending_start_def)

theorem pairing_secret_one_time_witness:
  "let ops = [Begin ''a'' ''s1'' 0, Complete ''pk'' ''phone'' ''s1pkD'' ''d1'' 1000,
              Complete ''pk2'' ''evil'' ''s1pk2D'' ''d2'' 1001]
   in map fst (fst (pair_run (@) ops (fresh_identity ''D''))) = [''s1'']
      \<and> distinct (map fst (fst (pair_run (@) ops (fresh_identity ''D''))))"
  using pairing_secret_one_time [of "[Begin ''a'' ''s1'' 0, Complete ''pk'' ''phone'' ''s1pkD'' ''d1'' 1000,
              Complete ''pk2'' ''evil'' ''s1pk2D'' ''d2'' 1001]" "fresh_identity ''D''" "(@)"]
  by (simp add: fresh_identity_def completePairing_def beginPairing_def pairingProof_def persist_def
      PAIRING_TTL_MS_def Let_def)

text \<open>
  What a pairing proves. An attempt succeeds exactly when a secret is pending, it has not
  expired, and the proof is the keyed hash of the two public keys under that secret; then the
  secret is gone, the device is trusted under its new id, and the store file holds the new
  list. A refused attempt changes nothing, so a wrong proof does not burn the secret.
\<close>

theorem completePairing_spec:
  "case completePairing hmac pk name proof fid now i of
     (Inr device, j) \<Rightarrow>
       (\<exists>secret expiry. id_pending i = Some (secret, expiry) \<and> now \<le> expiry
          \<and> proof = hmac secret (pk @ id_publicKey i))
       \<and> id_pending j = None \<and> id_devices j = id_devices i @ [device] \<and> id_stored j = id_devices j
       \<and> pd_publicKey device = pk \<and> pd_deviceId device = fid
   | (Inl reason, j) \<Rightarrow> j = i \<and>
       (reason = No_pending_pairing \<longleftrightarrow> id_pending i = None) \<and>
       (reason = Expired \<longleftrightarrow> (\<exists>secret expiry. id_pending i = Some (secret, expiry) \<and> expiry < now))"
  by (auto simp: completePairing_def pairingProof_def persist_def Let_def split: option.split)

text \<open>
  Revocation is final and durable. After a revoke the device is not found, every other
  device is, and the answer says whether the device was known; and after any sequence of
  operations the store file holds exactly the devices in memory.
\<close>

theorem revoke_forgets_device:
  "find_device d (snd (revoke_device d i)) = None
   \<and> (fst (revoke_device d i) \<longleftrightarrow> find_device d i \<noteq> None)
   \<and> filter (\<lambda>e. pd_deviceId e \<noteq> d) (id_devices i) = id_devices (snd (revoke_device d i))
   \<and> id_stored (snd (pair_run hmac ops (fresh_identity pk))) = id_devices (snd (pair_run hmac ops (fresh_identity pk)))"
proof -
  have "fst (revoke_device d i) \<longleftrightarrow> find_device d i \<noteq> None"
    by (auto simp: revoke_device_def find_device_def Let_def find_None_iff length_filter_id filter_id_conv
        simp del: not_None_eq)
  moreover have "find_device d (snd (revoke_device d i)) = None"
    by (auto simp: revoke_device_def find_device_def Let_def persist_def find_None_iff)
  moreover have "id_devices (snd (revoke_device d i)) = filter (\<lambda>e. pd_deviceId e \<noteq> d) (id_devices i)"
    by (simp add: revoke_device_def Let_def persist_def)
  ultimately show ?thesis by (simp add: pair_run_stored fresh_identity_def)
qed

text \<open>
  The identity is never silently replaced. Loading creates a new key only when there is no
  store file; an unreadable, unparseable or incomplete store is an error, and an existing one
  is loaded with the public key derived from its private key and all its devices.
\<close>

theorem identity_never_regenerated:
  "case load_identity public_of fresh r of
     Inl _ \<Rightarrow> r \<noteq> Enoent
   | Inr i \<Rightarrow> id_publicKey i = public_of (id_privateKey i) \<and> id_stored i = id_devices i
       \<and> (r = Enoent \<and> id_privateKey i = fresh \<and> id_devices i = []
          \<or> (\<exists>k ds. r = Store_value (Some k) ds \<and> k \<noteq> [] \<and> id_privateKey i = k
               \<and> id_devices i = (case ds of None \<Rightarrow> [] | Some l \<Rightarrow> l)))"
  by (auto simp: load_identity_def persist_def Let_def split: store_read.split option.split)

text \<open>
  The pairing code survives its transport. The value the daemon encodes is accepted by the
  decoder both clients use, unchanged, and the network target is recovered from a \<^verbatim>\<open>tcp://\<close>
  address and only from one.
\<close>

theorem pair_payload_roundtrip:
  "parsePairPayload (Some (payload_json p)) = Inr (payload_json p)
   \<and> (tcpTargetFromAddr addr = Some target \<longleftrightarrow>
        addr = ''tcp://'' @ target \<and> target \<noteq> [] \<and> CHR 0x0A \<notin> set target \<and> CHR 0x0D \<notin> set target)"
proof -
  have "addr = ''tcp://'' @ target \<longleftrightarrow> take 6 addr = ''tcp://'' \<and> drop 6 addr = target"
    using append_eq_conv_conj [of "''tcp://''" target addr] by (auto simp: numeral_eq_Suc simp del: append.simps)
  moreover have "tcpTargetFromAddr addr = Some target \<longleftrightarrow>
      (take 6 addr = ''tcp://'' \<and> drop 6 addr = target) \<and> target \<noteq> [] \<and> CHR 0x0A \<notin> set target \<and> CHR 0x0D \<notin> set target"
    unfolding tcpTargetFromAddr_def Let_def by (auto split: if_splits)
  ultimately show ?thesis by (simp add: parsePairPayload_def payload_json_def del: append.simps)
qed

end
