(* ===== verification/Client.thy ===== *)
theory Client
  imports Sync Resend Framing
begin

text \<open>
  The reliable client, \<^verbatim>\<open>packages/protocol/src/client.ts\<close>, and its mobile host
  \<^verbatim>\<open>apps/mobile/src/core/protocol/clientController.ts\<close>. The crypto port is an argument: key
  derivation, sealing a command with a fresh nonce (numbered), opening a frame. Callbacks to the host
  are effects in order. The sequence number that \<^verbatim>\<open>nextSeq()\<close> returns is an argument of \<open>send\<close>.
\<close>

record 'k SessionCrypto =
  sc_deriveKey :: "string \<Rightarrow> 'k"
  sc_seal :: "nat \<Rightarrow> 'k \<Rightarrow> int \<Rightarrow> ClientCommand \<Rightarrow> Direction \<Rightarrow> SealedFrame"
  sc_open :: "'k \<Rightarrow> SealedFrame \<Rightarrow> Direction \<Rightarrow> ServerEvent option"

datatype Outbound = O_hello string "int option" | O_frame SealedFrame

datatype client_effect =
    Cb_ready bool nat
  | Cb_event ServerEvent int
  | Cb_ack int
  | Cb_helloRejected
  | Cb_authError

datatype client_error = Null_message | Resend_overflow

record 'k ReliableClient =
  rc_deviceId :: string
  rc_inb :: InboundStream
  rc_resend :: "ClientCommand ResendBuffer"
  rc_maxAcked :: int
  rc_key :: "'k option"
  rc_outbox :: "Outbound list"
  rc_nonce :: nat

text \<open>
  A decoded message as the client reads it: its \<^verbatim>\<open>type\<close>, the fields of a session salt, and the
  sealed frame when \<^verbatim>\<open>seq\<close> is a number.
\<close>

record server_message =
  sm_type :: "string option"
  sm_salt :: string
  sm_resumed :: bool
  sm_replayedCount :: "nat option"
  sm_frame :: "SealedFrame option"

definition new_client :: "string \<Rightarrow> 'k ReliableClient" where
  "new_client deviceId = \<lparr>rc_deviceId = deviceId, rc_inb = new_inbound,
     rc_resend = new_resend resend_default_capacity, rc_maxAcked = 0, rc_key = None, rc_outbox = [], rc_nonce = 0\<rparr>"

section \<open>Operations\<close>

definition onOpen :: "'k ReliableClient \<Rightarrow> 'k ReliableClient" where
  "onOpen c = c\<lparr>rc_outbox := rc_outbox c @
     [O_hello (rc_deviceId c) (if inbound_lastSeq (rc_inb c) > 0 then Some (inbound_lastSeq (rc_inb c)) else None)]\<rparr>"

text \<open>The resend loop: seal each pending command, one nonce each.\<close>

fun seal_all :: "'k SessionCrypto \<Rightarrow> 'k \<Rightarrow> nat \<Rightarrow> (int \<times> ClientCommand) list \<Rightarrow> Outbound list" where
  "seal_all cr k n [] = []"
| "seal_all cr k n ((s, cmd) # ps) = O_frame (sc_seal cr n k s cmd C2d) # seal_all cr k (Suc n) ps"

definition onSessionSalt :: "'k SessionCrypto \<Rightarrow> server_message \<Rightarrow> 'k ReliableClient \<Rightarrow>
    client_effect list \<times> 'k ReliableClient" where
  "onSessionSalt cr m c =
     (let k = sc_deriveKey cr (sm_salt m);
          ps = pending (rc_resend c)
      in ([Cb_ready (sm_resumed m) (case sm_replayedCount m of None \<Rightarrow> 0 | Some n \<Rightarrow> n)],
          c\<lparr>rc_key := Some k,
            rc_inb := (if sm_resumed m then rc_inb c else new_inbound),
            rc_outbox := rc_outbox c @ seal_all cr k (rc_nonce c) ps,
            rc_nonce := rc_nonce c + length ps\<rparr>))"

definition deliver :: "ServerEvent \<Rightarrow> int \<Rightarrow> 'k ReliableClient \<Rightarrow> client_effect list \<times> 'k ReliableClient" where
  "deliver ev seq c =
     (case ev of
        Ack upTo \<Rightarrow> ([Cb_ack upTo], c\<lparr>rc_maxAcked := max (rc_maxAcked c) upTo, rc_resend := ackUpTo upTo (rc_resend c)\<rparr>)
      | _ \<Rightarrow> ([Cb_event ev seq], c))"

definition onMessage :: "'k SessionCrypto \<Rightarrow> server_message option \<Rightarrow> 'k ReliableClient \<Rightarrow>
    client_error + client_effect list \<times> 'k ReliableClient" where
  "onMessage cr msg c =
     (case msg of
        None \<Rightarrow> Inl Null_message
      | Some m \<Rightarrow> Inr (
          case rc_key c of
            None \<Rightarrow>
              if sm_type m = Some ''hello_failed'' then ([Cb_helloRejected], c)
              else if sm_type m = Some ''session_salt'' then onSessionSalt cr m c
              else ([], c)
          | Some k \<Rightarrow>
              (case sm_frame m of
                 None \<Rightarrow> ([], c)
               | Some f \<Rightarrow>
                   (case sc_open cr k f D2c of
                      None \<Rightarrow> ([Cb_authError], c)
                    | Some ev \<Rightarrow>
                        (let (ok, inb1) = accept (rc_inb c) (fr_seq f)
                         in if \<not> ok then ([], c\<lparr>rc_inb := inb1\<rparr>)
                            else deliver ev (fr_seq f) (c\<lparr>rc_inb := inb1\<rparr>))))))"

definition client_send :: "'k SessionCrypto \<Rightarrow> int \<Rightarrow> ClientCommand \<Rightarrow> bool \<Rightarrow> 'k ReliableClient \<Rightarrow>
    (client_error + int) \<times> 'k ReliableClient" where
  "client_send cr seq command reliable c =
     (let (added, rb) = (if reliable then resend_add seq command (rc_resend c) else (True, rc_resend c))
      in if \<not> added then (Inl Resend_overflow, c\<lparr>rc_resend := rb\<rparr>)
         else (Inr seq,
           let c1 = c\<lparr>rc_resend := rb\<rparr>
           in case rc_key c of
                None \<Rightarrow> c1
              | Some k \<Rightarrow> c1\<lparr>rc_outbox := rc_outbox c @ [O_frame (sc_seal cr (rc_nonce c) k seq command C2d)],
                            rc_nonce := Suc (rc_nonce c)\<rparr>))"

definition onClose :: "'k ReliableClient \<Rightarrow> 'k ReliableClient" where
  "onClose c = c\<lparr>rc_key := None\<rparr>"

definition drain :: "'k ReliableClient \<Rightarrow> Outbound list \<times> 'k ReliableClient" where
  "drain c = (rc_outbox c, c\<lparr>rc_outbox := []\<rparr>)"

definition lastAcked :: "'k ReliableClient \<Rightarrow> int" where "lastAcked c = rc_maxAcked c"

definition resumeSeq :: "'k ReliableClient \<Rightarrow> int" where "resumeSeq c = inbound_lastSeq (rc_inb c)"

definition client_ready :: "'k ReliableClient \<Rightarrow> bool" where "client_ready c \<longleftrightarrow> rc_key c \<noteq> None"

section \<open>Runs\<close>

datatype client_input =
    C_open
  | C_message "server_message option"
  | C_send int ClientCommand bool
  | C_close
  | C_drain

text \<open>An input that throws has no effect on the client and is not observed further.\<close>

fun client_step :: "'k SessionCrypto \<Rightarrow> client_input \<Rightarrow> 'k ReliableClient \<Rightarrow>
    client_effect list \<times> 'k ReliableClient" where
  "client_step cr C_open c = ([], onOpen c)"
| "client_step cr (C_message m) c = (case onMessage cr m c of Inl _ \<Rightarrow> ([], c) | Inr r \<Rightarrow> r)"
| "client_step cr (C_send s cmd rel) c = ([], snd (client_send cr s cmd rel c))"
| "client_step cr C_close c = ([], onClose c)"
| "client_step cr C_drain c = ([], snd (drain c))"

fun client_run :: "'k SessionCrypto \<Rightarrow> client_input list \<Rightarrow> 'k ReliableClient \<Rightarrow>
    client_effect list \<times> 'k ReliableClient" where
  "client_run cr [] c = ([], c)"
| "client_run cr (x # xs) c =
     (let (es, c1) = client_step cr x c; (fs, c2) = client_run cr xs c1 in (es @ fs, c2))"

definition client_inv :: "'k ReliableClient \<Rightarrow> bool" where
  "client_inv c \<longleftrightarrow> resend_inv (rc_resend c) \<and> inbound_inv (rc_inb c)"

lemma client_inv_new [simp]: "client_inv (new_client d)"
  by (simp add: client_inv_def new_client_def)

section \<open>What stays in the resend buffer\<close>

definition acked_by :: "client_effect list \<Rightarrow> int \<Rightarrow> bool" where
  "acked_by es s \<longleftrightarrow> (\<exists>n. Cb_ack n \<in> set es \<and> s \<le> n)"

lemma acked_by_append [simp]: "acked_by (es @ fs) s \<longleftrightarrow> acked_by es s \<or> acked_by fs s" "\<not> acked_by [] s"
  by (auto simp: acked_by_def)

lemma deliver_unacked:
  "unacked (rc_resend (snd (deliver ev q c))) s =
     (if acked_by (fst (deliver ev q c)) s then None else unacked (rc_resend c) s)"
  by (cases ev) (simp_all add: deliver_def acked_by_def unacked_ack)

lemma onMessage_cases:
  assumes "onMessage cr (Some m) c = Inr r"
  obtains (quiet) es where "es \<in> {[], [Cb_helloRejected], [Cb_authError]}" "r = (es, c)"
  | (salt) "rc_key c = None" "r = onSessionSalt cr m c"
  | (duplicate) f where "sm_frame m = Some f" "r = ([], c\<lparr>rc_inb := snd (accept (rc_inb c) (fr_seq f))\<rparr>)"
  | (delivered) k f ev where "rc_key c = Some k" "sm_frame m = Some f" "sc_open cr k f D2c = Some ev"
      "fst (accept (rc_inb c) (fr_seq f))"
      "r = deliver ev (fr_seq f) (c\<lparr>rc_inb := snd (accept (rc_inb c) (fr_seq f))\<rparr>)"
proof (cases "rc_key c")
  case None
  then show thesis
    using assms quiet [of "[]"] quiet [of "[Cb_helloRejected]"] salt
    by (simp add: onMessage_def split: if_splits)
next
  case (Some k)
  show thesis
  proof (cases "sm_frame m")
    case None
    then show thesis using assms Some quiet [of "[]"] by (simp add: onMessage_def)
  next
    case (Some f)
    show thesis
    proof (cases "sc_open cr k f D2c")
      case None
      then show thesis using assms Some \<open>rc_key c = Some k\<close> quiet [of "[Cb_authError]"] by (simp add: onMessage_def)
    next
      case ev: (Some ev)
      then show thesis
        using assms Some \<open>rc_key c = Some k\<close> duplicate [OF Some] delivered [OF \<open>rc_key c = Some k\<close> Some ev]
        by (simp add: onMessage_def split_beta Let_def split: if_splits)
    qed
  qed
qed

lemma onMessage_unacked:
  assumes "onMessage cr (Some m) c = Inr r"
  shows "unacked (rc_resend (snd r)) s = (if acked_by (fst r) s then None else unacked (rc_resend c) s)"
  using assms
proof (cases rule: onMessage_cases)
  case (delivered k f ev)
  then show ?thesis by (simp add: deliver_unacked)
qed (auto simp: acked_by_def onSessionSalt_def Let_def)

fun sends_seq :: "int \<Rightarrow> client_input \<Rightarrow> bool" where
  "sends_seq s (C_send q _ _) = (q = s)"
| "sends_seq s _ = False"

lemma client_send_resend:
  "rc_resend (snd (client_send cr q cmd rel c)) = (if rel then snd (resend_add q cmd (rc_resend c)) else rc_resend c)"
  by (simp add: client_send_def Let_def split_beta resend_add_def split: option.split)

lemma client_step_unacked:
  assumes "\<not> sends_seq s x"
  shows "unacked (rc_resend (snd (client_step cr x c))) s =
    (if acked_by (fst (client_step cr x c)) s then None else unacked (rc_resend c) s)"
proof (cases x)
  case (C_message m)
  show ?thesis
  proof (cases m)
    case (Some m1)
    then obtain r where "onMessage cr m c = Inr r" by (simp add: onMessage_def)
    with onMessage_unacked [of cr m1 c r s] Some C_message show ?thesis by simp
  qed (simp add: C_message onMessage_def)
next
  case (C_send q cmd rel)
  then show ?thesis using assms by (simp add: client_send_resend resend_add_def unacked_def)
qed (simp_all add: onOpen_def onClose_def drain_def)

lemma client_run_unacked:
  "list_all (\<lambda>x. \<not> sends_seq s x) xs \<Longrightarrow>
     unacked (rc_resend (snd (client_run cr xs c))) s =
       (if acked_by (fst (client_run cr xs c)) s then None else unacked (rc_resend c) s)"
  by (induction xs arbitrary: c) (simp_all add: split_beta Let_def client_step_unacked)

lemma client_step_inv: "client_inv c \<Longrightarrow> client_inv (snd (client_step cr x c))"
proof (cases x)
  case (C_message m)
  assume inv: "client_inv c"
  have deliver: "client_inv c' \<Longrightarrow> client_inv (snd (deliver ev q c'))" for ev q and c' :: "'a ReliableClient"
    by (cases ev) (simp_all add: deliver_def client_inv_def resend_inv_ack)
  have "client_inv (snd r)" if "onMessage cr (Some m1) c = Inr r" for m1 r
    using that
  proof (cases rule: onMessage_cases)
    case (delivered k f ev)
    have "client_inv (c\<lparr>rc_inb := snd (accept (rc_inb c) (fr_seq f))\<rparr>)"
      using inv by (simp add: accept_inv client_inv_def)
    then show ?thesis unfolding delivered(5) by (rule deliver)
  qed (use inv in \<open>auto simp: onSessionSalt_def client_inv_def accept_inv Let_def\<close>)
  moreover have "onMessage cr None c = Inl Null_message" "\<exists>r. onMessage cr (Some m1) c = Inr r" for m1
    by (simp_all add: onMessage_def)
  ultimately show ?thesis using C_message inv by (cases m) (auto split: sum.split)
next
  case (C_send q cmd rel)
  assume inv: "client_inv c"
  have "rc_inb (snd (client_send cr q cmd rel c)) = rc_inb c"
    by (simp add: client_send_def Let_def split_beta split: option.split)
  with inv C_send show ?thesis by (simp add: client_inv_def client_send_resend resend_inv_add)
qed (simp_all add: onOpen_def onClose_def drain_def client_inv_def)

lemma client_run_inv: "client_inv c \<Longrightarrow> client_inv (snd (client_run cr xs c))"
  by (induction xs arbitrary: c) (simp_all add: split_beta Let_def client_step_inv)

lemma seal_all_frames:
  "list_all2 (\<lambda>p o1. \<exists>n. o1 = O_frame (sc_seal cr n k (fst p) (snd p) C2d)) ps (seal_all cr k n ps)"
  by (induction cr k n ps rule: seal_all.induct) auto

section \<open>The mobile host\<close>

record 'k ClientController =
  cc_client :: "'k ReliableClient"
  cc_buf :: string

text \<open>\<^verbatim>\<open>flush\<close>: every drained frame is written as one line; the written frames are a result.\<close>

definition flush :: "'k ClientController \<Rightarrow> Outbound list \<times> 'k ClientController" where
  "flush h = (let (os, c) = drain (cc_client h) in (os, h\<lparr>cc_client := c\<rparr>))"

definition connected :: "'k ClientController \<Rightarrow> Outbound list \<times> 'k ClientController" where
  "connected h = flush (h\<lparr>cc_client := onOpen (cc_client h)\<rparr>)"

definition disconnected :: "'k ClientController \<Rightarrow> 'k ClientController" where
  "disconnected h = h\<lparr>cc_client := onClose (cc_client h), cc_buf := []\<rparr>"

definition controller_send :: "'k SessionCrypto \<Rightarrow> int \<Rightarrow> ClientCommand \<Rightarrow> bool \<Rightarrow> 'k ClientController \<Rightarrow>
    client_error + (int \<times> Outbound list) \<times> 'k ClientController" where
  "controller_send cr seq command reliable h =
     (case client_send cr seq command reliable (cc_client h) of
        (Inl err, c) \<Rightarrow> Inl err
      | (Inr s, c) \<Rightarrow> (let (os, h1) = flush (h\<lparr>cc_client := c\<rparr>) in Inr ((s, os), h1)))"

text \<open>
  \<^verbatim>\<open>feed\<close>. The parse of a line is an argument: nothing, or a message (\<open>None\<close> for null). A null message
  throws out of the loop with the rest of the lines still buffered.
\<close>

fun feed_lines :: "'k SessionCrypto \<Rightarrow> (string \<Rightarrow> server_message option option) \<Rightarrow> string list \<Rightarrow> 'k ClientController \<Rightarrow>
    client_error option \<times> (client_effect list \<times> Outbound list) \<times> 'k ClientController" where
  "feed_lines cr parse [] h = (None, ([], []), h)"
| "feed_lines cr parse (l # ls) h =
     (if blank l then feed_lines cr parse ls h
      else case parse l of
             None \<Rightarrow> feed_lines cr parse ls h
           | Some m \<Rightarrow>
               (case onMessage cr m (cc_client h) of
                  Inl err \<Rightarrow>
                    (Some err, ([], []), h\<lparr>cc_buf := concat (map (\<lambda>l. l @ [newline]) ls) @ cc_buf h\<rparr>)
                | Inr (es, c) \<Rightarrow>
                    (let (os, h1) = flush (h\<lparr>cc_client := c\<rparr>);
                         (r, (fs, ps), h2) = feed_lines cr parse ls h1
                     in (r, (es @ fs, os @ ps), h2))))"

definition controller_feed :: "'k SessionCrypto \<Rightarrow> (string \<Rightarrow> server_message option option) \<Rightarrow> string \<Rightarrow>
    'k ClientController \<Rightarrow> client_error option \<times> (client_effect list \<times> Outbound list) \<times> 'k ClientController" where
  "controller_feed cr parse chunk h =
     (let (ls, rest) = feed_line (cc_buf h) chunk in feed_lines cr parse ls (h\<lparr>cc_buf := rest\<rparr>))"

section \<open>Properties\<close>

text \<open>
  C19: A reliable command is never dropped silently. Once \<^verbatim>\<open>send\<close> has accepted a reliable command,
  then whatever the host does afterwards (messages, further commands under other numbers,
  disconnections, reconnections, full resyncs), the command is in the resend buffer exactly until an
  authentic acknowledgement that covers its number has been reported to the host; and when
  \<^verbatim>\<open>send\<close> refuses it, it says so.
\<close>

theorem reliable_command_kept_until_acked:
  assumes "client_send cr s cmd True c = (r, c1)" "list_all (\<lambda>x. \<not> sends_seq s x) xs"
  shows "(r = Inr s \<longrightarrow> unacked (rc_resend (snd (client_run cr xs c1))) s =
      (if \<exists>n. Cb_ack n \<in> set (fst (client_run cr xs c1)) \<and> s \<le> n then None else Some cmd))
    \<and> (r = Inr s \<longleftrightarrow> \<not> isFull (rc_resend c)) \<and> (r = Inl Resend_overflow \<longleftrightarrow> isFull (rc_resend c))"
proof -
  have r: "r = Inr s \<longleftrightarrow> \<not> isFull (rc_resend c)" "r = Inl Resend_overflow \<longleftrightarrow> isFull (rc_resend c)"
    using assms(1) by (auto simp: client_send_def resend_add_def isFull_def Let_def split_beta split: if_splits)
  have "unacked (rc_resend c1) s = Some cmd" if "\<not> isFull (rc_resend c)"
    using that client_send_resend [of cr s cmd True c] assms(1) by (simp add: resend_add_def isFull_def unacked_def)
  with client_run_unacked [OF assms(2), of cr c1] r show ?thesis by (auto simp: acked_by_def)
qed

text \<open>A crypto port that seals to the number and opens every frame to an acknowledgement of 1.\<close>

definition example_crypto :: "nat SessionCrypto" where
  "example_crypto = \<lparr>sc_deriveKey = length,
     sc_seal = (\<lambda>n k s cmd d. \<lparr>fr_n = decimal n, fr_c = [], fr_t = [], fr_seq = s\<rparr>),
     sc_open = (\<lambda>k f d. Some (Ack 1))\<rparr>"

definition example_salt :: server_message where
  "example_salt = \<lparr>sm_type = Some ''session_salt'', sm_salt = ''c2FsdA'', sm_resumed = False,
     sm_replayedCount = None, sm_frame = None\<rparr>"

lemmas client_eval = client_send_def resend_add_def new_client_def new_resend_def resend_default_capacity_def
  js_set_def unacked_def example_crypto_def example_salt_def onMessage_def onSessionSalt_def onOpen_def onClose_def Let_def

theorem reliable_command_kept_until_acked_witness:
  "unacked (rc_resend (snd (client_run example_crypto [C_open, C_message (Some example_salt), C_close]
     (snd (client_send example_crypto 7 List_cmd True (new_client ''dev'')))))) 7 = Some List_cmd"
proof -
  let ?c = "snd (client_send example_crypto 7 List_cmd True (new_client ''dev''))"
  let ?xs = "[C_open, C_message (Some example_salt), C_close]"
  have s: "client_send example_crypto 7 List_cmd True (new_client ''dev'') = (Inr 7, ?c)"
    by (simp add: client_eval)
  have "\<not> (\<exists>n. Cb_ack n \<in> set (fst (client_run example_crypto ?xs ?c)) \<and> 7 \<le> n)"
    by (simp add: client_eval)
  with reliable_command_kept_until_acked [OF s, of ?xs] show ?thesis by simp
qed

text \<open>
  A reconnect resends everything unacknowledged, once each, oldest first, before anything
  else. In every state a client can reach, the session salt completes the handshake and queues,
  after what was already queued, exactly one frame per unacknowledged command, sealed under the
  new key at its original number, in strictly ascending order; then it reports ready. A resync
  forgets the old inbound numbers and a resume keeps them.
\<close>

theorem reconnect_resends_unacked:
  assumes "c = snd (client_run cr xs (new_client d))" "rc_key c = None" "sm_type m = Some ''session_salt''"
    and "onMessage cr (Some m) c = Inr (es, c1)"
  shows "\<exists>ps frames. rc_outbox c1 = rc_outbox c @ frames
    \<and> list_all2 (\<lambda>p out. \<exists>n. out = O_frame (sc_seal cr n (sc_deriveKey cr (sm_salt m)) (fst p) (snd p) C2d)) ps frames
    \<and> sorted_wrt (<) (map fst ps) \<and> map_of ps = unacked (rc_resend c)
    \<and> rc_key c1 = Some (sc_deriveKey cr (sm_salt m)) \<and> rc_resend c1 = rc_resend c
    \<and> rc_inb c1 = (if sm_resumed m then rc_inb c else new_inbound)
    \<and> (\<exists>n. es = [Cb_ready (sm_resumed m) n])"
proof -
  have inv: "resend_inv (rc_resend c)"
    using client_run_inv [OF client_inv_new, of cr xs d] assms(1) by (simp add: client_inv_def)
  have r: "(es, c1) = onSessionSalt cr m c" using assms(2-4) by (simp add: onMessage_def)
  have "map_of (pending (rc_resend c)) s = unacked (rc_resend c) s" for s
    using rb.entries_distinct [OF inv] set_pending [OF inv] by (metis map_of_eq_Some_iff option.exhaust)
  then have "map_of (pending (rc_resend c)) = unacked (rc_resend c)" by blast
  then show ?thesis
    using r pending_strictly_ascending [OF inv]
    by (intro exI [of _ "pending (rc_resend c)"]
        exI [of _ "seal_all cr (sc_deriveKey cr (sm_salt m)) (rc_nonce c) (pending (rc_resend c))"])
      (simp add: onSessionSalt_def Let_def seal_all_frames)
qed

theorem reconnect_resends_unacked_witness:
  "\<exists>es c1. onMessage example_crypto (Some example_salt) (snd (client_run example_crypto
       [C_send 1 List_cmd True, C_send 2 (Interrupt ''s'') True] (new_client ''dev''))) = Inr (es, c1)
     \<and> rc_key c1 \<noteq> None \<and> length (rc_outbox c1) = 2"
proof -
  let ?xs = "[C_send 1 List_cmd True, C_send 2 (Interrupt ''s'') True]"
  let ?c = "snd (client_run example_crypto ?xs (new_client ''dev''))"
  obtain es c1 where m: "onMessage example_crypto (Some example_salt) ?c = Inr (es, c1)"
    by (cases "onSessionSalt example_crypto example_salt ?c") (simp add: client_eval)
  have k: "rc_key ?c = None" "sm_type example_salt = Some ''session_salt''" by (simp_all add: client_eval)
  from reconnect_resends_unacked [OF refl k m] have "rc_key c1 \<noteq> None" by auto
  moreover have "length (rc_outbox c1) = 2" using m by (auto simp: client_eval pending_def)
  ultimately show ?thesis using m by blast
qed

text \<open>
  Only authentic frames count. Whatever has happened before, a frame that does not open under
  the connection's key for the daemon-to-client direction changes nothing but a diagnostic, so it
  cannot use up a sequence number; and every event or acknowledgement the host ever sees came
  from a frame that opened.
\<close>

theorem only_authentic_frames_count:
  "rc_key c = Some k \<Longrightarrow> sm_frame m = Some f \<Longrightarrow>
     (sc_open cr k f D2c = None \<longrightarrow> onMessage cr (Some m) c = Inr ([Cb_authError], c))
     \<and> (\<forall>es c1 ev q. onMessage cr (Some m) c = Inr (es, c1) \<and> (Cb_event ev q \<in> set es \<or> (ev = Ack q \<and> Cb_ack q \<in> set es))
          \<longrightarrow> sc_open cr k f D2c = Some ev)"
  by (auto simp: onMessage_def deliver_def split_beta Let_def split: option.splits ServerEvent.splits if_splits)

theorem only_authentic_frames_count_witness:
  "let cr = example_crypto\<lparr>sc_open := (\<lambda>_ _ _. None)\<rparr>; c = (new_client ''d'')\<lparr>rc_key := Some 3\<rparr>;
       m = example_salt\<lparr>sm_frame := Some \<lparr>fr_n = [], fr_c = [], fr_t = [], fr_seq = 9\<rparr>\<rparr>
   in onMessage cr (Some m) c = Inr ([Cb_authError], c)"
  unfolding Let_def
  by (rule only_authentic_frames_count [THEN conjunct1, THEN mp, of _ 3 _ "\<lparr>fr_n = [], fr_c = [], fr_t = [], fr_seq = 9\<rparr>"]) simp_all

end
