(* ===== verification/ClientHub.thy ===== *)
theory ClientHub
  imports DeviceSessions
begin

text \<open>
  The set of authenticated sockets and every sealed write to them,
  \<^verbatim>\<open>packages/daemon/src/interface/clientHub.ts\<close>. Sockets are numbered and \<open>hub_clients\<close> is the map
  from sockets to connections in insertion order. Sealing is an argument (with the number of a
  fresh nonce), so is the answer to whether a socket's backlog exceeds the cap after a write and the
  clock; all are indexed by \<open>hub_tick\<close>, which counts the calls. The record is extended by the
  components that hold a hub.
\<close>

record 'k ClientConn =
  cn_key :: 'k
  cn_deviceId :: string

record 'k ClientHub =
  hub_clients :: "(nat, 'k ClientConn) jsmap"
  hub_reg :: "ServerEvent DeviceSessionRegistry"
  hub_tick :: nat

record 'k hub_env =
  he_seal :: "nat \<Rightarrow> 'k \<Rightarrow> int \<Rightarrow> ServerEvent \<Rightarrow> Direction \<Rightarrow> SealedFrame"
  he_overflow :: "nat \<Rightarrow> bool"
  he_now :: "nat \<Rightarrow> int"

datatype wire = Plain UnauthServerMessage | Sealed SealedFrame

datatype hub_effect = Write nat wire | Destroy nat

definition MAX_CLIENT_BACKLOG_BYTES :: nat where "MAX_CLIENT_BACKLOG_BYTES = 4 * 1024 * 1024"

section \<open>Operations\<close>

definition authenticate :: "nat \<Rightarrow> 'k ClientConn \<Rightarrow> ('k, 'm) ClientHub_scheme \<Rightarrow> ('k, 'm) ClientHub_scheme" where
  "authenticate sock conn h = h\<lparr>hub_clients := js_set sock conn (hub_clients h)\<rparr>"

definition forget :: "nat \<Rightarrow> ('k, 'm) ClientHub_scheme \<Rightarrow> ('k, 'm) ClientHub_scheme" where
  "forget sock h = h\<lparr>hub_clients := js_delete sock (hub_clients h)\<rparr>"

definition isAuthenticated :: "nat \<Rightarrow> ('k, 'm) ClientHub_scheme \<Rightarrow> bool" where
  "isAuthenticated sock h = js_has (hub_clients h) sock"

definition connFor :: "nat \<Rightarrow> ('k, 'm) ClientHub_scheme \<Rightarrow> 'k ClientConn option" where
  "connFor sock h = map_of (hub_clients h) sock"

text \<open>A write, and the disconnection when the unsent backlog is over the cap.\<close>

definition writeFrame :: "'k hub_env \<Rightarrow> nat \<Rightarrow> wire \<Rightarrow> ('k, 'm) ClientHub_scheme \<Rightarrow>
    hub_effect list \<times> ('k, 'm) ClientHub_scheme" where
  "writeFrame e sock w h =
     (let h1 = h\<lparr>hub_tick := Suc (hub_tick h)\<rparr>
      in if he_overflow e (hub_tick h) then ([Write sock w, Destroy sock], forget sock h1)
         else ([Write sock w], h1))"

definition writeRaw :: "'k hub_env \<Rightarrow> nat \<Rightarrow> UnauthServerMessage \<Rightarrow> ('k, 'm) ClientHub_scheme \<Rightarrow>
    hub_effect list \<times> ('k, 'm) ClientHub_scheme" where
  "writeRaw e sock m h = writeFrame e sock (Plain m) h"

definition sealAndWrite :: "'k hub_env \<Rightarrow> nat \<Rightarrow> 'k ClientConn \<Rightarrow> int \<Rightarrow> ServerEvent \<Rightarrow>
    ('k, 'm) ClientHub_scheme \<Rightarrow> hub_effect list \<times> ('k, 'm) ClientHub_scheme" where
  "sealAndWrite e sock conn seq ev h =
     writeFrame e sock (Sealed (he_seal e (hub_tick h) (cn_key conn) seq ev D2c)) h"

definition record_event :: "'k hub_env \<Rightarrow> string \<Rightarrow> ServerEvent \<Rightarrow> ('k, 'm) ClientHub_scheme \<Rightarrow>
    int \<times> ('k, 'm) ClientHub_scheme" where
  "record_event e dev ev h =
     (let (seq, r) = recordSent dev ev (he_now e (hub_tick h)) (hub_reg h) in (seq, h\<lparr>hub_reg := r\<rparr>))"

definition sendSealed :: "'k hub_env \<Rightarrow> nat \<Rightarrow> 'k ClientConn \<Rightarrow> ServerEvent \<Rightarrow>
    ('k, 'm) ClientHub_scheme \<Rightarrow> hub_effect list \<times> ('k, 'm) ClientHub_scheme" where
  "sendSealed e sock conn ev h =
     (let (seq, h1) = record_event e (cn_deviceId conn) ev h in sealAndWrite e sock conn seq ev h1)"

definition sendTo :: "'k hub_env \<Rightarrow> nat \<Rightarrow> ServerEvent \<Rightarrow> ('k, 'm) ClientHub_scheme \<Rightarrow>
    hub_effect list \<times> ('k, 'm) ClientHub_scheme" where
  "sendTo e sock ev h =
     (case map_of (hub_clients h) sock of None \<Rightarrow> ([], h) | Some conn \<Rightarrow> sendSealed e sock conn ev h)"

text \<open>The sockets grouped by device, in the order the devices first appear.\<close>

definition add_to_group :: "(string, (nat \<times> 'k ClientConn) list) jsmap \<Rightarrow> nat \<times> 'k ClientConn \<Rightarrow>
    (string, (nat \<times> 'k ClientConn) list) jsmap" where
  "add_to_group g sc =
     (case map_of g (cn_deviceId (snd sc)) of
        Some grp \<Rightarrow> js_set (cn_deviceId (snd sc)) (grp @ [sc]) g
      | None \<Rightarrow> js_set (cn_deviceId (snd sc)) [sc] g)"

definition socketsByDevice :: "(nat, 'k ClientConn) jsmap \<Rightarrow> (string, (nat \<times> 'k ClientConn) list) jsmap" where
  "socketsByDevice clients = foldl add_to_group [] clients"

fun write_group :: "'k hub_env \<Rightarrow> int \<Rightarrow> ServerEvent \<Rightarrow> (nat \<times> 'k ClientConn) list \<Rightarrow>
    ('k, 'm) ClientHub_scheme \<Rightarrow> hub_effect list \<times> ('k, 'm) ClientHub_scheme" where
  "write_group e seq ev [] h = ([], h)"
| "write_group e seq ev (sc # scs) h =
     (let (es, h1) = sealAndWrite e (fst sc) (snd sc) seq ev h; (fs, h2) = write_group e seq ev scs h1
      in (es @ fs, h2))"

fun write_groups :: "'k hub_env \<Rightarrow> ServerEvent \<Rightarrow> (string, (nat \<times> 'k ClientConn) list) jsmap \<Rightarrow>
    ('k, 'm) ClientHub_scheme \<Rightarrow> hub_effect list \<times> ('k, 'm) ClientHub_scheme" where
  "write_groups e ev [] h = ([], h)"
| "write_groups e ev (g # gs) h =
     (let (seq, h1) = record_event e (fst g) ev h;
          (es, h2) = write_group e seq ev (snd g) h1;
          (fs, h3) = write_groups e ev gs h2
      in (es @ fs, h3))"

fun record_offline :: "'k hub_env \<Rightarrow> ServerEvent \<Rightarrow> string list \<Rightarrow> ('k, 'm) ClientHub_scheme \<Rightarrow>
    ('k, 'm) ClientHub_scheme" where
  "record_offline e ev [] h = h"
| "record_offline e ev (d # ds) h = record_offline e ev ds (snd (record_event e d ev h))"

definition broadcast :: "'k hub_env \<Rightarrow> ServerEvent \<Rightarrow> ('k, 'm) ClientHub_scheme \<Rightarrow>
    hub_effect list \<times> ('k, 'm) ClientHub_scheme" where
  "broadcast e ev h =
     (let groups = socketsByDevice (hub_clients h);
          (es, h1) = write_groups e ev groups h;
          offline = filter (\<lambda>d. \<not> js_has groups d) (knownDeviceIds (hub_reg h1))
      in (es, record_offline e ev offline h1))"

text \<open>\<^verbatim>\<open>disconnectDevice\<close>: forget everything about the device and close its sockets.\<close>

definition disconnectDevice :: "string \<Rightarrow> ('k, 'm) ClientHub_scheme \<Rightarrow>
    hub_effect list \<times> ('k, 'm) ClientHub_scheme" where
  "disconnectDevice deviceId h =
     (map (\<lambda>sc. Destroy (fst sc)) (filter (\<lambda>sc. cn_deviceId (snd sc) = deviceId) (hub_clients h)),
      h\<lparr>hub_reg := registry_evict deviceId (hub_reg h),
        hub_clients := filter (\<lambda>sc. cn_deviceId (snd sc) \<noteq> deviceId) (hub_clients h)\<rparr>)"

section \<open>What the hub leaves alone\<close>

text \<open>Every operation of the hub leaves the fields of the layers above as they are.\<close>

lemma hub_more_write [simp]:
  "ClientHub.ClientHub.more (authenticate s c h) = ClientHub.ClientHub.more h"
  "ClientHub.ClientHub.more (forget s h) = ClientHub.ClientHub.more h"
  "ClientHub.ClientHub.more (snd (writeFrame e s w h)) = ClientHub.ClientHub.more h"
  "ClientHub.ClientHub.more (snd (writeRaw e s m h)) = ClientHub.ClientHub.more h"
  "ClientHub.ClientHub.more (snd (sealAndWrite e s c q ev h)) = ClientHub.ClientHub.more h"
  "ClientHub.ClientHub.more (snd (record_event e dev ev h)) = ClientHub.ClientHub.more h"
  "ClientHub.ClientHub.more (snd (sendSealed e s c ev h)) = ClientHub.ClientHub.more h"
  "ClientHub.ClientHub.more (snd (disconnectDevice dev h)) = ClientHub.ClientHub.more h"
  by (simp_all add: authenticate_def forget_def writeFrame_def writeRaw_def sealAndWrite_def record_event_def
      sendSealed_def disconnectDevice_def split_beta Let_def)

lemma hub_more_send [simp]: "ClientHub.ClientHub.more (snd (sendTo e s ev h)) = ClientHub.ClientHub.more h"
  by (simp add: sendTo_def split: option.split)

lemma hub_more_groups [simp]:
  "ClientHub.ClientHub.more (snd (write_group e q ev scs h)) = ClientHub.ClientHub.more h"
  by (induction scs arbitrary: h) (simp_all add: split_beta Let_def)

lemma hub_more_write_groups [simp]:
  "ClientHub.ClientHub.more (snd (write_groups e ev gs h)) = ClientHub.ClientHub.more h"
  by (induction gs arbitrary: h) (simp_all add: split_beta Let_def)

lemma hub_more_offline [simp]:
  "ClientHub.ClientHub.more (record_offline e ev ds h) = ClientHub.ClientHub.more h"
  by (induction ds arbitrary: h) simp_all

lemma hub_more_broadcast [simp]: "ClientHub.ClientHub.more (snd (broadcast e ev h)) = ClientHub.ClientHub.more h"
  by (simp add: broadcast_def split_beta Let_def)

text \<open>Sending never touches the inbound half of the registry.\<close>

lemma recordSent_inbound [simp]:
  "inbound (snd (recordSent d ev t r)) = inbound r" "processed (snd (recordSent d ev t r)) = processed r"
  by (simp_all add: recordSent_def outboundFor_def split_beta Let_def split: option.split)

lemma hub_inbound_write [simp]:
  "inbound (hub_reg (snd (writeFrame e s w h))) = inbound (hub_reg h)"
  "inbound (hub_reg (snd (sendSealed e s c ev h))) = inbound (hub_reg h)"
  "inbound (hub_reg (snd (sendTo e s ev h))) = inbound (hub_reg h)"
  by (simp_all add: writeFrame_def forget_def sendSealed_def sealAndWrite_def record_event_def sendTo_def
      split_beta Let_def split: option.split)

lemma hub_inbound_group [simp]: "inbound (hub_reg (snd (write_group e q ev scs h))) = inbound (hub_reg h)"
  by (induction scs arbitrary: h) (simp_all add: split_beta Let_def sealAndWrite_def)

lemma hub_inbound_groups [simp]: "inbound (hub_reg (snd (write_groups e ev gs h))) = inbound (hub_reg h)"
  by (induction gs arbitrary: h) (simp_all add: split_beta Let_def record_event_def)

lemma hub_inbound_offline [simp]: "inbound (hub_reg (record_offline e ev ds h)) = inbound (hub_reg h)"
  by (induction ds arbitrary: h) (simp_all add: record_event_def split_beta Let_def)

lemma hub_inbound_broadcast [simp]: "inbound (hub_reg (snd (broadcast e ev h))) = inbound (hub_reg h)"
  by (simp add: broadcast_def split_beta Let_def)

section \<open>Grouping\<close>

definition groups_ok :: "(string, (nat \<times> 'k ClientConn) list) jsmap \<Rightarrow> (nat, 'k ClientConn) jsmap \<Rightarrow> bool" where
  "groups_ok g cs \<longleftrightarrow> js_wf g \<and> mset (concat (js_values g)) = mset cs
     \<and> (\<forall>d grp. (d, grp) \<in> set g \<longrightarrow> (\<forall>sc \<in> set grp. cn_deviceId (snd sc) = d))"

lemma mset_concat_values_set:
  "js_wf g \<Longrightarrow> map_of g k = Some v \<Longrightarrow>
     mset (concat (js_values (js_set k (v @ [x]) g))) = add_mset x (mset (concat (js_values g)))"
proof (induction g)
  case (Cons p g)
  then show ?case by (cases p) (auto simp: js_set_def)
qed simp

lemma add_to_group_ok:
  assumes "groups_ok g cs"
  shows "groups_ok (add_to_group g sc) (cs @ [sc])"
proof (cases "map_of g (cn_deviceId (snd sc))")
  case None
  then have new: "cn_deviceId (snd sc) \<notin> set (js_keys g)" by (simp add: map_of_eq_None_iff)
  then show ?thesis using assms None by (auto simp: groups_ok_def add_to_group_def js_set_new)
next
  case (Some grp)
  have wf: "js_wf g" using assms by (simp add: groups_ok_def)
  have "(cn_deviceId (snd sc), grp) \<in> set g" using Some by (rule map_of_SomeD)
  with assms have "\<forall>x \<in> set grp. cn_deviceId (snd x) = cn_deviceId (snd sc)" by (auto simp: groups_ok_def)
  then show ?thesis
    using assms Some mset_concat_values_set [OF wf Some, of sc]
    by (auto simp: groups_ok_def add_to_group_def set_js_set [OF wf])
qed

lemma socketsByDevice_ok: "groups_ok (socketsByDevice cs) cs"
proof (induction cs rule: rev_induct)
  case (snoc sc cs)
  then show ?case by (simp add: socketsByDevice_def add_to_group_ok)
qed (simp add: socketsByDevice_def groups_ok_def)

lemma add_to_group_keys: "fst ` set (add_to_group g sc) = insert (cn_deviceId (snd sc)) (fst ` set g)"
  by (simp add: add_to_group_def fst_set_js_set split: option.split)

lemma socketsByDevice_keys: "set (js_keys (socketsByDevice cs)) = (cn_deviceId \<circ> snd) ` set cs"
  by (induction cs rule: rev_induct) (simp_all add: socketsByDevice_def add_to_group_keys)

section \<open>Writes of a broadcast\<close>

fun written :: "hub_effect list \<Rightarrow> (nat \<times> wire) list" where
  "written [] = []"
| "written (Write s w # es) = (s, w) # written es"
| "written (Destroy _ # es) = written es"

lemma written_append [simp]: "written (es @ fs) = written es @ written fs"
  by (induction es rule: written.induct) simp_all

definition frame_for :: "'k hub_env \<Rightarrow> ServerEvent \<Rightarrow> int \<Rightarrow> nat \<times> 'k ClientConn \<Rightarrow> nat \<times> wire \<Rightarrow> bool" where
  "frame_for e ev seq sc sw \<longleftrightarrow>
     fst sw = fst sc \<and> (\<exists>n. snd sw = Sealed (he_seal e n (cn_key (snd sc)) seq ev D2c))"

lemma written_sealAndWrite:
  "\<exists>w. written (fst (sealAndWrite e s c seq ev h)) = [(s, w)] \<and> frame_for e ev seq (s, c) (s, w)"
  by (auto simp: sealAndWrite_def writeFrame_def frame_for_def Let_def)

lemma written_group: "list_all2 (frame_for e ev seq) scs (written (fst (write_group e seq ev scs h)))"
proof (induction scs arbitrary: h)
  case (Cons sc scs)
  obtain w where "written (fst (sealAndWrite e (fst sc) (snd sc) seq ev h)) = [(fst sc, w)]"
    "frame_for e ev seq sc (fst sc, w)"
    using written_sealAndWrite [of e "fst sc" "snd sc" seq ev h] by auto
  with Cons.IH show ?case by (simp add: split_beta Let_def)
qed simp

lemma frame_for_cong:
  "list_all2 (\<lambda>sc. frame_for e ev (f (cn_deviceId (snd sc))) sc) scs ws \<Longrightarrow>
     (\<And>sc. sc \<in> set scs \<Longrightarrow> f (cn_deviceId (snd sc)) = g (cn_deviceId (snd sc))) \<Longrightarrow>
     list_all2 (\<lambda>sc. frame_for e ev (g (cn_deviceId (snd sc))) sc) scs ws"
  by (erule list.rel_mono_strong) auto

lemma written_groups:
  assumes "js_wf gs" "\<forall>d grp. (d, grp) \<in> set gs \<longrightarrow> (\<forall>sc \<in> set grp. cn_deviceId (snd sc) = d)"
  shows "\<exists>f. list_all2 (\<lambda>sc. frame_for e ev (f (cn_deviceId (snd sc))) sc) (concat (js_values gs))
    (written (fst (write_groups e ev gs h)))"
  using assms
proof (induction gs arbitrary: h)
  case (Cons g gs)
  obtain seq h1 where r: "record_event e (fst g) ev h = (seq, h1)" by fastforce
  let ?h2 = "snd (write_group e seq ev (snd g) h1)"
  have "\<forall>d grp. (d, grp) \<in> set gs \<longrightarrow> (\<forall>sc \<in> set grp. cn_deviceId (snd sc) = d)" using Cons.prems(2) by simp
  with Cons obtain f where f: "list_all2 (\<lambda>sc. frame_for e ev (f (cn_deviceId (snd sc))) sc) (concat (js_values gs))
      (written (fst (write_groups e ev gs ?h2)))" by fastforce
  let ?f = "f(fst g := seq)"
  have dev: "cn_deviceId (snd sc) = fst g" if "sc \<in> set (snd g)" for sc
    using Cons.prems(2) that by (cases g) simp
  have "cn_deviceId (snd sc) \<noteq> fst g" if "sc \<in> set (concat (js_values gs))" for sc
    using Cons.prems that by (fastforce simp: image_iff)
  then have tail: "list_all2 (\<lambda>sc. frame_for e ev (?f (cn_deviceId (snd sc))) sc) (concat (js_values gs))
      (written (fst (write_groups e ev gs ?h2)))" by (intro frame_for_cong [OF f]) auto
  have "list_all2 (\<lambda>sc. frame_for e ev (?f (cn_deviceId (snd sc))) sc) (snd g)
      (written (fst (write_group e seq ev (snd g) h1)))"
    by (rule list.rel_mono_strong [OF written_group]) (use dev in auto)
  with tail r show ?case
    by (intro exI [of _ ?f]) (simp add: split_beta Let_def list_all2_appendI)
qed simp

section \<open>What a broadcast records\<close>

lemma hub_reg_writeFrame [simp]: "hub_reg (snd (writeFrame e s w h)) = hub_reg h"
  by (simp add: writeFrame_def Let_def forget_def)

lemma hub_reg_write_group [simp]: "hub_reg (snd (write_group e seq ev scs h)) = hub_reg h"
  by (induction scs arbitrary: h) (simp_all add: split_beta Let_def sealAndWrite_def)

definition record_all :: "ServerEvent \<Rightarrow> (string \<times> int) list \<Rightarrow> ServerEvent DeviceSessionRegistry \<Rightarrow>
    ServerEvent DeviceSessionRegistry" where
  "record_all ev dts r = foldl (\<lambda>r p. snd (recordSent (fst p) ev (snd p) r)) r dts"

lemma hub_reg_record_event [simp]:
  "hub_reg (snd (record_event e d ev h)) = snd (recordSent d ev (he_now e (hub_tick h)) (hub_reg h))"
  by (simp add: record_event_def split_beta Let_def)

lemma write_groups_records:
  "\<exists>dts. map fst dts = js_keys gs \<and> hub_reg (snd (write_groups e ev gs h)) = record_all ev dts (hub_reg h)"
proof (induction gs arbitrary: h)
  case (Cons g gs)
  obtain seq h1 where r: "record_event e (fst g) ev h = (seq, h1)" by fastforce
  let ?h2 = "snd (write_group e seq ev (snd g) h1)"
  from Cons.IH obtain dts where "map fst dts = js_keys gs"
    "hub_reg (snd (write_groups e ev gs ?h2)) = record_all ev dts (hub_reg ?h2)" by blast
  moreover have "hub_reg ?h2 = snd (recordSent (fst g) ev (he_now e (hub_tick h)) (hub_reg h))"
    using hub_reg_record_event [of e "fst g" ev h] r by simp
  ultimately show ?case using r
    by (intro exI [of _ "(fst g, he_now e (hub_tick h)) # dts"]) (simp add: split_beta Let_def record_all_def)
qed (simp add: record_all_def)

lemma record_offline_records:
  "\<exists>dts. map fst dts = ds \<and> hub_reg (record_offline e ev ds h) = record_all ev dts (hub_reg h)"
proof (induction ds arbitrary: h)
  case (Cons d ds)
  let ?h1 = "snd (record_event e d ev h)"
  from Cons.IH obtain dts where "map fst dts = ds"
    "hub_reg (record_offline e ev ds ?h1) = record_all ev dts (hub_reg ?h1)" by blast
  then show ?case
    by (intro exI [of _ "(d, he_now e (hub_tick h)) # dts"]) (simp add: record_all_def)
qed (simp add: record_all_def)

lemma js_wf_outbound: "sent_rel r H \<Longrightarrow> js_wf (outbound r)"
  by (simp add: sent_rel_def)

lemma js_wf_recordSent: "js_wf (outbound r) \<Longrightarrow> js_wf (outbound (snd (recordSent d ev t r)))"
  by (auto simp: recordSent_def outboundFor_def split_beta Let_def split: option.split)

lemma js_wf_record_all: "js_wf (outbound r) \<Longrightarrow> js_wf (outbound (record_all ev dts r))"
  by (induction dts arbitrary: r) (simp_all add: record_all_def js_wf_recordSent)

section \<open>Properties\<close>

text \<open>
  C24: A broadcast uses one sequence number per device, however many sockets the device holds.
  Every authenticated socket is written exactly one frame; there is one number per device such
  that each frame is the event sealed for the daemon-to-client direction under the key of its
  own connection at the number of its device; and the event is recorded exactly once for each
  connected device and once for each known device that is offline, and for no other.
\<close>

theorem broadcast_one_seq_per_device:
  assumes "js_wf (outbound (hub_reg h))" "broadcast e ev h = (es, h1)"
  shows "(\<exists>f scs. mset scs = mset (hub_clients h)
        \<and> list_all2 (\<lambda>sc. frame_for e ev (f (cn_deviceId (snd sc))) sc) scs (written es))
    \<and> (\<exists>ons offs r. r = record_all ev ons (hub_reg h) \<and> hub_reg h1 = record_all ev offs r
        \<and> distinct (map fst (ons @ offs))
        \<and> set (map fst ons) = (cn_deviceId \<circ> snd) ` set (hub_clients h)
        \<and> set (map fst (ons @ offs)) = (cn_deviceId \<circ> snd) ` set (hub_clients h) \<union> set (knownDeviceIds r))"
proof -
  let ?g = "socketsByDevice (hub_clients h)"
  let ?h1 = "snd (write_groups e ev ?g h)"
  let ?off = "filter (\<lambda>d. \<not> js_has ?g d) (knownDeviceIds (hub_reg ?h1))"
  have g: "js_wf ?g" "mset (concat (js_values ?g)) = mset (hub_clients h)"
    "\<forall>d grp. (d, grp) \<in> set ?g \<longrightarrow> (\<forall>sc \<in> set grp. cn_deviceId (snd sc) = d)"
    using socketsByDevice_ok [of "hub_clients h"] by (simp_all add: groups_ok_def)
  have es: "es = fst (write_groups e ev ?g h)" and h1: "h1 = record_offline e ev ?off ?h1"
    using assms(2) by (simp_all add: broadcast_def Let_def split_beta)
  obtain ons where ons: "map fst ons = js_keys ?g" "hub_reg ?h1 = record_all ev ons (hub_reg h)"
    using write_groups_records by blast
  obtain offs where offs: "map fst offs = ?off" "hub_reg h1 = record_all ev offs (hub_reg ?h1)"
    using record_offline_records [of ?off e ev ?h1] h1 by blast
  have "distinct (knownDeviceIds (hub_reg ?h1))"
    unfolding ons(2) knownDeviceIds_def by (rule js_wf_record_all [OF assms(1)])
  then have "distinct (map fst ons @ map fst offs)"
    unfolding ons(1) offs(1) using g(1) by (auto simp: js_has_iff)
  moreover have keys: "set (map fst ons) = (cn_deviceId \<circ> snd) ` set (hub_clients h)"
    unfolding ons(1) by (rule socketsByDevice_keys)
  moreover have "set (map fst ons @ map fst offs) =
      (cn_deviceId \<circ> snd) ` set (hub_clients h) \<union> set (knownDeviceIds (hub_reg ?h1))"
    unfolding set_append keys offs(1) using socketsByDevice_keys [of "hub_clients h"] by (auto simp: js_has_iff)
  ultimately have "\<exists>ons offs r. r = record_all ev ons (hub_reg h) \<and> hub_reg h1 = record_all ev offs r
        \<and> distinct (map fst (ons @ offs)) \<and> set (map fst ons) = (cn_deviceId \<circ> snd) ` set (hub_clients h)
        \<and> set (map fst (ons @ offs)) = (cn_deviceId \<circ> snd) ` set (hub_clients h) \<union> set (knownDeviceIds r)"
    using ons(2) offs(2) unfolding map_append by metis
  with written_groups [OF g(1,3), of e ev h] g(2) show ?thesis unfolding es by blast
qed

text \<open>A hub with two sockets of one device, and a stand-in for sealing.\<close>

definition example_hub_env :: "nat hub_env" where
  "example_hub_env = \<lparr>he_seal = (\<lambda>n k s ev d. \<lparr>fr_n = decimal n, fr_c = decimal k, fr_t = [], fr_seq = s\<rparr>),
     he_overflow = (\<lambda>_. False), he_now = int\<rparr>"

definition example_hub :: "nat ClientHub" where
  "example_hub = \<lparr>hub_clients = [(1, \<lparr>cn_key = 10, cn_deviceId = ''a''\<rparr>), (2, \<lparr>cn_key = 20, cn_deviceId = ''a''\<rparr>)],
     hub_reg = new_registry 200 200, hub_tick = 0\<rparr>"

theorem broadcast_one_seq_per_device_witness:
  "\<exists>f scs. mset scs = mset (hub_clients example_hub)
     \<and> list_all2 (\<lambda>sc. frame_for example_hub_env (Revoked ''x'') (f (cn_deviceId (snd sc))) sc) scs
         (written (fst (broadcast example_hub_env (Revoked ''x'') example_hub)))"
  by (rule broadcast_one_seq_per_device [THEN conjunct1, OF _ prod.collapse [symmetric]])
    (simp add: example_hub_def new_registry_def)

text \<open>
  A revoked device is cut off. Afterwards no socket of the device is authenticated, each of them
  has been destroyed, its replay buffer, counters and acknowledgement state are gone, and the
  sockets of every other device are untouched.
\<close>

theorem disconnect_cuts_off_device:
  "let (es, h1) = disconnectDevice d h
   in filter (\<lambda>sc. cn_deviceId (snd sc) = d) (hub_clients h1) = []
    \<and> filter (\<lambda>sc. cn_deviceId (snd sc) \<noteq> d) (hub_clients h) = hub_clients h1
    \<and> es = map (\<lambda>sc. Destroy (fst sc)) (filter (\<lambda>sc. cn_deviceId (snd sc) = d) (hub_clients h))
    \<and> d \<notin> set (knownDeviceIds (hub_reg h1)) \<and> inboundLastSeq d (hub_reg h1) = 0 \<and> ackLevel d (hub_reg h1) = 0
    \<and> map_of (byDevice (rlog (hub_reg h1))) d = None"
proof -
  have "d \<notin> set (js_keys (js_delete d (outbound (hub_reg h))))" unfolding keys_js_delete by simp
  then show ?thesis
    by (simp add: disconnectDevice_def registry_evict_def knownDeviceIds_def inboundLastSeq_def ackLevel_def
        log_evict_def filter_empty_conv)
qed

end
