(* ===== verification/ClientConnection.thy ===== *)
theory ClientConnection
  imports ClientHub Pairing Framing
begin

text \<open>
  The client protocol adapter, \<^verbatim>\<open>packages/daemon/src/interface/clientConnection.ts\<close>: the plaintext
  handshake, authentication of frames, inbound dedup and acknowledgements. Opening a frame, key
  derivation, the keyed hash, random values, the parse of a line and the command handler are
  arguments. A frame that opens to something that is no command is \<open>None\<close> for the handler, which
  throws on it. The state extends the hub; the daemon extends it further.
\<close>

record 'k ClientConnection = "'k ClientHub" +
  cx_identity :: Identity
  cx_buf :: "nat \<Rightarrow> string"

record 'k conn_env =
  ce_hub :: "'k hub_env"
  ce_open :: "'k \<Rightarrow> SealedFrame \<Rightarrow> Direction \<Rightarrow> ClientCommand option option"
  ce_derive :: "string \<Rightarrow> string \<Rightarrow> 'k option"
  ce_hmac :: "string \<Rightarrow> string \<Rightarrow> string"
  ce_salt :: "nat \<Rightarrow> string"
  ce_secret :: "nat \<Rightarrow> string"
  ce_deviceId :: "nat \<Rightarrow> string"
  ce_stringify :: "json \<Rightarrow> string"
  ce_maxPairedDevices :: nat
  ce_address :: string

text \<open>A parsed line as both states of the connection read it.\<close>

record client_message =
  cm_unauth :: UnauthClientMessage
  cm_frame :: "SealedFrame option"

type_synonym ('k, 'm) conn_state = "('k, 'm) ClientConnection_scheme"

type_synonym ('k, 'm) command_handler =
  "ClientCommand option \<Rightarrow> nat \<Rightarrow> string \<Rightarrow> ('k, 'm) conn_state \<Rightarrow>
     bool \<times> hub_effect list \<times> ('k, 'm) conn_state"

definition MAX_LINE_UNAUTHENTICATED :: nat where "MAX_LINE_UNAUTHENTICATED = 64 * 1024"
definition MAX_LINE_AUTHENTICATED :: nat where "MAX_LINE_AUTHENTICATED = 4 * 1024 * 1024"

section \<open>The handshake\<close>

definition ce_time :: "'k conn_env \<Rightarrow> ('k, 'm) conn_state \<Rightarrow> int" where
  "ce_time e h = he_now (ce_hub e) (hub_tick h)"

definition begin_pair :: "'k conn_env \<Rightarrow> bool \<Rightarrow> nat \<Rightarrow> ('k, 'm) conn_state \<Rightarrow> hub_effect list \<times> ('k, 'm) conn_state" where
  "begin_pair e allowBootstrap sock h =
     (if \<not> allowBootstrap then writeRaw (ce_hub e) sock Pair_failed h
      else let ((payload, expiresAt), i) =
                 beginPairing (ce_address e) (ce_secret e (hub_tick h)) (ce_time e h) (cx_identity h)
           in writeRaw (ce_hub e) sock (Pair_qr (ce_stringify e (payload_json payload)) expiresAt)
                (h\<lparr>cx_identity := i\<rparr>))"

definition complete_pair :: "'k conn_env \<Rightarrow> nat \<Rightarrow> string \<Rightarrow> string option \<Rightarrow> string \<Rightarrow> ('k, 'm) conn_state \<Rightarrow>
    hub_effect list \<times> ('k, 'm) conn_state" where
  "complete_pair e sock devicePublicKey deviceName proof h =
     (if ce_maxPairedDevices e \<le> pairedCount (cx_identity h) then writeRaw (ce_hub e) sock Pair_failed h
      else case completePairing (ce_hmac e) devicePublicKey
                  (case deviceName of None \<Rightarrow> ''device'' | Some n \<Rightarrow> n) proof
                  (ce_deviceId e (hub_tick h)) (ce_time e h) (cx_identity h) of
             (Inl _, i) \<Rightarrow> writeRaw (ce_hub e) sock Pair_failed (h\<lparr>cx_identity := i\<rparr>)
           | (Inr device, i) \<Rightarrow>
               writeRaw (ce_hub e) sock (Paired (pd_deviceId device) (id_publicKey i)) (h\<lparr>cx_identity := i\<rparr>))"

text \<open>\<^verbatim>\<open>Number.isInteger(msg.lastSeq) && msg.lastSeq >= 0 ? msg.lastSeq : undefined\<close>\<close>

definition valid_lastSeq :: "jsnum option \<Rightarrow> int option" where
  "valid_lastSeq v =
     (case v of Some (Fin r) \<Rightarrow> if of_int \<lfloor>r\<rfloor> = r \<and> 0 \<le> r then Some \<lfloor>r\<rfloor> else None | _ \<Rightarrow> None)"

fun replay_frames :: "'k conn_env \<Rightarrow> nat \<Rightarrow> 'k ClientConn \<Rightarrow> ServerEvent ReplayEntry list \<Rightarrow> ('k, 'm) conn_state \<Rightarrow>
    hub_effect list \<times> ('k, 'm) conn_state" where
  "replay_frames e sock conn [] h = ([], h)"
| "replay_frames e sock conn (p # ps) h =
     (let (es, h1) = sealAndWrite (ce_hub e) sock conn (fst p) (snd p) h;
          (fs, h2) = replay_frames e sock conn ps h1 in (es @ fs, h2))"

fun send_all :: "'k conn_env \<Rightarrow> nat \<Rightarrow> 'k ClientConn \<Rightarrow> ServerEvent list \<Rightarrow> ('k, 'm) conn_state \<Rightarrow>
    hub_effect list \<times> ('k, 'm) conn_state" where
  "send_all e sock conn [] h = ([], h)"
| "send_all e sock conn (ev # evs) h =
     (let (es, h1) = sendSealed (ce_hub e) sock conn ev h;
          (fs, h2) = send_all e sock conn evs h1 in (es @ fs, h2))"

text \<open>The acknowledgement frame, if the level is positive.\<close>

definition send_ack :: "'k conn_env \<Rightarrow> nat \<Rightarrow> 'k ClientConn \<Rightarrow> ('k, 'm) conn_state \<Rightarrow>
    hub_effect list \<times> ('k, 'm) conn_state" where
  "send_ack e sock conn h =
     (let upTo = ackLevel (cn_deviceId conn) (hub_reg h)
      in if upTo > 0 then sendSealed (ce_hub e) sock conn (Ack upTo) h else ([], h))"

definition hello :: "'k conn_env \<Rightarrow> (('k, 'm) conn_state \<Rightarrow> ServerEvent list) \<Rightarrow> nat \<Rightarrow> string \<Rightarrow> jsnum option \<Rightarrow>
    ('k, 'm) conn_state \<Rightarrow> bool \<times> hub_effect list \<times> ('k, 'm) conn_state" where
  "hello e snapshot sock deviceId lastSeqRaw h =
     (case find_device deviceId (cx_identity h) of
        None \<Rightarrow> (let (es, h1) = writeRaw (ce_hub e) sock Hello_failed h in (True, es @ [Destroy sock], h1))
      | Some device \<Rightarrow>
          (let salt = ce_salt e (hub_tick h)
           in case ce_derive e (pd_publicKey device) salt of
                None \<Rightarrow> (False, [], h)
              | Some key \<Rightarrow>
                  (let (resume, r) = resumeFor (pd_deviceId device) (valid_lastSeq lastSeqRaw) (ce_time e h) (hub_reg h);
                       conn = \<lparr>cn_key = key, cn_deviceId = pd_deviceId device\<rparr>;
                       h1 = authenticate sock conn (h\<lparr>hub_reg := r\<rparr>);
                       (es, h2) = (case resume of
                          Some evs \<Rightarrow>
                            (let (es1, g1) = writeRaw (ce_hub e) sock (Session_salt salt True (Some (length evs))) h1;
                                 (es2, g2) = replay_frames e sock conn evs g1 in (es1 @ es2, g2))
                        | None \<Rightarrow>
                            (let (es1, g1) = writeRaw (ce_hub e) sock (Session_salt salt False None) h1;
                                 (es2, g2) = send_all e sock conn (snapshot g1) g1 in (es1 @ es2, g2)));
                       (fs, h3) = send_ack e sock conn h2
                   in (True, es @ fs, h3))))"

fun handleUnauth :: "'k conn_env \<Rightarrow> bool \<Rightarrow> (('k, 'm) conn_state \<Rightarrow> ServerEvent list) \<Rightarrow> nat \<Rightarrow> UnauthClientMessage \<Rightarrow>
    ('k, 'm) conn_state \<Rightarrow> bool \<times> hub_effect list \<times> ('k, 'm) conn_state" where
  "handleUnauth e ab snap sock Begin_pair h = (True, begin_pair e ab sock h)"
| "handleUnauth e ab snap sock (Complete_pair pk name proof) h = (True, complete_pair e sock pk name proof h)"
| "handleUnauth e ab snap sock (Hello d ls) h = hello e snap sock d ls h"
| "handleUnauth e ab snap sock Other_msg h = (True, [Destroy sock], h)"

section \<open>Sealed frames\<close>

definition handle_frame :: "'k conn_env \<Rightarrow> ('k, 'm) command_handler \<Rightarrow> nat \<Rightarrow> 'k ClientConn \<Rightarrow> SealedFrame \<Rightarrow>
    ('k, 'm) conn_state \<Rightarrow> hub_effect list \<times> ('k, 'm) conn_state" where
  "handle_frame e handleCommand sock conn f h =
     (case ce_open e (cn_key conn) f C2d of
        None \<Rightarrow> ([Destroy sock], forget sock h)
      | Some cmd \<Rightarrow>
          (let (fresh, r) = acceptInbound (cn_deviceId conn) (fr_seq f) (hub_reg h);
               h1 = h\<lparr>hub_reg := r\<rparr>
           in if \<not> fresh then ([], h1)
              else let (handled, es, h2) = handleCommand cmd sock (cn_deviceId conn) h1;
                       h3 = (if handled then h2\<lparr>hub_reg := markProcessed (cn_deviceId conn) (fr_seq f) (hub_reg h2)\<rparr>
                             else h2);
                       (fs, h4) = (if isAuthenticated sock h3 then send_ack e sock conn h3 else ([], h3))
                   in (es @ fs, h4)))"

text \<open>
  One line. The message is nothing (not JSON), null, or a message. Null reaches \<^verbatim>\<open>msg?.type\<close> before
  authentication, and \<^verbatim>\<open>msg.seq\<close> after it, which throws outside the guard.
\<close>

definition conn_line :: "'k conn_env \<Rightarrow> bool \<Rightarrow> (('k, 'm) conn_state \<Rightarrow> ServerEvent list) \<Rightarrow> ('k, 'm) command_handler \<Rightarrow>
    (string \<Rightarrow> client_message option option) \<Rightarrow> nat \<Rightarrow> string \<Rightarrow> ('k, 'm) conn_state \<Rightarrow>
    js_error + hub_effect list \<times> ('k, 'm) conn_state" where
  "conn_line e ab snap handleCommand parse sock line h =
     (if blank line then Inr ([], h)
      else case parse line of
             None \<Rightarrow> Inr ([], h)
           | Some msg \<Rightarrow>
               (case connFor sock h of
                  None \<Rightarrow> Inr (snd (handleUnauth e ab snap sock
                                  (case msg of None \<Rightarrow> Other_msg | Some m \<Rightarrow> cm_unauth m) h))
                | Some conn \<Rightarrow>
                    (case msg of
                       None \<Rightarrow> Inl TypeError
                     | Some m \<Rightarrow>
                         (case cm_frame m of
                            None \<Rightarrow> Inr ([], h)
                          | Some f \<Rightarrow> Inr (handle_frame e handleCommand sock conn f h)))))"

fun conn_lines :: "'k conn_env \<Rightarrow> bool \<Rightarrow> (('k, 'm) conn_state \<Rightarrow> ServerEvent list) \<Rightarrow> ('k, 'm) command_handler \<Rightarrow>
    (string \<Rightarrow> client_message option option) \<Rightarrow> nat \<Rightarrow> string list \<Rightarrow> ('k, 'm) conn_state \<Rightarrow>
    js_error + hub_effect list \<times> ('k, 'm) conn_state" where
  "conn_lines e ab snap hc parse sock [] h = Inr ([], h)"
| "conn_lines e ab snap hc parse sock (l # ls) h =
     (case conn_line e ab snap hc parse sock l h of
        Inl err \<Rightarrow> Inl err
      | Inr (es, h1) \<Rightarrow>
          (case conn_lines e ab snap hc parse sock ls h1 of Inl err \<Rightarrow> Inl err | Inr (fs, h2) \<Rightarrow> Inr (es @ fs, h2)))"

definition conn_data :: "'k conn_env \<Rightarrow> bool \<Rightarrow> (('k, 'm) conn_state \<Rightarrow> ServerEvent list) \<Rightarrow> ('k, 'm) command_handler \<Rightarrow>
    (string \<Rightarrow> client_message option option) \<Rightarrow> nat \<Rightarrow> string \<Rightarrow> ('k, 'm) conn_state \<Rightarrow>
    js_error + hub_effect list \<times> ('k, 'm) conn_state" where
  "conn_data e ab snap hc parse sock chunk h =
     (let buf = cx_buf h sock @ chunk;
          cap = (if isAuthenticated sock h then MAX_LINE_AUTHENTICATED else MAX_LINE_UNAUTHENTICATED)
      in if cap < length buf
         then Inr ([Destroy sock], forget sock (h\<lparr>cx_buf := (cx_buf h)(sock := [])\<rparr>))
         else let (ls, rest) = feed_line (cx_buf h sock) chunk
              in conn_lines e ab snap hc parse sock ls (h\<lparr>cx_buf := (cx_buf h)(sock := rest)\<rparr>))"

definition conn_close :: "nat \<Rightarrow> ('k, 'm) conn_state \<Rightarrow> ('k, 'm) conn_state" where
  "conn_close sock h = forget sock h"

section \<open>Laws\<close>

lemma cx_identity_hub [simp]:
  "cx_identity (snd (writeFrame e s w h)) = cx_identity h"
  "cx_identity (snd (writeRaw e s m h)) = cx_identity h"
  "cx_identity (snd (sealAndWrite e s c q ev h)) = cx_identity h"
  "cx_identity (snd (sendSealed e s c ev h)) = cx_identity h"
  by (simp_all add: writeFrame_def writeRaw_def sealAndWrite_def sendSealed_def record_event_def forget_def
      Let_def split_beta)

lemma cx_identity_lists [simp]:
  "cx_identity (snd (replay_frames e s c ps h)) = cx_identity h"
  "cx_identity (snd (send_all e s c evs h)) = cx_identity h"
  "cx_identity (snd (send_ack e s c h)) = cx_identity h"
proof -
  show "cx_identity (snd (replay_frames e s c ps h)) = cx_identity h"
    by (induction ps arbitrary: h) (simp_all add: split_beta Let_def)
  show "cx_identity (snd (send_all e s c evs h)) = cx_identity h"
    by (induction evs arbitrary: h) (simp_all add: split_beta Let_def)
  show "cx_identity (snd (send_ack e s c h)) = cx_identity h" by (simp add: send_ack_def Let_def)
qed

lemma cx_identity_hello [simp]: "cx_identity (snd (snd (hello e snap s d ls h))) = cx_identity h"
  by (simp add: hello_def split_beta Let_def authenticate_def split: option.split)

lemma written_writeRaw [simp]: "written (fst (writeRaw e s m h)) = [(s, Plain m)]"
  by (simp add: writeRaw_def writeFrame_def Let_def)

definition no_qr :: "(nat \<times> wire) list \<Rightarrow> bool" where
  "no_qr ws \<longleftrightarrow> (\<forall>s qr t. (s, Plain (Pair_qr qr t)) \<notin> set ws)"

lemma no_qr_simps [simp]: "no_qr []" "no_qr (ws @ vs) \<longleftrightarrow> no_qr ws \<and> no_qr vs"
  "no_qr ((s, w) # ws) \<longleftrightarrow> (\<forall>qr t. w \<noteq> Plain (Pair_qr qr t)) \<and> no_qr ws"
  by (auto simp: no_qr_def)

lemma no_qr_sealed: "no_qr (written (fst (sealAndWrite e s c q ev h)))"
  by (simp add: sealAndWrite_def writeFrame_def Let_def no_qr_def)

lemma no_qr_sendSealed: "no_qr (written (fst (sendSealed e s c ev h)))"
  by (simp add: sendSealed_def split_beta Let_def no_qr_sealed)

lemma no_qr_lists:
  "no_qr (written (fst (replay_frames e s c ps h)))" "no_qr (written (fst (send_all e s c evs h)))"
  "no_qr (written (fst (send_ack e s c h)))"
proof -
  show "no_qr (written (fst (replay_frames e s c ps h)))"
    by (induction ps arbitrary: h) (simp_all add: split_beta Let_def no_qr_sealed)
  show "no_qr (written (fst (send_all e s c evs h)))"
    by (induction evs arbitrary: h) (simp_all add: split_beta Let_def no_qr_sendSealed)
  show "no_qr (written (fst (send_ack e s c h)))" by (simp add: send_ack_def Let_def no_qr_sendSealed)
qed

lemma no_qr_hello: "no_qr (written (fst (snd (hello e snap s d ls h))))"
  by (simp add: hello_def split_beta Let_def no_qr_lists split: option.split)

lemma written_replay:
  "list_all2 (\<lambda>p w. frame_for (ce_hub e) (snd p) (fst p) (s, c) w) ps (written (fst (replay_frames e s c ps h)))"
proof (induction ps arbitrary: h)
  case (Cons p ps)
  obtain w where "written (fst (sealAndWrite (ce_hub e) s c (fst p) (snd p) h)) = [(s, w)]"
    "frame_for (ce_hub e) (snd p) (fst p) (s, c) (s, w)"
    using written_sealAndWrite [of "ce_hub e" s c "fst p" "snd p" h] by auto
  with Cons.IH show ?case by (simp add: split_beta Let_def)
qed simp

lemma valid_lastSeq_nat [simp]: "valid_lastSeq (Some (Fin (of_nat n))) = Some (int n)"
  by (simp add: valid_lastSeq_def)

lemma complete_pair_identity:
  "(id_pending (cx_identity (snd (complete_pair e sock pk name pr h))) = id_pending (cx_identity h)
      \<or> id_pending (cx_identity (snd (complete_pair e sock pk name pr h))) = None)
   \<and> (id_devices (cx_identity (snd (complete_pair e sock pk name pr h))) = id_devices (cx_identity h)
      \<or> (\<exists>secret expiry device. id_pending (cx_identity h) = Some (secret, expiry) \<and> ce_time e h \<le> expiry
            \<and> pr = ce_hmac e secret (pk @ id_publicKey (cx_identity h))
            \<and> id_devices (cx_identity (snd (complete_pair e sock pk name pr h))) = id_devices (cx_identity h) @ [device]
            \<and> pd_publicKey device = pk
            \<and> pairedCount (cx_identity (snd (complete_pair e sock pk name pr h))) \<le> ce_maxPairedDevices e))"
proof (cases "ce_maxPairedDevices e \<le> pairedCount (cx_identity h)")
  case False
  let ?i = "cx_identity h"
  let ?c = "completePairing (ce_hmac e) pk (case name of None \<Rightarrow> ''device'' | Some n \<Rightarrow> n) pr
      (ce_deviceId e (hub_tick h)) (ce_time e h) ?i"
  have i: "cx_identity (snd (complete_pair e sock pk name pr h)) = snd ?c"
    using False by (simp add: complete_pair_def split_beta split: sum.split)
  show ?thesis unfolding i using False
    by (auto simp: completePairing_def pairingProof_def pairedCount_def persist_def Let_def split: option.split)
qed (simp add: complete_pair_def)

section \<open>What the connection layer leaves alone\<close>

lemma conn_more_of_hub:
  "ClientHub.ClientHub.more h1 = ClientHub.ClientHub.more h \<Longrightarrow>
     ClientConnection.ClientConnection.more h1 = ClientConnection.ClientConnection.more h"
  by (cases h1; cases h) simp

lemma hub_more_lists [simp]:
  "ClientHub.ClientHub.more (snd (replay_frames e s c ps h)) = ClientHub.ClientHub.more h"
  "ClientHub.ClientHub.more (snd (send_all e s c evs h)) = ClientHub.ClientHub.more h"
  "ClientHub.ClientHub.more (snd (send_ack e s c h)) = ClientHub.ClientHub.more h"
proof -
  show "ClientHub.ClientHub.more (snd (replay_frames e s c ps h)) = ClientHub.ClientHub.more h"
    by (induction ps arbitrary: h) (simp_all add: split_beta Let_def)
  show "ClientHub.ClientHub.more (snd (send_all e s c evs h)) = ClientHub.ClientHub.more h"
    by (induction evs arbitrary: h) (simp_all add: split_beta Let_def)
  show "ClientHub.ClientHub.more (snd (send_ack e s c h)) = ClientHub.ClientHub.more h" by (simp add: send_ack_def Let_def)
qed

lemma hub_more_hello [simp]: "ClientHub.ClientHub.more (snd (snd (hello e snap s d ls h))) = ClientHub.ClientHub.more h"
  by (simp add: hello_def split_beta Let_def split: option.split)

lemma conn_more_writeRaw [simp]:
  "ClientConnection.ClientConnection.more (snd (writeRaw e s m h)) = ClientConnection.ClientConnection.more h"
  by (rule conn_more_of_hub) simp

lemma conn_more_unauth:
  "ClientConnection.ClientConnection.more (snd (snd (handleUnauth e ab snap s msg h))) = ClientConnection.ClientConnection.more h"
proof (cases msg)
  case (Hello d ls)
  then show ?thesis by simp (rule conn_more_of_hub, simp)
qed (simp_all add: begin_pair_def complete_pair_def split_beta Let_def split: sum.split)

text \<open>
  A relation between states that the connection layer's own work always satisfies: it holds when
  only the fields of this layer and of the hub differ. Then a chunk can break it only at a line
  for which the command handler breaks it.
\<close>

locale handler_frame =
  fixes R :: "('k, 'm) conn_state \<Rightarrow> ('k, 'm) conn_state \<Rightarrow> bool"
  assumes same_more: "ClientConnection.ClientConnection.more h1 = ClientConnection.ClientConnection.more h \<Longrightarrow> R h h1"
    and step_trans: "R h h1 \<Longrightarrow> R h1 h2 \<Longrightarrow> R h h2"
begin

lemma frame_breaks:
  assumes "\<not> R h (snd (handle_frame e hc sock conn f h))"
  shows "\<exists>cmd r. ce_open e (cn_key conn) f C2d = Some cmd
    \<and> acceptInbound (cn_deviceId conn) (fr_seq f) (hub_reg h) = (True, r)
    \<and> \<not> R (h\<lparr>hub_reg := r\<rparr>) (snd (snd (hc cmd sock (cn_deviceId conn) (h\<lparr>hub_reg := r\<rparr>))))"
proof -
  have "R h (forget sock h)" by (rule same_more, rule conn_more_of_hub) simp
  then obtain cmd where o: "ce_open e (cn_key conn) f C2d = Some cmd"
    using assms by (cases "ce_open e (cn_key conn) f C2d") (simp_all add: handle_frame_def)
  obtain ok r where a: "acceptInbound (cn_deviceId conn) (fr_seq f) (hub_reg h) = (ok, r)" by fastforce
  have reg: "R h (h\<lparr>hub_reg := r\<rparr>)" by (rule same_more) simp
  obtain ok2 es2 h2 where c: "hc cmd sock (cn_deviceId conn) (h\<lparr>hub_reg := r\<rparr>) = (ok2, es2, h2)" by (rule prod_cases3)
  have ok: ok using assms o a reg by (cases ok) (simp_all add: handle_frame_def)
  let ?h3 = "if ok2 then h2\<lparr>hub_reg := markProcessed (cn_deviceId conn) (fr_seq f) (hub_reg h2)\<rparr> else h2"
  have h3: "R h2 ?h3" by (rule same_more) simp
  have "R g (snd (send_ack e sock conn g))" for g
    by (rule same_more, rule conn_more_of_hub) (rule hub_more_lists)
  from step_trans [OF h3 this] h3
  have "R h2 (snd (if isAuthenticated sock ?h3 then send_ack e sock conn ?h3 else ([], ?h3)))" by simp
  moreover have "snd (handle_frame e hc sock conn f h) =
      snd (if isAuthenticated sock ?h3 then send_ack e sock conn ?h3 else ([], ?h3))"
    using o a c ok by (simp add: handle_frame_def split_beta Let_def)
  ultimately have "R h2 (snd (handle_frame e hc sock conn f h))" by (simp only:)
  with reg assms step_trans have "\<not> R (h\<lparr>hub_reg := r\<rparr>) h2" by blast
  with o a c ok show ?thesis by auto
qed

lemma line_breaks:
  assumes "conn_line e ab snap hc parse sock line h = Inr (es, h1)" "\<not> R h h1"
  shows "\<exists>conn m f cmd r. connFor sock h = Some conn \<and> parse line = Some (Some m) \<and> cm_frame m = Some f
    \<and> ce_open e (cn_key conn) f C2d = Some cmd
    \<and> acceptInbound (cn_deviceId conn) (fr_seq f) (hub_reg h) = (True, r)
    \<and> \<not> R (h\<lparr>hub_reg := r\<rparr>) (snd (snd (hc cmd sock (cn_deviceId conn) (h\<lparr>hub_reg := r\<rparr>))))"
proof -
  have u: "R h (snd (snd (handleUnauth e ab snap sock msg h)))" for msg by (rule same_more [OF conn_more_unauth])
  have refl: "R h h" by (rule same_more) simp
  have "connFor sock h \<noteq> None"
  proof
    assume "connFor sock h = None"
    with assms(1) have "h1 = h \<or> (\<exists>msg. snd (handleUnauth e ab snap sock msg h) = (es, h1))"
      by (auto simp: conn_line_def split: if_splits option.splits)
    with refl u assms(2) show False by (metis snd_conv)
  qed
  with refl assms obtain conn m f where c: "connFor sock h = Some conn" "parse line = Some (Some m)" "cm_frame m = Some f"
    and h1: "(es, h1) = handle_frame e hc sock conn f h"
    by (auto simp: conn_line_def split: if_splits option.splits)
  then have h1: "h1 = snd (handle_frame e hc sock conn f h)" by (metis snd_conv)
  from frame_breaks [of h e hc sock conn f] assms(2) c show ?thesis unfolding h1 by blast
qed

lemma lines_break:
  assumes "conn_lines e ab snap hc parse sock ls h = Inr (es, h1)" "\<not> R h h1"
  shows "\<exists>ls1 l ls2 es1 h2 es2 h3. ls = ls1 @ l # ls2 \<and> conn_lines e ab snap hc parse sock ls1 h = Inr (es1, h2)
    \<and> conn_line e ab snap hc parse sock l h2 = Inr (es2, h3) \<and> \<not> R h2 h3"
  using assms
proof (induction ls arbitrary: h es)
  case (Cons l ls)
  obtain es1 h2 where l: "conn_line e ab snap hc parse sock l h = Inr (es1, h2)"
    using Cons.prems(1) by (auto split: sum.splits)
  obtain es2 where r: "conn_lines e ab snap hc parse sock ls h2 = Inr (es2, h1)"
    using Cons.prems(1) l by (auto split: sum.splits)
  show ?case
  proof (cases "R h h2")
    case False
    have "l # ls = [] @ l # ls" "conn_lines e ab snap hc parse sock [] h = Inr ([], h)" by simp_all
    with l False show ?thesis by blast
  next
    case True
    with Cons.prems(2) step_trans have "\<not> R h2 h1" by blast
    from Cons.IH [OF r this] obtain ls1 l' ls2 es1' h2' es2' h3' where
      "ls = ls1 @ l' # ls2" "conn_lines e ab snap hc parse sock ls1 h2 = Inr (es1', h2')"
      "conn_line e ab snap hc parse sock l' h2' = Inr (es2', h3')" "\<not> R h2' h3'" by blast
    moreover from this l have "l # ls = (l # ls1) @ l' # ls2"
      "conn_lines e ab snap hc parse sock (l # ls1) h = Inr (es1 @ es1', h2')" by simp_all
    ultimately show ?thesis by blast
  qed
next
  case Nil
  then show ?case using same_more by auto
qed

lemma data_breaks:
  assumes "conn_data e ab snap hc parse sock chunk h = Inr (es, h1)" "\<not> R h h1"
  shows "\<exists>ls1 l ls2 rest es1 h2 conn m f cmd r. feed_line (cx_buf h sock) chunk = (ls1 @ l # ls2, rest)
    \<and> conn_lines e ab snap hc parse sock ls1 (h\<lparr>cx_buf := (cx_buf h)(sock := rest)\<rparr>) = Inr (es1, h2)
    \<and> connFor sock h2 = Some conn \<and> parse l = Some (Some m) \<and> cm_frame m = Some f
    \<and> ce_open e (cn_key conn) f C2d = Some cmd
    \<and> acceptInbound (cn_deviceId conn) (fr_seq f) (hub_reg h2) = (True, r)
    \<and> \<not> R (h2\<lparr>hub_reg := r\<rparr>) (snd (snd (hc cmd sock (cn_deviceId conn) (h2\<lparr>hub_reg := r\<rparr>))))"
proof -
  obtain ls rest where fl: "feed_line (cx_buf h sock) chunk = (ls, rest)" by fastforce
  let ?h = "h\<lparr>cx_buf := (cx_buf h)(sock := rest)\<rparr>"
  have "R h (forget sock (h\<lparr>cx_buf := (cx_buf h)(sock := [])\<rparr>))" by (rule same_more) (simp add: forget_def)
  with assms fl have l: "conn_lines e ab snap hc parse sock ls ?h = Inr (es, h1)"
    by (auto simp: conn_data_def split_beta Let_def split: if_splits)
  have "R h ?h" by (rule same_more) simp
  with assms(2) step_trans have "\<not> R ?h h1" by blast
  from lines_break [OF l this] obtain ls1 l ls2 es1 h2 es2 h3 where
    "ls = ls1 @ l # ls2" "conn_lines e ab snap hc parse sock ls1 ?h = Inr (es1, h2)"
    and b: "conn_line e ab snap hc parse sock l h2 = Inr (es2, h3)" "\<not> R h2 h3" by blast
  with line_breaks [OF b] fl show ?thesis by blast
qed

end

section \<open>Properties\<close>

text \<open>
  C3: A command runs only for an authentic, fresh frame of an authenticated socket, and for
  the device whose key opened it. If replacing the command handler by another changes what a
  line does, then the socket had completed a handshake, the line was a frame that opens for the
  client-to-daemon direction under that connection's key, its number was not a duplicate for
  that device, and the two handlers differ on exactly that command with exactly that device's id.
\<close>

theorem commands_need_authentic_fresh_frames:
  assumes "conn_line e ab snap hc parse sock line h \<noteq> conn_line e ab snap hc' parse sock line h"
  shows "\<exists>conn m f cmd r. connFor sock h = Some conn \<and> parse line = Some (Some m) \<and> cm_frame m = Some f
    \<and> ce_open e (cn_key conn) f C2d = Some cmd
    \<and> acceptInbound (cn_deviceId conn) (fr_seq f) (hub_reg h) = (True, r)
    \<and> hc cmd sock (cn_deviceId conn) (h\<lparr>hub_reg := r\<rparr>) \<noteq> hc' cmd sock (cn_deviceId conn) (h\<lparr>hub_reg := r\<rparr>)"
proof -
  from assms obtain conn m f where c: "connFor sock h = Some conn" "parse line = Some (Some m)" "cm_frame m = Some f"
    and d: "handle_frame e hc sock conn f h \<noteq> handle_frame e hc' sock conn f h"
    by (auto simp: conn_line_def split: if_splits option.splits)
  obtain cmd where o: "ce_open e (cn_key conn) f C2d = Some cmd"
    using d by (cases "ce_open e (cn_key conn) f C2d") (simp_all add: handle_frame_def)
  obtain ok r where a: "acceptInbound (cn_deviceId conn) (fr_seq f) (hub_reg h) = (ok, r)" by fastforce
  have ok: ok using d o a by (cases ok) (simp_all add: handle_frame_def)
  moreover have "hc cmd sock (cn_deviceId conn) (h\<lparr>hub_reg := r\<rparr>) \<noteq> hc' cmd sock (cn_deviceId conn) (h\<lparr>hub_reg := r\<rparr>)"
  proof
    assume "hc cmd sock (cn_deviceId conn) (h\<lparr>hub_reg := r\<rparr>) = hc' cmd sock (cn_deviceId conn) (h\<lparr>hub_reg := r\<rparr>)"
    with o a d ok show False by (simp add: handle_frame_def Let_def)
  qed
  ultimately show ?thesis using c o a
    by (intro exI [of _ conn] exI [of _ m] exI [of _ f] exI [of _ cmd] exI [of _ r]) simp
qed

text \<open>A connection with one paired device, number 1 already authenticated, and stand-ins for the primitives.\<close>

definition example_device :: PairedDevice where
  "example_device = \<lparr>pd_deviceId = ''d1'', pd_name = ''phone'', pd_publicKey = ''pk'', pd_pairedAt = 0\<rparr>"

definition example_conn_env :: "nat conn_env" where
  "example_conn_env = \<lparr>ce_hub = example_hub_env, ce_open = (\<lambda>k f d. Some (Some List_cmd)), ce_derive = (\<lambda>pk salt. Some 5),
     ce_hmac = (@), ce_salt = decimal, ce_secret = decimal, ce_deviceId = decimal, ce_stringify = (\<lambda>_. ''qr''),
     ce_maxPairedDevices = 10, ce_address = ''unix:///tmp/cc.sock''\<rparr>"

definition example_frame :: "int \<Rightarrow> SealedFrame" where
  "example_frame s = \<lparr>fr_n = [], fr_c = [], fr_t = [], fr_seq = s\<rparr>"

definition example_conn :: "nat ClientConnection" where
  "example_conn = \<lparr>hub_clients = [(1, \<lparr>cn_key = 5, cn_deviceId = ''d1''\<rparr>)], hub_reg = new_registry 200 200, hub_tick = 0,
     cx_identity = (fresh_identity ''D'')\<lparr>id_devices := [example_device]\<rparr>, cx_buf = (\<lambda>_. [])\<rparr>"

theorem commands_need_authentic_fresh_frames_witness:
  "\<exists>conn. connFor 1 example_conn = Some conn \<and> cn_deviceId conn = ''d1''
     \<and> fst (acceptInbound (cn_deviceId conn) 1 (hub_reg example_conn))"
proof -
  let ?parse = "\<lambda>_. Some (Some \<lparr>cm_unauth = Other_msg, cm_frame = Some (example_frame 1)\<rparr>)"
  let ?run = "\<lambda>hc. conn_line example_conn_env True (\<lambda>_. []) hc ?parse 1 ''x'' example_conn"
  have "?run (\<lambda>c s d h. (True, [], h)) \<noteq> ?run (\<lambda>c s d h. (True, [Destroy 9], h))"
    by (simp add: conn_line_def blank_def js_space_def connFor_def example_conn_def handle_frame_def
        example_conn_env_def example_frame_def acceptInbound_def accept_def new_registry_def new_inbound_def
        split_beta Let_def prod_eq_iff)
  from commands_need_authentic_fresh_frames [OF this] show ?thesis
    by (auto simp: example_frame_def connFor_def example_conn_def)
qed

text \<open>
  C21: Trust cannot be minted over the network. A handshake message on a listener that does not
  allow bootstrapping never reveals a pairing secret and never creates one; and on any listener
  the list of trusted devices grows only by a completed pairing that proves the secret pending at
  that moment, before it expires, while the list is below its cap, so the cap is never exceeded.
\<close>

theorem trust_not_minted_remotely:
  assumes "handleUnauth e ab snap sock msg h = (ok, es, h1)"
  shows "(\<not> ab \<longrightarrow> no_qr (written es)
        \<and> (id_pending (cx_identity h1) = id_pending (cx_identity h) \<or> id_pending (cx_identity h1) = None))
    \<and> (id_devices (cx_identity h1) = id_devices (cx_identity h)
       \<or> (\<exists>pk name proof secret expiry device. msg = Complete_pair pk name proof
            \<and> id_pending (cx_identity h) = Some (secret, expiry) \<and> ce_time e h \<le> expiry
            \<and> proof = ce_hmac e secret (pk @ id_publicKey (cx_identity h))
            \<and> id_devices (cx_identity h1) = id_devices (cx_identity h) @ [device] \<and> pd_publicKey device = pk
            \<and> pairedCount (cx_identity h1) \<le> ce_maxPairedDevices e))"
proof (cases msg)
  case Begin_pair
  with assms have "es = fst (begin_pair e ab sock h)" "h1 = snd (begin_pair e ab sock h)" by simp_all
  then show ?thesis by (simp add: begin_pair_def beginPairing_def Let_def)
next
  case (Complete_pair pk name pr)
  with assms have es: "es = fst (complete_pair e sock pk name pr h)" and h1: "h1 = snd (complete_pair e sock pk name pr h)"
    by simp_all
  have "no_qr (written es)" unfolding es by (simp add: complete_pair_def split_beta split: sum.split)
  with complete_pair_identity [of e sock pk name pr h] show ?thesis unfolding h1 Complete_pair by auto
next
  case (Hello d ls)
  then show ?thesis using assms cx_identity_hello [of e snap sock d ls h] no_qr_hello [of e snap sock d ls h] by simp
qed (use assms in auto)

theorem trust_not_minted_remotely_witness:
  "no_qr (written (fst (snd (handleUnauth example_conn_env False (\<lambda>_. []) 2 Begin_pair example_conn))))"
proof -
  obtain ok es h1 where r: "handleUnauth example_conn_env False (\<lambda>_. []) 2 Begin_pair example_conn = (ok, es, h1)"
    by (rule prod_cases3)
  with trust_not_minted_remotely [OF r] show ?thesis by simp
qed



text \<open>
  An authenticated socket can end the daemon with the line \<^verbatim>\<open>null\<close>. A plaintext hello with a
  known device id, which proves nothing about its sender, authenticates the socket; the next line
  that parses to null then reads a field of null outside the guard. No other line throws, and
  before the hello null only closes the connection.
\<close>

theorem null_line_ends_daemon:
  "(\<exists>err. conn_line e ab snap hc parse sock line h = Inl err) \<longleftrightarrow>
     \<not> blank line \<and> parse line = Some None \<and> isAuthenticated sock h"
  by (auto simp: conn_line_def connFor_def isAuthenticated_def js_has_def split: option.split)

end
