(* ===== verification/Daemon.thy ===== *)
theory Daemon
  imports ClientConnection HookBridge Jobs
begin

text \<open>
  The composition root, \<^verbatim>\<open>packages/daemon/src/index.ts\<close>, with the session wiring and the command
  dispatcher of \<^verbatim>\<open>application/commands.ts\<close> and the push use case of \<^verbatim>\<open>application/pushService.ts\<close>.
  The state extends the client connection layer with the sessions (\<open>dm_heap\<close> holds every session
  object, \<open>dm_fleet\<close> the keys of the live map), the hook server with its broker, the job queue and
  the store. What reaches clients is the list of hub effects; what reaches a session's stdin, a
  hook socket, a new process or the push service is appended to \<open>dm_trace\<close>. Log lines are left out.
\<close>

datatype daemon_effect =
    Stdin string json
  | Hook_out hook_effect
  | Process SpawnRequest
  | Push_ping "string list"

record 'k Daemon = "'k ClientConnection" +
  dm_heap :: "(string, Session) jsmap"
  dm_fleet :: "string list"
  dm_exits :: "(string, string) jsmap"
  dm_hooks :: HookServer
  dm_jobs :: JobQueue
  dm_db :: Db
  dm_trace :: "daemon_effect list"

record 'k daemon_env =
  de_conn :: "'k conn_env"
  de_jobs :: job_env
  de_uuid :: "nat \<Rightarrow> string"
  de_parse :: "string \<Rightarrow> json option"
  de_message :: "string \<Rightarrow> client_message option option"
  de_selfDenyMs :: int

type_synonym 'k dstep = "'k Daemon \<Rightarrow> hub_effect list \<times> 'k Daemon"

fun do_all :: "'k dstep list \<Rightarrow> 'k dstep" where
  "do_all [] d = ([], d)"
| "do_all (f # fs) d = (let (es, d1) = f d; (gs, d2) = do_all fs d1 in (es @ gs, d2))"

definition silently :: "('k Daemon \<Rightarrow> 'k Daemon) \<Rightarrow> 'k dstep" where
  "silently f d = ([], f d)"

definition trace_out :: "daemon_effect \<Rightarrow> 'k dstep" where
  "trace_out x = silently (\<lambda>d. d\<lparr>dm_trace := dm_trace d @ [x]\<rparr>)"

definition de_now :: "'k daemon_env \<Rightarrow> 'k Daemon \<Rightarrow> int" where
  "de_now e d = ce_time (de_conn e) d"

definition de_broadcast :: "'k daemon_env \<Rightarrow> ServerEvent \<Rightarrow> 'k dstep" where
  "de_broadcast e ev d = broadcast (ce_hub (de_conn e)) ev d"

definition reply :: "'k daemon_env \<Rightarrow> nat \<Rightarrow> ServerEvent \<Rightarrow> 'k dstep" where
  "reply e sock ev d = sendTo (ce_hub (de_conn e)) sock ev d"

section \<open>Sessions\<close>

definition fleet_get :: "string \<Rightarrow> 'k Daemon \<Rightarrow> Session option" where
  "fleet_get i d = (if i \<in> set (dm_fleet d) then map_of (dm_heap d) i else None)"

definition fleet :: "'k Daemon \<Rightarrow> (string, Session) jsmap" where
  "fleet d = List.map_filter (\<lambda>i. map_option (Pair i) (map_of (dm_heap d) i)) (dm_fleet d)"

definition put_session :: "Session \<Rightarrow> 'k Daemon \<Rightarrow> 'k Daemon" where
  "put_session s d = d\<lparr>dm_heap := js_set (ss_id s) s (dm_heap d)\<rparr>"

definition session_update :: "'k daemon_env \<Rightarrow> string \<Rightarrow> 'k dstep" where
  "session_update e i d =
     (case map_of (dm_heap d) i of
        None \<Rightarrow> ([], d) | Some s \<Rightarrow> de_broadcast e (Session_update (session_info s)) d)"

text \<open>
  \<^verbatim>\<open>onSession\<close>: record the session, then \<^verbatim>\<open>wire\<close> it into the fleet and announce it. When the store
  refuses the row it throws before anything listens to the session, which is the answer
  \<open>Setup_threw\<close> of the job queue's environment. \<open>dm_exits\<close> holds, per session, the job
  whose queue listens to its exit.
\<close>

definition on_session :: "'k daemon_env \<Rightarrow> string \<Rightarrow> string \<Rightarrow> 'k dstep" where
  "on_session e jid sid d =
     (case map_of (jq_heap (dm_jobs d)) jid of
        None \<Rightarrow> ([], d)
      | Some job \<Rightarrow>
          (let s = new_session sid (request_of job) (de_now e d)
           in case recordSessionStarted sid (ss_cwd s) (ss_label s) (ss_startedAt s) (dm_db d) of
                None \<Rightarrow> ([], d)
              | Some db \<Rightarrow>
                  session_update e sid (put_session s (d\<lparr>dm_db := db, dm_fleet := set_add sid (dm_fleet d),
                    dm_exits := js_set sid jid (dm_exits d)\<rparr>))))"

section \<open>Job effects\<close>

fun job_effect_step :: "'k daemon_env \<Rightarrow> job_effect \<Rightarrow> 'k dstep" where
  "job_effect_step e (Emit_update job) d = de_broadcast e (Job_update job) d"
| "job_effect_step e (Do_spawn req) d = trace_out (Process req) d"
| "job_effect_step e (On_session jid sid) d = on_session e jid sid d"
| "job_effect_step e x d = ([], d\<lparr>dm_db := store_effect x (dm_db d)\<rparr>)"

definition job_effects_step :: "'k daemon_env \<Rightarrow> job_effect list \<Rightarrow> 'k dstep" where
  "job_effects_step e xs = do_all (map (job_effect_step e) xs)"

section \<open>Session effects\<close>

text \<open>
  The listeners of \<^verbatim>\<open>exit\<close> in the order they were registered: announce and drop from the fleet,
  record the end, release the job. An error of the last is uncaught.
\<close>

definition session_ended :: "'k daemon_env \<Rightarrow> string \<Rightarrow> int option \<Rightarrow> 'k dstep" where
  "session_ended e sid code =
     do_all [session_update e sid, silently (\<lambda>d. d\<lparr>dm_fleet := set_delete sid (dm_fleet d)\<rparr>),
       silently (\<lambda>d. case map_of (dm_heap d) sid of
         None \<Rightarrow> d
       | Some s \<Rightarrow> d\<lparr>dm_db := recordSessionEnded sid (ss_state s) code (de_now e d) (dm_db d)\<rparr>)]"

definition session_exit :: "'k daemon_env \<Rightarrow> string \<Rightarrow> int option \<Rightarrow> string option \<Rightarrow> 'k Daemon \<Rightarrow>
    js_error option \<times> hub_effect list \<times> 'k Daemon" where
  "session_exit e sid code err d =
     (let (es, d1) = session_ended e sid code d
      in case map_of (dm_exits d1) sid of
           None \<Rightarrow> (None, es, d1)
         | Some jid \<Rightarrow>
             (let (r, xs, q) = job_exit (de_jobs e) jid code err (dm_jobs d1);
                  (fs, d2) = job_effects_step e xs (d1\<lparr>dm_jobs := q\<rparr>)
              in (r, es @ fs, d2)))"

definition session_state_changed :: "'k daemon_env \<Rightarrow> string \<Rightarrow> 'k dstep" where
  "session_state_changed e sid =
     do_all [session_update e sid,
        silently (\<lambda>d. case map_of (dm_heap d) sid of
          None \<Rightarrow> d
        | Some s \<Rightarrow> d\<lparr>dm_db := updateSessionActivity sid (ss_claudeSessionId s) (ss_model s) (ss_lastActivityAt s) (dm_db d)\<rparr>)]"

fun session_effect_step :: "'k daemon_env \<Rightarrow> string \<Rightarrow> session_effect \<Rightarrow> 'k Daemon \<Rightarrow>
    js_error option \<times> hub_effect list \<times> 'k Daemon" where
  "session_effect_step e sid (Emit_state _) d = (None, session_state_changed e sid d)"
| "session_effect_step e sid (Emit_stream ev) d = (None, de_broadcast e (Stream sid ev) d)"
| "session_effect_step e sid (Emit_stderr _) d = (None, [], d)"
| "session_effect_step e sid (Emit_exit code err) d = session_exit e sid code err d"
| "session_effect_step e sid (Write_stdin j) d = (None, trace_out (Stdin sid j) d)"

fun session_effects_step :: "'k daemon_env \<Rightarrow> string \<Rightarrow> session_effect list \<Rightarrow> 'k Daemon \<Rightarrow>
    js_error option \<times> hub_effect list \<times> 'k Daemon" where
  "session_effects_step e sid [] d = (None, [], d)"
| "session_effects_step e sid (x # xs) d =
     (case session_effect_step e sid x d of
        (Some err, es, d1) \<Rightarrow> (Some err, es, d1)
      | (None, es, d1) \<Rightarrow> (let (r, fs, d2) = session_effects_step e sid xs d1 in (r, es @ fs, d2)))"

text \<open>
  An input of a session (from its process or a command): the session changes, then its effects are
  observed. Emission is synchronous, so an effect in the middle of a chunk is observed before the
  later lines are handled; for commands, which emit once, this is exact.
\<close>

definition session_input_step :: "'k daemon_env \<Rightarrow> (string \<Rightarrow> json option) \<Rightarrow> string \<Rightarrow> session_input \<Rightarrow> 'k Daemon \<Rightarrow>
    js_error option \<times> hub_effect list \<times> 'k Daemon" where
  "session_input_step e parse sid x d =
     (case map_of (dm_heap d) sid of
        None \<Rightarrow> (None, [], d)
      | Some s \<Rightarrow>
          (case session_step parse x s of
             (Some err, ses, s1) \<Rightarrow> (Some err, snd (session_effects_step e sid ses (put_session s1 d)))
           | (None, ses, s1) \<Rightarrow> session_effects_step e sid ses (put_session s1 d)))"

section \<open>Hook effects\<close>

definition upd_session :: "string \<Rightarrow> (Session \<Rightarrow> Session) \<Rightarrow> 'k Daemon \<Rightarrow> 'k Daemon" where
  "upd_session sid f d =
     (case map_of (dm_heap d) sid of None \<Rightarrow> d | Some s \<Rightarrow> d\<lparr>dm_heap := js_set sid (f s) (dm_heap d)\<rparr>)"

definition push_register :: "'k daemon_env \<Rightarrow> string \<Rightarrow> string \<Rightarrow> PushPlatform \<Rightarrow> 'k dstep" where
  "push_register e deviceId token platform =
     silently (\<lambda>d. d\<lparr>dm_db := upsertPushRegistration deviceId token platform (de_now e d) (dm_db d)\<rparr>)"

definition push_unregister :: "string \<Rightarrow> 'k dstep" where
  "push_unregister deviceId = silently (\<lambda>d. d\<lparr>dm_db := deletePushRegistration deviceId (dm_db d)\<rparr>)"

definition notifyApprovalPending :: "'k dstep" where
  "notifyApprovalPending d =
     (let tokens = listPushTokens (dm_db d) in if tokens = [] then ([], d) else trace_out (Push_ping tokens) d)"

fun hook_effect_step :: "'k daemon_env \<Rightarrow> hook_effect \<Rightarrow> 'k dstep" where
  "hook_effect_step e (Track sid t) d = ([], upd_session sid (trackPendingApproval t) d)"
| "hook_effect_step e (Untrack sid t) d = ([], upd_session sid (untrackPendingApproval t) d)"
| "hook_effect_step e (Owner_update sid) d = session_update e sid d"
| "hook_effect_step e (Db_requested a) d =
     ([], d\<lparr>dm_db := (case recordApprovalRequested a (dm_db d) of None \<Rightarrow> dm_db d | Some db \<Rightarrow> db)\<rparr>)"
| "hook_effect_step e Notify_push d = notifyApprovalPending d"
| "hook_effect_step e (Db_decided a) d =
     ([], case pa_decision a of
            None \<Rightarrow> d | Some dec \<Rightarrow> d\<lparr>dm_db := recordApprovalDecision (pa_toolUseId a) dec (dm_db d)\<rparr>)"
| "hook_effect_step e (Broadcast ev) d = de_broadcast e ev d"
| "hook_effect_step e x d = trace_out (Hook_out x) d"

definition hook_effects_step :: "'k daemon_env \<Rightarrow> hook_effect list \<Rightarrow> 'k dstep" where
  "hook_effects_step e xs = do_all (map (hook_effect_step e) xs)"

section \<open>The snapshot\<close>

definition snapshot :: "'k Daemon \<Rightarrow> ServerEvent list" where
  "snapshot d =
     Session_list (map session_info (js_values (fleet d)))
     # map Approval_pending (broker_list (hk_broker (dm_hooks d)))
     @ map Job_update (mergeSnapshotJobs (job_list (dm_jobs d)) (queryRecentJobs 50 (dm_db d)))"

section \<open>Commands\<close>

text \<open>\<^verbatim>\<open>Number.isInteger(cmd.limit) && cmd.limit! > 0 ? Math.min(cmd.limit!, 500) : 50\<close>\<close>

definition history_limit :: "jsnum option \<Rightarrow> nat" where
  "history_limit v =
     (case v of Some (Fin r) \<Rightarrow> if of_int \<lfloor>r\<rfloor> = r \<and> 0 < r then nat (min \<lfloor>r\<rfloor> 500) else 50 | _ \<Rightarrow> 50)"

definition no_session :: "'k daemon_env \<Rightarrow> nat \<Rightarrow> string \<Rightarrow> 'k dstep" where
  "no_session e sock sid = reply e sock (Error_event (No_session sid))"

text \<open>A steering command to a live session; a throwing listener makes the handler throw.\<close>

definition steer :: "'k daemon_env \<Rightarrow> nat \<Rightarrow> string \<Rightarrow> session_input \<Rightarrow> 'k Daemon \<Rightarrow>
    bool \<times> hub_effect list \<times> 'k Daemon" where
  "steer e sock sid x d =
     (case fleet_get sid d of
        None \<Rightarrow> (True, no_session e sock sid d)
      | Some s \<Rightarrow> (let (r, es, d1) = session_input_step e (\<lambda>_. None) sid x d in (r = None, es, d1)))"

definition run_spawn :: "'k daemon_env \<Rightarrow> SpawnRequest \<Rightarrow> nat \<Rightarrow> string \<Rightarrow> 'k Daemon \<Rightarrow>
    bool \<times> hub_effect list \<times> 'k Daemon" where
  "run_spawn e req sock deviceId d =
     (let (r, xs, q) = enqueue (de_jobs e) (de_uuid e (hub_tick d)) req deviceId (dm_jobs d);
          (es, d1) = job_effects_step e xs (d\<lparr>dm_jobs := q\<rparr>)
      in case r of
           Inl err \<Rightarrow> (False, es, d1)
         | Inr job \<Rightarrow>
             if j_state job = Failed
             then (let (fs, d2) = reply e sock (Error_event (Job_refused (the (j_error job)))) d1 in (True, es @ fs, d2))
             else (True, es, d1))"

definition spawn_command :: "'k daemon_env \<Rightarrow> SpawnRequest \<Rightarrow> nat \<Rightarrow> string \<Rightarrow> 'k Daemon \<Rightarrow>
    bool \<times> hub_effect list \<times> 'k Daemon" where
  "spawn_command e req sock deviceId d =
     (case sr_permissionMode req of
        Some mode \<Rightarrow> if \<not> permissionModeIsAllowed mode
          then (True, reply e sock (Error_event (permissionModeRefusal mode)) d)
          else run_spawn e req sock deviceId d
      | None \<Rightarrow> run_spawn e req sock deviceId d)"

text \<open>The device comes first in the attribution and is the authenticated one.\<close>

definition attribution :: "string \<Rightarrow> string \<Rightarrow> string" where
  "attribution deviceId who = deviceId @ '' ('' @ who @ '')''"

definition decide_command :: "'k daemon_env \<Rightarrow> string \<Rightarrow> verdict \<Rightarrow> string option \<Rightarrow> string \<Rightarrow> nat \<Rightarrow> string \<Rightarrow> 'k dstep" where
  "decide_command e toolUseId v reason who sock deviceId d =
     (let (outcome, xs, h) = hook_decide toolUseId v (default_to [] reason) (attribution deviceId who)
                               (de_now e d) (dm_hooks d);
          (es, d1) = hook_effects_step e xs (d\<lparr>dm_hooks := h\<rparr>)
      in case outcome of
           Decide_unknown \<Rightarrow> (let (fs, d2) = reply e sock (Error_event (No_pending_approval toolUseId)) d1 in (es @ fs, d2))
         | Decide_already \<Rightarrow>
             (let (fs, d2) = reply e sock (Error_event (Already_decided
                    (map_option d_by (Option.bind (broker_get toolUseId (hk_broker h)) pa_decision)))) d1
              in (es @ fs, d2))
         | Decide_ok \<Rightarrow> (es, d1))"

definition revoke_command :: "'k daemon_env \<Rightarrow> string \<Rightarrow> nat \<Rightarrow> 'k dstep" where
  "revoke_command e target sock d =
     (let (ok, i) = revoke_device target (cx_identity d);
          d1 = d\<lparr>cx_identity := i\<rparr>
      in if \<not> ok then reply e sock (Error_event (No_such_device target)) d1
         else do_all [push_unregister target, reply e sock (Revoked target), disconnectDevice target] d1)"

fun handleCommand :: "'k daemon_env \<Rightarrow> ClientCommand option \<Rightarrow> nat \<Rightarrow> string \<Rightarrow> 'k Daemon \<Rightarrow>
    bool \<times> hub_effect list \<times> 'k Daemon" where
  "handleCommand e (Some List_cmd) sock dev d =
     (True, reply e sock (Session_list (map session_info (js_values (fleet d)))) d)"
| "handleCommand e (Some (History limit)) sock dev d =
     (True, reply e sock (Approval_history (queryRecentApprovals (history_limit limit) (dm_db d))) d)"
| "handleCommand e (Some (Spawn req)) sock dev d = spawn_command e req sock dev d"
| "handleCommand e (Some (Send sid text)) sock dev d = steer e sock sid (Cmd_send text) d"
| "handleCommand e (Some (Interrupt sid)) sock dev d = steer e sock sid (Cmd_interrupt (de_uuid e (hub_tick d))) d"
| "handleCommand e (Some (Set_model sid m)) sock dev d = steer e sock sid (Cmd_model (de_uuid e (hub_tick d)) m) d"
| "handleCommand e (Some (Set_permission_mode sid mode)) sock dev d =
     (case fleet_get sid d of
        None \<Rightarrow> (True, no_session e sock sid d)
      | Some s \<Rightarrow> if \<not> permissionModeIsAllowed mode
          then (True, reply e sock (Error_event (permissionModeRefusal mode)) d)
          else steer e sock sid (Cmd_mode (de_uuid e (hub_tick d)) mode) d)"
| "handleCommand e (Some (Decide i v reason who)) sock dev d = (True, decide_command e i v reason who sock dev d)"
| "handleCommand e (Some (Revoke target)) sock dev d = (True, revoke_command e target sock d)"
| "handleCommand e (Some (Register_push token platform)) sock dev d =
     (True, push_register e dev token platform d)"
| "handleCommand e None sock dev d = (False, [], d)"

section \<open>The daemon's inputs\<close>

text \<open>
  Everything that reaches the daemon: bytes and the end of a client socket (with the listener it
  came in on, and only the local one may bootstrap trust), the same for a hook socket, a due retention timer of the
  broker, and what a session's process does (the steering inputs of a session come only from the
  command dispatcher). An uncaught exception ends the process; what the lines before it in the
  same chunk did is then not shown.
\<close>

datatype listener = Unix_listener | Tcp_listener | Ws_listener

definition allowPairingBootstrap :: "listener \<Rightarrow> bool" where
  "allowPairingBootstrap via \<longleftrightarrow> via = Unix_listener"

datatype daemon_input =
    Client_data listener nat string
  | Client_close nat
  | Hook_bytes nat string
  | Hook_closed nat
  | Timer "string \<times> int"
  | Process_event string session_input

definition apply_hooks :: "'k daemon_env \<Rightarrow> hook_effect list \<times> HookServer \<Rightarrow> 'k dstep" where
  "apply_hooks e r d = hook_effects_step e (fst r) (d\<lparr>dm_hooks := snd r\<rparr>)"

fun daemon_step :: "'k daemon_env \<Rightarrow> daemon_input \<Rightarrow> 'k Daemon \<Rightarrow>
    js_error option \<times> hub_effect list \<times> 'k Daemon" where
  "daemon_step e (Client_data via sock chunk) d =
     (case conn_data (de_conn e) (allowPairingBootstrap via) snapshot (handleCommand e) (de_message e) sock chunk d of
        Inl err \<Rightarrow> (Some err, [], d) | Inr r \<Rightarrow> (None, r))"
| "daemon_step e (Client_close sock) d = (None, [], conn_close sock d)"
| "daemon_step e (Hook_bytes k chunk) d =
     (case hook_data (de_parse e) (fleet d) (de_selfDenyMs e) (de_now e d) k chunk (dm_hooks d) of
        Inl err \<Rightarrow> (Some err, [], d) | Inr r \<Rightarrow> (None, apply_hooks e r d))"
| "daemon_step e (Hook_closed k) d = (None, apply_hooks e (hook_close k (de_now e d) (dm_hooks d)) d)"
| "daemon_step e (Timer tm) d = (None, [], d\<lparr>dm_hooks := hook_timer tm (de_now e d) (dm_hooks d)\<rparr>)"
| "daemon_step e (Process_event sid x) d =
     (if is_command x then (None, [], d) else session_input_step e (de_parse e) sid x d)"

fun daemon_run :: "'k daemon_env \<Rightarrow> daemon_input list \<Rightarrow> 'k Daemon \<Rightarrow>
    js_error option \<times> hub_effect list \<times> 'k Daemon" where
  "daemon_run e [] d = (None, [], d)"
| "daemon_run e (x # xs) d =
     (case daemon_step e x d of
        (Some err, es, d1) \<Rightarrow> (Some err, es, d1)
      | (None, es, d1) \<Rightarrow> (let (r, fs, d2) = daemon_run e xs d1 in (r, es @ fs, d2)))"

text \<open>The daemon at boot: orphaned rows are reconciled and nothing is connected.\<close>

definition boot :: "Identity \<Rightarrow> nat \<Rightarrow> nat \<Rightarrow> int \<Rightarrow> Db \<Rightarrow> 'k Daemon" where
  "boot i devicesCap eventsCap bootTime db =
     \<lparr>hub_clients = [], hub_reg = new_registry devicesCap eventsCap, hub_tick = 0, cx_identity = i,
      cx_buf = (\<lambda>_. []), dm_heap = [], dm_fleet = [], dm_exits = [], dm_hooks = new_hook_server, dm_jobs = new_queue,
      dm_db = snd (reconcileOrphanedJobs bootTime (snd (reconcileOrphanedSessions bootTime db))), dm_trace = []\<rparr>"

section \<open>Frame conditions\<close>

text \<open>The hub leaves the daemon's own fields alone.\<close>

lemma dm_of_more:
  assumes "ClientHub.ClientHub.more d1 = ClientHub.ClientHub.more d"
  shows "cx_identity d1 = cx_identity d" "cx_buf d1 = cx_buf d" "dm_heap d1 = dm_heap d" "dm_fleet d1 = dm_fleet d"
    "dm_exits d1 = dm_exits d" "dm_hooks d1 = dm_hooks d" "dm_jobs d1 = dm_jobs d" "dm_db d1 = dm_db d"
    "dm_trace d1 = dm_trace d"
proof -
  have "cx_identity d1 = cx_identity d \<and> cx_buf d1 = cx_buf d \<and> dm_heap d1 = dm_heap d \<and> dm_fleet d1 = dm_fleet d
    \<and> dm_exits d1 = dm_exits d \<and> dm_hooks d1 = dm_hooks d \<and> dm_jobs d1 = dm_jobs d \<and> dm_db d1 = dm_db d
    \<and> dm_trace d1 = dm_trace d"
    using assms by (cases d1; cases d) simp
  then show "cx_identity d1 = cx_identity d" "cx_buf d1 = cx_buf d" "dm_heap d1 = dm_heap d" "dm_fleet d1 = dm_fleet d"
    "dm_exits d1 = dm_exits d" "dm_hooks d1 = dm_hooks d" "dm_jobs d1 = dm_jobs d" "dm_db d1 = dm_db d"
    "dm_trace d1 = dm_trace d" by simp_all
qed

section \<open>A concrete daemon\<close>

text \<open>One paired device on socket 3, one pending approval held by hook socket 7, and an allow on the way.\<close>

definition daemon_approval :: PendingApproval where
  "daemon_approval = \<lparr>pa_toolUseId = ''t1'', pa_sessionId = ''s1'', pa_toolName = ''Bash'', pa_toolInput = JNull,
     pa_description = None, pa_requestedAt = 0, pa_deadlineAt = 9, pa_decision = None\<rparr>"

definition example_daemon_env :: "nat daemon_env" where
  "example_daemon_env = \<lparr>de_conn = example_conn_env\<lparr>ce_open := (\<lambda>k f d. Some (Some (Decide ''t1'' Allow (Some ''ok'') ''me'')))\<rparr>,
     de_jobs = \<lparr>je_max = None, je_check = (\<lambda>_ _. Inr Margin_ok), je_spawn = (\<lambda>n _. Spawned (decimal n)), je_now = int\<rparr>,
     de_uuid = decimal, de_parse = (\<lambda>_. None),
     de_message = (\<lambda>_. Some (Some \<lparr>cm_unauth = Other_msg, cm_frame = Some (example_frame 1)\<rparr>)), de_selfDenyMs = 5\<rparr>"

definition example_daemon :: "nat Daemon" where
  "example_daemon = (boot ((fresh_identity ''D'')\<lparr>id_devices := [example_device]\<rparr>) 200 200 0 empty_db)
     \<lparr>hub_clients := [(3, \<lparr>cn_key = 5, cn_deviceId = ''d1''\<rparr>)],
      dm_hooks := new_hook_server\<lparr>hk_broker := \<lparr>bk_pending = [(''t1'', daemon_approval)],
        bk_waiters = [(''t1'', \<lparr>hw_sock = 7, hw_owner = None, hw_tool = ''t1''\<rparr>)], bk_timers = []\<rparr>\<rparr>\<rparr>"


abbreviation example_input :: daemon_input where
  "example_input \<equiv> Client_data Unix_listener 3 [CHR ''x'', newline]"


lemma example_lines:
  "conn_data c ab snap hc parse 3 [CHR ''x'', newline] example_daemon =
     conn_lines c ab snap hc parse 3 [''x''] (example_daemon\<lparr>cx_buf := \<lambda>_. []\<rparr>)"
proof -
  have "line_loop [CHR ''x'', newline] = ([''x''], [])" using line_loop_line [of "''x''" "[]"] by simp
  moreover have "cx_buf example_daemon = (\<lambda>_. [])" "isAuthenticated 3 example_daemon"
    by (simp_all add: example_daemon_def boot_def isAuthenticated_def js_has_def)
  ultimately show ?thesis by (simp add: conn_data_def feed_line_def MAX_LINE_AUTHENTICATED_def fun_upd_idem)
qed

lemma hub_frame [simp]:
  "dm_trace (snd (de_broadcast e ev d)) = dm_trace d" "dm_hooks (snd (de_broadcast e ev d)) = dm_hooks d"
  "dm_trace (snd (send_ack c s conn d)) = dm_trace d" "dm_hooks (snd (send_ack c s conn d)) = dm_hooks d"
proof -
  have b: "ClientHub.ClientHub.more (snd (de_broadcast e ev d)) = ClientHub.ClientHub.more d"
    by (simp add: de_broadcast_def)
  have a: "ClientHub.ClientHub.more (snd (send_ack c s conn d)) = ClientHub.ClientHub.more d" by simp
  show "dm_trace (snd (de_broadcast e ev d)) = dm_trace d" "dm_hooks (snd (de_broadcast e ev d)) = dm_hooks d"
    "dm_trace (snd (send_ack c s conn d)) = dm_trace d" "dm_hooks (snd (send_ack c s conn d)) = dm_hooks d"
    by (rule dm_of_more [OF b] dm_of_more [OF a])+
qed

lemma example_decide:
  fixes r defines "d \<equiv> example_daemon\<lparr>cx_buf := \<lambda>_. [], hub_reg := r\<rparr>"
  shows "dm_trace (snd (snd (handleCommand example_daemon_env (Some (Decide ''t1'' Allow (Some ''ok'') ''me'')) 3 ''d1'' d)))
      = [Hook_out (Hook_write 7 Allow ''ok'')]"
    and "broker_by (attribution ''d1'' ''me'') (hk_broker (dm_hooks (snd (snd (handleCommand example_daemon_env
      (Some (Decide ''t1'' Allow (Some ''ok'') ''me'')) 3 ''d1'' d)))))"
  by (simp_all add: d_def decide_command_def hook_decide_def broker_decide_def example_daemon_def boot_def
      new_hook_server_def daemon_approval_def settle_def default_to_def hook_effects_def hook_effects_step_def
      trace_out_def silently_def broker_by_def Let_def split_beta)

lemma example_step:
  fixes d1 defines "d1 \<equiv> snd (snd (daemon_step example_daemon_env example_input example_daemon))"
  shows "dm_trace d1 = dm_trace example_daemon @ [Hook_out (Hook_write 7 Allow ''ok'')]"
    and "broker_by (attribution ''d1'' ''me'') (hk_broker (dm_hooks d1))"
proof -
  let ?h = "example_daemon\<lparr>cx_buf := \<lambda>_. []\<rparr>"
  obtain r where r: "acceptInbound ''d1'' 1 (hub_reg ?h) = (True, r)"
    by (simp add: example_daemon_def boot_def acceptInbound_def accept_def new_registry_def new_inbound_def split_beta Let_def)
  obtain ok es d2 where c: "handleCommand example_daemon_env (Some (Decide ''t1'' Allow (Some ''ok'') ''me'')) 3 ''d1''
      (?h\<lparr>hub_reg := r\<rparr>) = (ok, es, d2)" by (rule prod_cases3)
  have conn: "connFor 3 ?h = Some \<lparr>cn_key = 5, cn_deviceId = ''d1''\<rparr>"
    by (simp add: example_daemon_def boot_def connFor_def)
  have env: "ce_open (de_conn example_daemon_env) k f x = Some (Some (Decide ''t1'' Allow (Some ''ok'') ''me''))"
    "de_message example_daemon_env l = Some (Some \<lparr>cm_unauth = Other_msg, cm_frame = Some (example_frame 1)\<rparr>)" for k f x l
    by (simp_all add: example_daemon_env_def)
  have "dm_trace d1 = dm_trace d2 \<and> dm_hooks d1 = dm_hooks d2"
    unfolding d1_def using r c conn env
    by (simp add: example_lines conn_line_def blank_def js_space_def handle_frame_def example_frame_def split_beta Let_def)
  moreover have "dm_trace example_daemon = []" by (simp add: example_daemon_def boot_def)
  ultimately show "dm_trace d1 = dm_trace example_daemon @ [Hook_out (Hook_write 7 Allow ''ok'')]"
    "broker_by (attribution ''d1'' ''me'') (hk_broker (dm_hooks d1))"
    using example_decide [of r] c by simp_all
qed

end
