(* ===== verification/DaemonTrace.thy ===== *)
theory DaemonTrace
  imports Daemon
begin

text \<open>
  What may leave the daemon: for a predicate on processes, stdin lines and hook answers, which
  steps can add something that violates it. From this: no allow without an authenticated
  decision, and no session in a mode that bypasses approvals. The connection layer takes part
  through the locale \<open>handler_frame\<close>.
\<close>

section \<open>What may leave the daemon\<close>

text \<open>
  For a predicate \<open>P\<close> on what leaves the daemon: every job object, if started, spawns a process
  that satisfies it, and a step appends to the trace only what satisfies it.
\<close>

definition jobs_meet :: "(daemon_effect \<Rightarrow> bool) \<Rightarrow> JobQueue \<Rightarrow> bool" where
  "jobs_meet P q \<longleftrightarrow> (\<forall>i job. map_of (jq_heap q) i = Some job \<longrightarrow> P (Process (request_of job)))"

definition spawns_meet :: "(daemon_effect \<Rightarrow> bool) \<Rightarrow> job_effect list \<Rightarrow> bool" where
  "spawns_meet P xs \<longleftrightarrow> (\<forall>req. Do_spawn req \<in> set xs \<longrightarrow> P (Process req))"

definition adds :: "(daemon_effect \<Rightarrow> bool) \<Rightarrow> 'k Daemon \<Rightarrow> 'k Daemon \<Rightarrow> bool" where
  "adds P d d1 \<longleftrightarrow> (jobs_meet P (dm_jobs d) \<longrightarrow>
     jobs_meet P (dm_jobs d1) \<and> (\<exists>ys. dm_trace d1 = dm_trace d @ ys \<and> list_all P ys))"

lemma adds_refl [simp, intro]: "adds P d d"
  by (simp add: adds_def)

lemma adds_trans [trans]: "adds P d d1 \<Longrightarrow> adds P d1 d2 \<Longrightarrow> adds P d d2"
  by (fastforce simp: adds_def)

lemma adds_same: "dm_jobs d1 = dm_jobs d \<Longrightarrow> dm_trace d1 = dm_trace d \<Longrightarrow> adds P d d1"
  by (simp add: adds_def)

lemma request_of_update [simp]:
  "request_of (job\<lparr>j_state := s\<rparr>) = request_of job"
  "request_of (job\<lparr>j_error := er\<rparr>) = request_of job"
  "request_of (job\<lparr>j_finishedAt := f\<rparr>) = request_of job"
  "request_of (job\<lparr>j_startedAt := f\<rparr>) = request_of job"
  "request_of (job\<lparr>j_sessionId := i\<rparr>) = request_of job"
  by (simp_all add: request_of_def)

lemma jobs_meet_store: "jobs_meet P q \<Longrightarrow> P (Process (request_of job)) \<Longrightarrow> jobs_meet P (store_job job q)"
  by (simp add: jobs_meet_def store_job_def)

lemma jobs_meet_heap: "jq_heap q1 = jq_heap q \<Longrightarrow> jobs_meet P q1 = jobs_meet P q"
  by (simp add: jobs_meet_def)

lemma spawns_meet_simps [simp]:
  "spawns_meet P []" "spawns_meet P (xs @ ys) = (spawns_meet P xs \<and> spawns_meet P ys)"
  "spawns_meet P (Insert_job j # xs) = spawns_meet P xs" "spawns_meet P (Update_state i p # xs) = spawns_meet P xs"
  "spawns_meet P (Emit_update j # xs) = spawns_meet P xs" "spawns_meet P (On_session i s # xs) = spawns_meet P xs"
  "spawns_meet P (Do_spawn req # xs) = (P (Process req) \<and> spawns_meet P xs)"
  by (auto simp: spawns_meet_def)

lemma finish_job_meets:
  assumes "jobs_meet P q" "P (Process (request_of job))"
  shows "jobs_meet P (snd (finish_job job s er now q)) \<and> spawns_meet P (fst (finish_job job s er now q))"
  using assms by (simp add: jobs_meet_def finish_job_def drop_live_def store_job_def Let_def)

lemma start_job_meets:
  assumes "jobs_meet P q" "P (Process (request_of job))"
  shows "jobs_meet P (snd (start_job e job q)) \<and> spawns_meet P (fst (start_job e job q))"
  using assms
  by (auto simp: start_job_def finish_job_def Let_def jobs_meet_def tick_def store_job_def drop_live_def split: spawn_result.split)

lemma tryStart_meets:
  assumes "jobs_meet P q"
  shows "jobs_meet P (snd (snd (tryStart e i q))) \<and> spawns_meet P (fst (snd (tryStart e i q)))"
proof (cases "map_of (jq_heap q) i")
  case (Some job)
  with assms have p: "P (Process (request_of job))" by (simp add: jobs_meet_def)
  have t: "jobs_meet P (tick q)" using assms by (simp add: jobs_meet_def)
  show ?thesis
    using assms t Some start_job_meets [OF t p] finish_job_meets [OF t p]
    by (simp add: tryStart_def split: sum.split MarginResult.split)
qed (simp add: tryStart_def assms)

lemma pump_loop_meets:
  "jobs_meet P q \<Longrightarrow> jobs_meet P (snd (snd (pump_loop e is q))) \<and> spawns_meet P (fst (snd (pump_loop e is q)))"
proof (induction "is" arbitrary: q)
  case (Cons i "is")
  obtain r es q1 where t: "tryStart e i q = (r, es, q1)" by (rule prod_cases3)
  have m: "jobs_meet P q1" "spawns_meet P es" using tryStart_meets [OF Cons.prems, of e i] t by simp_all
  show ?case using Cons.prems Cons.IH [OF Cons.prems] Cons.IH [OF m(1)] t m
    by (cases r) (simp_all add: split_beta Let_def)
qed simp

lemma enqueue_meets:
  assumes "jobs_meet P q" "P (Process req)"
  shows "jobs_meet P (snd (snd (enqueue e i req who q))) \<and> spawns_meet P (fst (snd (enqueue e i req who q)))"
proof -
  have r: "request_of (new_job i req who now) = req" for now by (simp add: request_of_def new_job_def)
  have "jobs_meet P ((store_job (new_job i req who (je_now e (jq_ticks q))) (tick q))\<lparr>jq_live := l\<rparr>)" for l
    using assms r by (simp add: jobs_meet_def store_job_def)
  note t = tryStart_meets [OF this]
  have "jobs_meet P (store_job ((new_job i req who (je_now e (jq_ticks q)))
      \<lparr>j_state := s, j_error := er, j_finishedAt := f\<rparr>) (tick q))" for s er f
    using assms r by (simp add: jobs_meet_def store_job_def)
  with assms(1) t show ?thesis
    by (simp add: enqueue_def Let_def split_beta jobs_meet_heap [of "tick q" q] split: sum.split MarginResult.split)
qed

lemma job_exit_meets:
  assumes "jobs_meet P q"
  shows "jobs_meet P (snd (snd (job_exit e i code er q))) \<and> spawns_meet P (fst (snd (job_exit e i code er q)))"
proof (cases "map_of (jq_heap q) i")
  case (Some job)
  with assms have p: "P (Process (request_of job))" by (simp add: jobs_meet_def)
  have "jobs_meet P (tick (q\<lparr>jq_running := jq_running q - 1\<rparr>))" using assms by (simp add: jobs_meet_def)
  note f = finish_job_meets [OF this p]
  note g = pump_loop_meets [OF f [THEN conjunct1]]
  show ?thesis using f g Some by (simp add: job_exit_def pumpQueue_def split_beta Let_def)
qed (simp add: job_exit_def assms)


section \<open>Steps of the daemon\<close>

lemma adds_more: "ClientHub.ClientHub.more d1 = ClientHub.ClientHub.more d \<Longrightarrow> adds P d d1"
  by (rule adds_same) (rule dm_of_more, assumption)+

lemma adds_hub [simp]:
  "adds P d (snd (de_broadcast e ev d))" "adds P d (snd (reply e s ev d))" "adds P d (snd (no_session e s i d))"
  "adds P d (snd (disconnectDevice dev d))" "adds P d (snd (session_update e i d))"
  by (simp_all add: adds_more de_broadcast_def reply_def no_session_def session_update_def split: option.split)

lemma adds_fields [simp]:
  "adds P d (d\<lparr>dm_db := x1\<rparr>)" "adds P d (d\<lparr>dm_hooks := x2\<rparr>)" "adds P d (d\<lparr>dm_heap := x3\<rparr>)"
  "adds P d (d\<lparr>dm_fleet := x4\<rparr>)" "adds P d (d\<lparr>cx_identity := x5\<rparr>)" "adds P d (d\<lparr>hub_reg := x6\<rparr>)"
  "adds P d (d\<lparr>dm_exits := x7\<rparr>)" "adds P d (d\<lparr>cx_buf := x8\<rparr>)"
  by (simp_all add: adds_same)

lemma adds_trace: "P x \<Longrightarrow> adds P d (snd (trace_out x d))"
  by (simp add: adds_def trace_out_def silently_def)

lemma adds_do_all:
  "(\<And>f d. f \<in> set fs \<Longrightarrow> adds P d (snd (f d))) \<Longrightarrow> adds P d (snd (do_all fs d))"
proof (induction fs arbitrary: d)
  case (Cons f fs)
  have "adds P d (snd (f d))" using Cons.prems by simp
  also have "adds P (snd (f d)) (snd (do_all fs (snd (f d))))" using Cons by simp
  finally show ?case by (simp add: split_beta Let_def)
qed simp

lemma adds_session_put [simp]: "adds P d (put_session s d)" "adds P d (upd_session i g d)"
  by (simp_all add: put_session_def upd_session_def adds_same split: option.split)

lemma adds_on_session [simp]: "adds P d (snd (on_session e jid sid d))"
proof (cases "map_of (jq_heap (dm_jobs d)) jid")
  case (Some job)
  let ?s = "new_session sid (request_of job) (de_now e d)"
  have "adds P d (snd (session_update e sid (put_session ?s (d\<lparr>dm_db := x, dm_fleet := y, dm_exits := z\<rparr>))))" for x y z
    by (rule adds_trans [where ?d1.0 = "put_session ?s (d\<lparr>dm_db := x, dm_fleet := y, dm_exits := z\<rparr>)"])
      (simp_all add: adds_same put_session_def)
  then show ?thesis by (simp add: on_session_def Some Let_def split: option.split)
qed (simp add: on_session_def)

lemma adds_job_effects:
  assumes "spawns_meet P xs"
  shows "adds P d (snd (job_effects_step e xs d))"
  unfolding job_effects_step_def
proof (rule adds_do_all)
  fix f d assume "f \<in> set (map (job_effect_step e) xs)"
  then obtain x where "x \<in> set xs" "f = job_effect_step e x" by auto
  with assms show "adds P d (snd (f d))" by (cases x) (simp_all add: spawns_meet_def adds_trace)
qed

lemma adds_jobs:
  assumes "jobs_meet P (dm_jobs d) \<Longrightarrow> jobs_meet P q \<and> spawns_meet P xs"
  shows "adds P d (snd (job_effects_step e xs (d\<lparr>dm_jobs := q\<rparr>)))"
proof (cases "jobs_meet P (dm_jobs d)")
  case True
  with assms have q: "jobs_meet P q" "spawns_meet P xs" by simp_all
  have "adds P d (d\<lparr>dm_jobs := q\<rparr>)" using q by (simp add: adds_def)
  also have "adds P (d\<lparr>dm_jobs := q\<rparr>) (snd (job_effects_step e xs (d\<lparr>dm_jobs := q\<rparr>)))"
    using q by (simp add: adds_job_effects)
  finally show ?thesis .
qed (simp add: adds_def)

lemma adds_session_listeners [simp]:
  "adds P d (snd (session_ended e sid code d))" "adds P d (snd (session_state_changed e sid d))"
  unfolding session_ended_def session_state_changed_def
  by (rule adds_do_all; auto simp: silently_def adds_same split: option.split)+

lemma adds_session_exit [simp]: "adds P d (snd (snd (session_exit e sid code er d)))"
proof -
  obtain es d1 where s: "session_ended e sid code d = (es, d1)" by fastforce
  have d1: "adds P d d1" using adds_session_listeners(1) [of P d e sid code] s by simp
  have "adds P d (snd (job_effects_step e (fst (snd (job_exit (de_jobs e) jid code er (dm_jobs d1))))
      (d1\<lparr>dm_jobs := snd (snd (job_exit (de_jobs e) jid code er (dm_jobs d1)))\<rparr>)))" for jid
    by (rule adds_trans [OF d1 adds_jobs]) (simp add: job_exit_meets)
  with d1 show ?thesis by (simp add: session_exit_def s split_beta Let_def split: option.split)
qed

lemma adds_session_effect:
  assumes "\<And>j. x = Write_stdin j \<Longrightarrow> P (Stdin sid j)"
  shows "adds P d (snd (snd (session_effect_step e sid x d)))"
  by (cases x) (simp_all add: assms adds_trace)

lemma adds_session_effects:
  "(\<And>j. Write_stdin j \<in> set xs \<Longrightarrow> P (Stdin sid j)) \<Longrightarrow> adds P d (snd (snd (session_effects_step e sid xs d)))"
proof (induction xs arbitrary: d)
  case (Cons x xs)
  obtain r es d1 where s: "session_effect_step e sid x d = (r, es, d1)" by (rule prod_cases3)
  have "adds P d d1" using adds_session_effect [of x P sid d e] Cons.prems s by simp
  moreover have "adds P d1 (snd (snd (session_effects_step e sid xs d1)))" using Cons by simp
  ultimately show ?case using s by (cases r) (auto simp: split_beta Let_def intro: adds_trans)
qed simp

lemma adds_session_input:
  assumes "\<And>s j. Write_stdin j \<in> set (fst (snd (session_step parse x s))) \<Longrightarrow> P (Stdin sid j)"
  shows "adds P d (snd (snd (session_input_step e parse sid x d)))"
proof (cases "map_of (dm_heap d) sid")
  case (Some s)
  obtain r es s1 where s: "session_step parse x s = (r, es, s1)" by (rule prod_cases3)
  have "adds P d (snd (snd (session_effects_step e sid es (put_session s1 d))))"
    using assms [of _ s] s by (intro adds_trans [OF adds_session_put(1) adds_session_effects]) simp
  then show ?thesis using Some s by (cases r) (simp_all add: session_input_step_def)
qed (simp add: session_input_step_def)

lemma adds_hook_effects:
  assumes "\<And>k v r. Hook_write k v r \<in> set xs \<Longrightarrow> P (Hook_out (Hook_write k v r))"
    and "\<And>k. P (Hook_out (Hook_destroy k))" "\<And>ts. P (Push_ping ts)"
  shows "adds P d (snd (hook_effects_step e xs d))"
  unfolding hook_effects_step_def
proof (rule adds_do_all)
  fix f d assume "f \<in> set (map (hook_effect_step e) xs)"
  then obtain x where "x \<in> set xs" "f = hook_effect_step e x" by auto
  with assms show "adds P d (snd (f d))"
    by (cases x) (simp_all add: adds_trace notifyApprovalPending_def Let_def split: option.split)
qed

text \<open>What the process of a session does never writes to its stdin.\<close>

lemma adds_process_event:
  "\<not> is_command x \<Longrightarrow> adds P d (snd (snd (session_input_step e parse sid x d)))"
  by (rule adds_session_input) (auto dest: writes_of_command)

lemma adds_steer:
  assumes "\<And>s j. Write_stdin j \<in> set (fst (snd (session_step (\<lambda>_. None) x s))) \<Longrightarrow> P (Stdin sid j)"
  shows "adds P d (snd (snd (steer e sock sid x d)))"
  using adds_session_input [where P = P and x = x and sid = sid and d = d and e = e and parse = "\<lambda>_. None"] assms
  by (simp add: steer_def split_beta Let_def split: option.split)

lemma adds_run_spawn:
  assumes "P (Process req)"
  shows "adds P d (snd (snd (run_spawn e req sock dev d)))"
proof -
  obtain r xs q where q: "enqueue (de_jobs e) (de_uuid e (hub_tick d)) req dev (dm_jobs d) = (r, xs, q)" by (rule prod_cases3)
  have j: "adds P d (snd (job_effects_step e xs (d\<lparr>dm_jobs := q\<rparr>)))"
    using enqueue_meets [of P "dm_jobs d" req "de_jobs e" "de_uuid e (hub_tick d)" dev] q assms
    by (intro adds_jobs) simp
  have "adds P d (snd (reply e sock ev (snd (job_effects_step e xs (d\<lparr>dm_jobs := q\<rparr>)))))" for ev
    using j adds_hub(2) by (rule adds_trans)
  with j q show ?thesis by (simp add: run_spawn_def split_beta Let_def split: sum.split)
qed

lemma adds_decide:
  assumes "\<And>k. P (Hook_out (Hook_write k v (default_to [] reason)))"
    "\<And>k. P (Hook_out (Hook_destroy k))" "\<And>ts. P (Push_ping ts)"
  shows "adds P d (snd (decide_command e i v reason who sock dev d))"
proof -
  obtain oc xs h where h: "hook_decide i v (default_to [] reason) (attribution dev who) (de_now e d) (dm_hooks d) = (oc, xs, h)"
    by (rule prod_cases3)
  have "P (Hook_out (Hook_write k v' r))" if "Hook_write k v' r \<in> set xs" for k v' r
    using that h assms(1) by (auto simp: hook_decide_def split_beta Let_def hook_write_from dest!: respond_decide)
  then have d1: "adds P d (snd (hook_effects_step e xs (d\<lparr>dm_hooks := h\<rparr>)))"
    by (intro adds_trans [OF adds_fields(2) adds_hook_effects]) (simp_all add: assms)
  have "adds P d (snd (reply e sock ev (snd (hook_effects_step e xs (d\<lparr>dm_hooks := h\<rparr>)))))" for ev
    using d1 adds_hub(2) by (rule adds_trans)
  with d1 h show ?thesis by (simp add: decide_command_def split_beta Let_def split: decide_outcome.split)
qed

lemma adds_revoke: "adds P d (snd (revoke_command e target sock d))"
proof -
  have "adds P d' (snd (do_all [push_unregister target,
      reply e sock (Revoked target), disconnectDevice target] d'))" for d'
    by (rule adds_do_all) (auto simp: push_unregister_def silently_def)
  from adds_trans [OF adds_fields(5) this] adds_trans [OF adds_fields(5) adds_hub(2), of P d e sock]
  show ?thesis by (simp add: revoke_command_def split_beta Let_def del: do_all.simps)
qed

text \<open>A permission mode is absent or allowed.\<close>

definition mode_ok :: "PermissionMode option \<Rightarrow> bool" where
  "mode_ok m = (case m of None \<Rightarrow> True | Some x \<Rightarrow> permissionModeIsAllowed x)"

text \<open>What a command may cause, from what a predicate admits.\<close>

lemma adds_command:
  assumes spawn: "\<And>req. mode_ok (sr_permissionMode req) \<Longrightarrow> P (Process req)"
    and stdin: "\<And>sid t. P (Stdin sid (user_message t))"
      "\<And>sid r. P (Stdin sid (control_request r [(''subtype'', JStr ''interrupt'')]))"
      "\<And>sid r m. P (Stdin sid (control_request r [(''subtype'', JStr ''set_model''), (''model'', JStr m)]))"
      "\<And>sid r m. permissionModeIsAllowed m \<Longrightarrow>
         P (Stdin sid (control_request r [(''subtype'', JStr ''set_permission_mode''), (''mode'', JStr (mode_text m))]))"
    and hook: "\<And>k. P (Hook_out (Hook_destroy k))" "\<And>ts. P (Push_ping ts)"
    and decide: "\<And>i v reason who k. cmd = Some (Decide i v reason who) \<Longrightarrow> P (Hook_out (Hook_write k v (default_to [] reason)))"
  shows "adds P d (snd (snd (handleCommand e cmd sock dev d)))"
proof (cases cmd)
  case (Some c)
  then show ?thesis
  proof (cases c)
    case (Spawn req)
    then show ?thesis using Some adds_run_spawn [of P req d e sock dev] spawn [of req]
      by (auto simp: spawn_command_def mode_ok_def simp del: permissionModeIsAllowed_iff split: option.split)
  next
    case (Set_permission_mode sid mode)
    show ?thesis
    proof (cases "permissionModeIsAllowed mode")
      case True
      have "adds P d (snd (snd (steer e sock sid (Cmd_mode rid mode) d)))" for rid
        using stdin(4) [OF True] by (intro adds_steer) (auto simp del: session_step.simps dest!: writes_of_command)
      with True Set_permission_mode Some show ?thesis by (simp split: option.split)
    qed (use Set_permission_mode Some in \<open>simp split: option.split\<close>)
  next
    case (Send sid t)
    with Some show ?thesis using stdin(1) by (auto intro!: adds_steer dest!: writes_of_command)
  next
    case (Interrupt sid)
    with Some show ?thesis using stdin(2) by (auto intro!: adds_steer dest!: writes_of_command)
  next
    case (Set_model sid m)
    with Some show ?thesis using stdin(3) by (auto intro!: adds_steer dest!: writes_of_command)
  qed (use Some decide hook in \<open>simp_all add: adds_decide adds_revoke push_register_def silently_def\<close>)
qed simp

interpretation trace_frame: handler_frame "adds P" for P
proof
  fix h h1 :: "'k Daemon"
  assume "ClientConnection.ClientConnection.more h1 = ClientConnection.ClientConnection.more h"
  then have "dm_jobs h1 = dm_jobs h \<and> dm_trace h1 = dm_trace h" by (cases h1; cases h) simp
  then show "adds P h h1" by (simp add: adds_same)
qed (rule adds_trans)

text \<open>The whole step, when a predicate admits everything but the answers to hooks.\<close>

lemma adds_hooks_deny:
  assumes "\<And>k r. P (Hook_out (Hook_write k Deny r))" "\<And>k. P (Hook_out (Hook_destroy k))" "\<And>ts. P (Push_ping ts)"
    and "\<And>k v r. Hook_write k v r \<in> set (fst x) \<Longrightarrow> v = Deny"
  shows "adds P d (snd (apply_hooks e x d))"
proof -
  have "P (Hook_out (Hook_write k v r))" if "Hook_write k v r \<in> set (fst x)" for k v r
    using assms(1) assms(4) [OF that] by simp
  then show ?thesis unfolding apply_hooks_def
    by (intro adds_trans [OF adds_fields(2) adds_hook_effects]) (simp_all add: assms(2,3))
qed

lemma daemon_step_breaks:
  assumes deny: "\<And>k r. P (Hook_out (Hook_write k Deny r))" "\<And>k. P (Hook_out (Hook_destroy k))" "\<And>ts. P (Push_ping ts)"
    and b: "\<not> adds P d (snd (snd (daemon_step e x d)))"
  shows "\<exists>via sock chunk ls1 l ls2 rest es1 d1 conn m f cmd r.
    x = Client_data via sock chunk \<and> feed_line (cx_buf d sock) chunk = (ls1 @ l # ls2, rest)
    \<and> conn_lines (de_conn e) (allowPairingBootstrap via) snapshot (handleCommand e) (de_message e) sock ls1
        (d\<lparr>cx_buf := (cx_buf d)(sock := rest)\<rparr>) = Inr (es1, d1)
    \<and> connFor sock d1 = Some conn \<and> de_message e l = Some (Some m) \<and> cm_frame m = Some f
    \<and> ce_open (de_conn e) (cn_key conn) f C2d = Some cmd
    \<and> acceptInbound (cn_deviceId conn) (fr_seq f) (hub_reg d1) = (True, r)
    \<and> \<not> adds P (d1\<lparr>hub_reg := r\<rparr>) (snd (snd (handleCommand e cmd sock (cn_deviceId conn) (d1\<lparr>hub_reg := r\<rparr>))))"
proof (cases x)
  case (Client_data via sock chunk)
  let ?c = "conn_data (de_conn e) (allowPairingBootstrap via) snapshot (handleCommand e) (de_message e) sock chunk d"
  obtain es1 h1 where c: "?c = Inr (es1, h1)" and n: "\<not> adds P d h1"
    using b Client_data by (cases ?c) auto
  from trace_frame.data_breaks [OF c n] Client_data show ?thesis by blast
next
  case (Hook_bytes k chunk)
  have "adds P d (snd (snd (daemon_step e x d)))"
    using Hook_bytes by (auto simp: split: sum.split intro!: adds_hooks_deny deny dest: hook_data_writes_deny)
  with b show ?thesis ..
next
  case (Hook_closed k)
  have "adds P d (snd (snd (daemon_step e x d)))"
    using Hook_closed by (auto intro!: adds_hooks_deny deny dest: hook_close_writes_deny)
  with b show ?thesis ..
next
  case (Process_event sid y)
  with b show ?thesis by (simp add: adds_process_event split: if_splits)
qed (use b in \<open>simp_all add: conn_close_def forget_def adds_same\<close>)

section \<open>Properties\<close>

text \<open>
  C5: No tool call is allowed without an authenticated decision. When a step of the daemon
  answers a hook with allow, the step was a chunk of a client socket, and the chunk has a line
  which, in the state the lines before it lead to, comes from a socket that completed the
  handshake, is a frame that opens under that connection's key for the client-to-daemon
  direction, is not a duplicate, and carries the decision allow with the reason that was written.
\<close>

theorem allow_needs_authentic_decision:
  assumes "snd (snd (daemon_step e x d)) = d1" "dm_trace d1 = dm_trace d @ ys"
    and "Hook_out (Hook_write k Allow reason) \<in> set ys"
  shows "\<exists>via sock chunk ls1 l ls2 rest es1 d2 conn m f tool why who r.
    x = Client_data via sock chunk \<and> feed_line (cx_buf d sock) chunk = (ls1 @ l # ls2, rest)
    \<and> conn_lines (de_conn e) (allowPairingBootstrap via) snapshot (handleCommand e) (de_message e) sock ls1
        (d\<lparr>cx_buf := (cx_buf d)(sock := rest)\<rparr>) = Inr (es1, d2)
    \<and> connFor sock d2 = Some conn \<and> de_message e l = Some (Some m) \<and> cm_frame m = Some f
    \<and> ce_open (de_conn e) (cn_key conn) f C2d = Some (Some (Decide tool Allow why who))
    \<and> acceptInbound (cn_deviceId conn) (fr_seq f) (hub_reg d2) = (True, r)
    \<and> reason = default_to [] why"
proof -
  let ?P = "\<lambda>y. y \<noteq> Hook_out (Hook_write k Allow reason)"
  have "jobs_meet ?P q" for q by (simp add: jobs_meet_def)
  then have "\<not> adds ?P d (snd (snd (daemon_step e x d)))"
    using assms by (auto simp: adds_def list_all_iff)
  from daemon_step_breaks [OF _ _ _ this] obtain via sock chunk ls1 l ls2 rest es1 d2 conn m f cmd r where
    c: "x = Client_data via sock chunk" "feed_line (cx_buf d sock) chunk = (ls1 @ l # ls2, rest)"
      "conn_lines (de_conn e) (allowPairingBootstrap via) snapshot (handleCommand e) (de_message e) sock ls1
        (d\<lparr>cx_buf := (cx_buf d)(sock := rest)\<rparr>) = Inr (es1, d2)"
      "connFor sock d2 = Some conn" "de_message e l = Some (Some m)" "cm_frame m = Some f"
      "ce_open (de_conn e) (cn_key conn) f C2d = Some cmd"
      "acceptInbound (cn_deviceId conn) (fr_seq f) (hub_reg d2) = (True, r)"
      "\<not> adds ?P (d2\<lparr>hub_reg := r\<rparr>) (snd (snd (handleCommand e cmd sock (cn_deviceId conn) (d2\<lparr>hub_reg := r\<rparr>))))"
    by auto
  obtain tool why who where "cmd = Some (Decide tool Allow why who)" "reason = default_to [] why"
    using c(9) adds_command [of ?P cmd "d2\<lparr>hub_reg := r\<rparr>" e sock "cn_deviceId conn"] by fastforce
  with c show ?thesis by blast
qed

theorem allow_needs_authentic_decision_witness:
  "\<exists>via sock chunk. example_input = Client_data via sock chunk
     \<and> Hook_out (Hook_write 7 Allow ''ok'') \<in> set (dm_trace (snd (snd (daemon_step example_daemon_env example_input example_daemon))))"
  using allow_needs_authentic_decision [OF refl example_step(1), of 7 "''ok''"] example_step(1) by auto

text \<open>A process with no mode or an allowed one, and a mode change to an allowed one.\<close>

fun mode_enforced :: "daemon_effect \<Rightarrow> bool" where
  "mode_enforced (Process req) = mode_ok (sr_permissionMode req)"
| "mode_enforced (Stdin sid j) =
     (is_str ''set_permission_mode'' (field ''subtype'' (field ''request'' (Some j))) \<longrightarrow>
      is_str ''plan'' (field ''mode'' (field ''request'' (Some j))))"
| "mode_enforced _ = True"

lemma mode_step: "adds mode_enforced d (snd (snd (daemon_step e x d)))"
proof (rule ccontr)
  assume "\<not> adds mode_enforced d (snd (snd (daemon_step e x d)))"
  from daemon_step_breaks [OF _ _ _ this] obtain d2 cmd sock dev where
    "\<not> adds mode_enforced d2 (snd (snd (handleCommand e cmd sock dev d2)))"
    by (auto simp: list_all_iff)
  moreover have "adds mode_enforced d2 (snd (snd (handleCommand e cmd sock dev d2)))"
    by (rule adds_command) (simp_all add: is_str_def user_message_def control_request_def)
  ultimately show False by blast
qed

lemma mode_run: "adds mode_enforced d (snd (snd (daemon_run e xs d)))"
proof (induction xs arbitrary: d)
  case (Cons x xs)
  obtain r es d1 where s: "daemon_step e x d = (r, es, d1)" by (rule prod_cases3)
  have d1: "adds mode_enforced d d1" using mode_step [of d e x] s by simp
  have "adds mode_enforced d1 (snd (snd (daemon_run e xs d1)))" by (rule Cons.IH)
  with d1 have "adds mode_enforced d (snd (snd (daemon_run e xs d1)))" by (rule adds_trans)
  with s d1 show ?case by (cases r) (simp_all add: split_beta Let_def)
qed simp

text \<open>
  C4: The daemon never runs a session in a mode that bypasses approvals. Over any run from
  boot, whatever clients send, every process is spawned with no permission mode or an allowed
  one, also when it waited in the queue, and every mode change written to a session's stdin is
  to an allowed mode.
\<close>

theorem permission_modes_enforced:
  "list_all mode_enforced (dm_trace (snd (snd (daemon_run e xs (boot i dc ec t db :: 'k Daemon)))))"
proof -
  have "jobs_meet mode_enforced (dm_jobs (boot i dc ec t db :: 'k Daemon))" "dm_trace (boot i dc ec t db :: 'k Daemon) = []"
    by (simp_all add: boot_def new_queue_def jobs_meet_def)
  with mode_run [of "boot i dc ec t db" e xs] show ?thesis by (auto simp: adds_def)
qed

end
