(* ===== verification/DaemonAudit.thy ===== *)
theory DaemonAudit
  imports Daemon
begin

text \<open>
  What the daemon puts on record: the decisions in the broker and in the approvals table, who is
  named as the decider, and what revoking a device leaves of it.
\<close>

section \<open>The audit record\<close>

text \<open>The broker and the approvals table: only hook traffic and decisions change them.\<close>

definition audit :: "'k Daemon \<Rightarrow> HookServer \<times> ApprovalRow list" where
  "audit d = (dm_hooks d, db_approvals (dm_db d))"

definition on_record :: "string \<Rightarrow> 'k Daemon \<Rightarrow> bool" where
  "on_record who d \<longleftrightarrow> broker_by who (hk_broker (dm_hooks d))
     \<or> (\<exists>r \<in> set (db_approvals (dm_db d)). ar_decided_by r = Some who)"

lemma on_record_audit: "audit d1 = audit d \<Longrightarrow> on_record who d1 = on_record who d"
  by (simp add: audit_def on_record_def)

lemma audit_more: "ClientHub.ClientHub.more d1 = ClientHub.ClientHub.more d \<Longrightarrow> audit d1 = audit d"
  using dm_of_more(6,8) [of d1 d] by (simp add: audit_def)

lemma audit_hub [simp]:
  "audit (snd (de_broadcast e ev d)) = audit d" "audit (snd (reply e s ev d)) = audit d"
  "audit (snd (no_session e s i d)) = audit d" "audit (snd (disconnectDevice dev d)) = audit d"
  "audit (snd (session_update e i d)) = audit d"
  by (rule audit_more, simp add: de_broadcast_def reply_def no_session_def session_update_def split: option.split)+

lemma audit_fields [simp]:
  "audit (d\<lparr>dm_heap := x1\<rparr>) = audit d" "audit (d\<lparr>dm_fleet := x2\<rparr>) = audit d" "audit (d\<lparr>dm_exits := x3\<rparr>) = audit d"
  "audit (d\<lparr>dm_jobs := x4\<rparr>) = audit d" "audit (d\<lparr>dm_trace := x5\<rparr>) = audit d" "audit (d\<lparr>cx_identity := x6\<rparr>) = audit d"
  "audit (d\<lparr>hub_reg := x7\<rparr>) = audit d" "audit (d\<lparr>cx_buf := x8\<rparr>) = audit d"
  by (simp_all add: audit_def)

lemma audit_db: "db_approvals db = db_approvals (dm_db d) \<Longrightarrow> audit (d\<lparr>dm_db := db\<rparr>) = audit d"
  by (simp add: audit_def)

lemma audit_do_all: "(\<And>f d. f \<in> set fs \<Longrightarrow> audit (snd (f d)) = audit d) \<Longrightarrow> audit (snd (do_all fs d)) = audit d"
  by (induction fs arbitrary: d) (simp_all add: split_beta Let_def)

lemma audit_trace [simp]: "audit (snd (trace_out x d)) = audit d"
  by (simp add: trace_out_def silently_def)

lemma audit_put [simp]: "audit (put_session s d) = audit d" "audit (upd_session i g d) = audit d"
  by (simp_all add: put_session_def upd_session_def split: option.split)

lemma audit_store_effect: "db_approvals (store_effect x db) = db_approvals db"
  by (cases x) (auto simp: insertJob_def updateJobState_def split: option.splits if_splits)

lemma audit_on_session [simp]: "audit (snd (on_session e jid sid d)) = audit d"
proof (cases "map_of (jq_heap (dm_jobs d)) jid")
  case (Some job)
  have "db_approvals db = db_approvals (dm_db d) \<Longrightarrow>
    audit (put_session s (d\<lparr>dm_db := db, dm_fleet := x, dm_exits := y\<rparr>)) = audit d" for db s x y
    by (simp add: audit_def put_session_def)
  then show ?thesis by (auto simp: on_session_def Some recordSessionStarted_def Let_def split: option.split)
qed (simp add: on_session_def)

lemma audit_job_effects [simp]: "audit (snd (job_effects_step e xs d)) = audit d"
  unfolding job_effects_step_def
proof (rule audit_do_all)
  fix f d assume "f \<in> set (map (job_effect_step e) xs)"
  then obtain x where "f = job_effect_step e x" by auto
  then show "audit (snd (f d)) = audit d"
    by (cases x) (simp_all add: audit_db audit_store_effect del: store_effect.simps)
qed

lemma audit_session_listeners [simp]:
  "audit (snd (session_ended e sid code d)) = audit d" "audit (snd (session_state_changed e sid d)) = audit d"
  unfolding session_ended_def session_state_changed_def
  by (rule audit_do_all; auto simp: silently_def recordSessionEnded_def updateSessionActivity_def
      intro!: audit_db split: option.split)+

lemma audit_session_exit [simp]: "audit (snd (snd (session_exit e sid code er d))) = audit d"
  by (simp add: session_exit_def split_beta Let_def split: option.split)

lemma audit_session_effects: "audit (snd (snd (session_effects_step e sid xs d))) = audit d"
proof (induction xs arbitrary: d)
  case (Cons x xs)
  obtain r es d1 where s: "session_effect_step e sid x d = (r, es, d1)" by (rule prod_cases3)
  have "audit (snd (snd (session_effect_step e sid x d))) = audit d" by (cases x) simp_all
  with Cons s show ?case by (cases r) (simp_all add: split_beta Let_def)
qed simp

lemma audit_session_input [simp]: "audit (snd (snd (session_input_step e parse sid x d))) = audit d"
proof (cases "map_of (dm_heap d) sid")
  case (Some s)
  obtain r es s1 where "session_step parse x s = (r, es, s1)" by (rule prod_cases3)
  with Some show ?thesis by (cases r) (simp_all add: session_input_step_def audit_session_effects)
qed (simp add: session_input_step_def)

lemma audit_commands [simp]:
  "audit (snd (snd (steer e sock sid x d))) = audit d"
  "audit (snd (snd (spawn_command e req sock dev d))) = audit d"
  "audit (snd (revoke_command e target sock d)) = audit d"
proof -
  show "audit (snd (snd (steer e sock sid x d))) = audit d"
    by (simp add: steer_def split_beta Let_def split: option.split)
  show "audit (snd (snd (spawn_command e req sock dev d))) = audit d"
    by (simp add: spawn_command_def run_spawn_def split_beta Let_def split: option.split sum.split)
  have "audit (snd (do_all [push_unregister target,
      reply e sock (Revoked target), disconnectDevice target] d')) = audit d'" for d'
    by (rule audit_do_all) (auto simp: push_unregister_def silently_def deletePushRegistration_def intro!: audit_db)
  then show "audit (snd (revoke_command e target sock d)) = audit d"
    by (simp add: revoke_command_def split_beta Let_def del: do_all.simps)
qed

lemmas on_record_ops [simp] =
  audit_hub [THEN on_record_audit] audit_fields [THEN on_record_audit] audit_trace [THEN on_record_audit]
  audit_put [THEN on_record_audit] audit_commands [THEN on_record_audit] audit_session_input [THEN on_record_audit]

text \<open>What the effects of the hook server put on record.\<close>

lemma on_record_hook_effect:
  "on_record who (snd (hook_effect_step e x d)) \<Longrightarrow> on_record who d \<or> effects_by who [x]"
proof (cases x)
  case (Db_requested a)
  then show "on_record who (snd (hook_effect_step e x d)) \<Longrightarrow> on_record who d \<or> effects_by who [x]"
    by (auto simp: on_record_def recordApprovalRequested_def approval_row_def split: if_splits)
next
  case (Db_decided a)
  then show "on_record who (snd (hook_effect_step e x d)) \<Longrightarrow> on_record who d \<or> effects_by who [x]"
    by (auto simp: on_record_def recordApprovalDecision_def update_where_def effects_by_def split: option.splits if_splits)
next
  case Notify_push
  then show "on_record who (snd (hook_effect_step e x d)) \<Longrightarrow> on_record who d \<or> effects_by who [x]"
    by (simp add: notifyApprovalPending_def Let_def split: if_splits)
qed simp_all

lemma on_record_hook_effects:
  "on_record who (snd (hook_effects_step e xs d)) \<Longrightarrow> on_record who d \<or> effects_by who xs"
proof (induction xs arbitrary: d)
  case (Cons x xs)
  let ?d = "snd (hook_effect_step e x d)"
  have "on_record who ?d \<or> effects_by who xs"
    using Cons by (simp add: hook_effects_step_def split_beta Let_def)
  moreover have "effects_by who (x # xs) \<longleftrightarrow> effects_by who [x] \<or> effects_by who xs"
    using effects_by_append [of who "[x]" xs] by simp
  ultimately show ?case using on_record_hook_effect [of who e x d] by blast
qed (simp add: hook_effects_step_def)


lemma on_record_apply_hooks:
  assumes "on_record who (snd (apply_hooks e x d))"
  shows "on_record who d \<or> broker_by who (hk_broker (snd x)) \<or> effects_by who (fst x)"
proof -
  have "on_record who (d\<lparr>dm_hooks := h\<rparr>) \<Longrightarrow> on_record who d \<or> broker_by who (hk_broker h)" for h
    by (auto simp: on_record_def)
  with on_record_hook_effects [of who e "fst x" "d\<lparr>dm_hooks := snd x\<rparr>"] assms show ?thesis
    by (auto simp: apply_hooks_def)
qed

lemma on_record_decide:
  assumes "on_record who (snd (decide_command e i v reason name sock dev d))"
  shows "on_record who d \<or> who = attribution dev name"
proof -
  obtain oc xs h where h: "hook_decide i v (default_to [] reason) (attribution dev name) (de_now e d) (dm_hooks d) = (oc, xs, h)"
    by (rule prod_cases3)
  have "on_record who (snd (apply_hooks e (xs, h) d))"
    using assms h by (simp add: decide_command_def apply_hooks_def split_beta Let_def split: decide_outcome.splits)
  from on_record_apply_hooks [OF this] hook_decide_by [OF h, of who] show ?thesis
    by (auto simp: on_record_def)
qed

lemma on_record_command:
  assumes "on_record who (snd (snd (handleCommand e cmd sock dev d)))" "\<not> on_record who d"
  shows "\<exists>i v reason name. cmd = Some (Decide i v reason name) \<and> who = attribution dev name"
proof (cases cmd)
  case (Some c)
  with assms show ?thesis
  proof (cases c)
    case (Register_push token platform)
    have "audit (snd (push_register e dev token platform d)) = audit d"
      by (simp add: push_register_def silently_def audit_db upsertPushRegistration_def)
    with on_record_audit Register_push Some assms show ?thesis by fastforce
  next
    case (Decide i v reason name)
    with Some assms on_record_decide [of who e i v reason name sock dev d] show ?thesis by simp
  qed (auto split: option.splits if_splits)
qed (use assms in simp)

interpretation audit_frame: handler_frame "\<lambda>d d1 :: 'k Daemon. on_record who d1 \<longrightarrow> on_record who d" for who
proof
  fix h h1 :: "'k Daemon"
  assume "ClientConnection.ClientConnection.more h1 = ClientConnection.ClientConnection.more h"
  then have "audit h1 = audit h" unfolding audit_def by (cases h1; cases h) simp
  then show "on_record who h1 \<longrightarrow> on_record who h" by (simp add: on_record_audit [of h1 h])
qed blast


lemma sendTo_clients:
  "hub_clients (snd (sendTo e s ev h)) = hub_clients h
   \<or> hub_clients (snd (sendTo e s ev h)) = js_delete s (hub_clients h) \<and> Destroy s \<in> set (fst (sendTo e s ev h))"
  by (auto simp: sendTo_def sendSealed_def sealAndWrite_def writeFrame_def forget_def record_event_def
      split_beta Let_def split: option.split)

lemma find_device_revoked:
  "find_device t (snd (revoke_device t i)) = None" "t \<notin> pd_deviceId ` set (id_devices (snd (revoke_device t i)))"
  by (auto simp: find_device_def revoke_device_def persist_def Let_def find_None_iff)

lemma revoke_device_ok: "fst (revoke_device t i) \<longleftrightarrow> find_device t i \<noteq> None"
proof -
  have "length (filter (\<lambda>d. pd_deviceId d \<noteq> t) ds) = length ds \<longleftrightarrow> List.find (\<lambda>d. pd_deviceId d = t) ds = None" for ds
    by (auto simp: length_filter_id filter_id_conv find_None_iff)
  from this [of "id_devices i"] show ?thesis by (auto simp: revoke_device_def find_device_def Let_def)
qed




end
