(* ===== verification/WsServer.thy ===== *)
theory WsServer
  imports Framing "HOL-Library.Word"
begin

unbundle bit_operations_syntax

text \<open>
  The WebSocket bridge, \<^verbatim>\<open>packages/daemon/src/interface/wsServer.ts\<close>: the frame encoder, the parser of
  \<^verbatim>\<open>WsSocketShim.onBytes\<close> on 8-bit words and the fragment assembler. Text reaches the encoder already
  as UTF-8 bytes. A length is read exactly; the loss of \<^verbatim>\<open>Number\<close> above 53 bits only concerns frames that
  no buffer can hold. The HTTP upgrade is modelled up to the hash, an argument. Effects are
  what reaches the raw socket and the protocol handler, in order. A destroyed socket delivers no data.
\<close>

type_synonym byte = "8 word"

datatype ws_effect = Raw_write "byte list" | Raw_destroy | Ws_data "byte list"

record WsSocketShim =
  ws_buf :: "byte list"
  ws_frags :: "byte list list"
  ws_fragBytes :: nat
  ws_destroyed :: bool

definition new_shim :: WsSocketShim where
  "new_shim = \<lparr>ws_buf = [], ws_frags = [], ws_fragBytes = 0, ws_destroyed = False\<rparr>"

definition MAX_MESSAGE_BYTES :: nat where "MAX_MESSAGE_BYTES = 8 * 1024 * 1024"

section \<open>Encoding\<close>

text \<open>Big-endian bytes: \<^verbatim>\<open>writeBigUInt64BE\<close>, \<^verbatim>\<open>readUInt16BE\<close>, \<^verbatim>\<open>readBigUInt64BE\<close>.\<close>

fun be_bytes :: "nat \<Rightarrow> nat \<Rightarrow> byte list" where
  "be_bytes 0 n = []"
| "be_bytes (Suc k) n = be_bytes k (n div 256) @ [of_nat n]"

definition be_value :: "byte list \<Rightarrow> nat" where
  "be_value bs = foldl (\<lambda>a b. 256 * a + unat b) 0 bs"

definition encodeTextFrame :: "byte list \<Rightarrow> byte list" where
  "encodeTextFrame payload =
     (let len = length payload;
          header = (if len < 126 then [0x81, of_nat len]
                    else if len < 65536 then [0x81, 126, of_nat (len div 256), of_nat len]
                    else [0x81, 127] @ be_bytes 8 len)
      in header @ payload)"

definition CLOSE_FRAME :: "byte list" where "CLOSE_FRAME = [0x88, 0x00]"

definition pongFrame :: "byte list \<Rightarrow> byte list" where
  "pongFrame payload = [0x8a, of_nat (length payload)] @ payload"

section \<open>Parsing\<close>

text \<open>The length and the offset after it; nothing when the buffer does not hold it yet.\<close>

definition frame_len :: "byte list \<Rightarrow> (nat \<times> nat) option" where
  "frame_len buf =
     (let len = unat ((buf ! 1) AND 0x7f)
      in if len = 126 then (if length buf < 4 then None else Some (be_value (take 2 (drop 2 buf)), 4))
         else if len = 127 then (if length buf < 10 then None else Some (be_value (take 8 (drop 2 buf)), 10))
         else Some (len, 2))"

text \<open>\<^verbatim>\<open>unmasked[i] = payload[i] ^ mask[i & 3]\<close>\<close>

definition unmask :: "byte list \<Rightarrow> byte list \<Rightarrow> byte list" where
  "unmask key payload = map (\<lambda>i. (payload ! i) XOR (key ! (i mod 4))) [0..<length payload]"

record ws_frame =
  wf_fin :: bool
  wf_opcode :: nat
  wf_payload :: "byte list"

definition parse_frame :: "byte list \<Rightarrow> (ws_frame \<times> byte list) option" where
  "parse_frame buf =
     (if length buf < 2 then None
      else case frame_len buf of
             None \<Rightarrow> None
           | Some (len, off) \<Rightarrow>
               (let masked = ((buf ! 1) AND 0x80 \<noteq> 0); offset = (if masked then off + 4 else off)
                in if masked \<and> length buf < offset then None
                   else if length buf < offset + len then None
                   else let payload = take len (drop offset buf)
                        in Some (\<lparr>wf_fin = ((buf ! 0) AND 0x80 \<noteq> 0), wf_opcode = unat ((buf ! 0) AND 0x0f),
                                  wf_payload = (if masked then unmask (take 4 (drop off buf)) payload else payload)\<rparr>,
                                 drop (offset + len) buf)))"

section \<open>The socket shim\<close>

definition ws_destroy :: "WsSocketShim \<Rightarrow> ws_effect list \<times> WsSocketShim" where
  "ws_destroy s = (if ws_destroyed s then ([], s)
                   else ([Raw_write CLOSE_FRAME, Raw_destroy], s\<lparr>ws_destroyed := True\<rparr>))"

definition ws_write :: "byte list \<Rightarrow> WsSocketShim \<Rightarrow> ws_effect list" where
  "ws_write d s = (if ws_destroyed s then [] else [Raw_write (encodeTextFrame d)])"

text \<open>One frame; the flag says whether the loop goes on.\<close>

definition on_frame :: "ws_frame \<Rightarrow> WsSocketShim \<Rightarrow> ws_effect list \<times> bool \<times> WsSocketShim" where
  "on_frame f s =
     (if wf_opcode f = 0x8 then (let (es, s1) = ws_destroy s in (es, False, s1))
      else if wf_opcode f = 0x9 then ([Raw_write (pongFrame (wf_payload f))], True, s)
      else if wf_opcode f = 0xa then ([], True, s)
      else if wf_opcode f = 0x0 \<or> wf_opcode f = 0x1 \<or> wf_opcode f = 0x2 then
        (let s1 = s\<lparr>ws_frags := ws_frags s @ [wf_payload f], ws_fragBytes := ws_fragBytes s + length (wf_payload f)\<rparr>
         in if MAX_MESSAGE_BYTES < ws_fragBytes s1 then (let (es, s2) = ws_destroy s1 in (es, False, s2))
            else if wf_fin f then ([Ws_data (concat (ws_frags s1))], True, s1\<lparr>ws_frags := [], ws_fragBytes := 0\<rparr>)
            else ([], True, s1))
      else (let (es, s1) = ws_destroy s in (es, False, s1)))"

lemma ws_buf_on_frame: "ws_buf (snd (snd (on_frame f s))) = ws_buf s"
  by (simp add: on_frame_def ws_destroy_def Let_def)

lemma parse_frame_shorter: "parse_frame buf = Some (f, rest) \<Longrightarrow> length rest < length buf"
  by (auto simp: parse_frame_def frame_len_def Let_def split: if_splits)

function frame_loop :: "WsSocketShim \<Rightarrow> ws_effect list \<times> WsSocketShim" where
  "frame_loop s =
     (case parse_frame (ws_buf s) of
        None \<Rightarrow> ([], s)
      | Some (f, rest) \<Rightarrow>
          (let r = on_frame f (s\<lparr>ws_buf := rest\<rparr>)
           in if fst (snd r) then (let (fs, s2) = frame_loop (snd (snd r)) in (fst r @ fs, s2))
              else (fst r, snd (snd r))))"
  by pat_completeness auto
termination
  by (relation "measure (\<lambda>s. length (ws_buf s))") (auto simp: ws_buf_on_frame dest!: parse_frame_shorter)

declare frame_loop.simps [simp del]

definition onBytes :: "byte list \<Rightarrow> WsSocketShim \<Rightarrow> ws_effect list \<times> WsSocketShim" where
  "onBytes chunk s = frame_loop (s\<lparr>ws_buf := ws_buf s @ chunk\<rparr>)"

definition ws_chunk :: "WsSocketShim \<Rightarrow> byte list \<Rightarrow> ws_effect list \<times> WsSocketShim" where
  "ws_chunk s chunk = (if ws_destroyed s then ([], s) else onBytes chunk s)"

section \<open>The upgrade\<close>

definition WS_GUID :: string where "WS_GUID = ''258EAFA5-E914-47DA-95CA-C5AB0DC85B11''"

datatype upgrade_effect = Upgrade_destroy | Switching_protocols string

text \<open>The header is absent or a single string; the hash is \<^verbatim>\<open>sha1\<close> printed in base64.\<close>

definition on_upgrade :: "(string \<Rightarrow> string) \<Rightarrow> string option \<Rightarrow> upgrade_effect \<times> WsSocketShim option" where
  "on_upgrade sha1_base64 key =
     (case key of
        None \<Rightarrow> (Upgrade_destroy, None)
      | Some k \<Rightarrow> (Switching_protocols (sha1_base64 (k @ WS_GUID)), Some new_shim))"

section \<open>Laws\<close>

lemma unat_byte [simp]: "unat (of_nat n :: byte) = n mod 256"
  by (simp add: unat_of_nat)

lemma be_value_snoc: "be_value (bs @ [b]) = 256 * be_value bs + unat b"
  by (simp add: be_value_def)

lemma be_value_bytes: "be_value (be_bytes k n) = n mod 256 ^ k"
proof (induction k arbitrary: n)
  case (Suc k)
  have "n mod (256 * 256 ^ k) = 256 * (n div 256 mod 256 ^ k) + n mod 256" by (rule mod_mult2_eq)
  with Suc show ?case by (simp add: be_value_snoc)
qed (simp add: be_value_def)

lemma length_be_bytes [simp]: "length (be_bytes k n) = k"
  by (induction k arbitrary: n) simp_all

lemma byte_low: "unat ((w :: byte) AND 0x7f) = unat w mod 128"
proof -
  have "(0x7f :: byte) = mask 7" by (simp add: mask_numeral)
  then have "w AND 0x7f = take_bit 7 w" by (simp add: take_bit_eq_mask)
  then show ?thesis by (simp add: take_bit_eq_mod unat_mod_distrib)
qed

lemma byte_nibble: "unat ((w :: byte) AND 0x0f) = unat w mod 16"
proof -
  have "(0x0f :: byte) = mask 4" by (simp add: mask_numeral)
  then have "w AND 0x0f = take_bit 4 w" by (simp add: take_bit_eq_mask)
  then show ?thesis by (simp add: take_bit_eq_mod unat_mod_distrib)
qed

lemma byte_high: "(w :: byte) AND 0x80 \<noteq> 0 \<longleftrightarrow> 128 \<le> unat w"
proof -
  have "(0x80 :: byte) = 2 ^ 7" by simp
  then have "w AND 0x80 = 0 \<longleftrightarrow> \<not> bit w 7" by (simp only: and_exp_eq_0_iff_not_bit)
  moreover have "bit w 7 \<longleftrightarrow> odd (unat w div 128)"
  proof -
    have "bit w 7 \<longleftrightarrow> bit (unat w) 7" by (simp add: bit_unsigned_iff)
    then show ?thesis by (simp add: bit_iff_odd)
  qed
  moreover have "unat w < 256" using unsigned_less [of w] by simp
  then have "unat w div 128 = (if 128 \<le> unat w then 1 else 0)" by (auto intro: div_nat_eqI)
  ultimately show ?thesis by (simp split: if_splits)
qed

lemma unmask_unmask: "length key = 4 \<Longrightarrow> unmask key (unmask key p) = p"
  by (rule nth_equalityI) (simp_all add: unmask_def xor.assoc)

lemma length_unmask [simp]: "length (unmask key p) = length p"
  by (simp add: unmask_def)

text \<open>
  The encoder of a peer, RFC 6455 section 5.2: the final bit, the opcode, the shortest length
  form, and the masking key of a client frame.
\<close>

definition len_field :: "nat \<Rightarrow> nat \<Rightarrow> byte list" where
  "len_field m len = (if len < 126 then [of_nat (m + len)]
     else if len < 65536 then of_nat (m + 126) # be_bytes 2 len
     else of_nat (m + 127) # be_bytes 8 len)"

definition encode_frame :: "bool \<Rightarrow> nat \<Rightarrow> byte list option \<Rightarrow> byte list \<Rightarrow> byte list" where
  "encode_frame fin opcode key payload =
     of_nat ((if fin then 128 else 0) + opcode) # len_field (if key = None then 0 else 128) (length payload)
       @ (case key of None \<Rightarrow> payload | Some k \<Rightarrow> k @ unmask k payload)"

lemma encodeTextFrame_eq: "encodeTextFrame p = encode_frame True 1 None p"
proof -
  have "be_bytes 2 n = [of_nat (n div 256), of_nat n]" for n by (simp add: numeral_2_eq_2)
  then show ?thesis by (simp add: encodeTextFrame_def encode_frame_def len_field_def Let_def)
qed

lemma len_field_cases:
  assumes "len < 2 ^ 64" "m = 0 \<or> m = 128"
  obtains l ext where "len_field m len = of_nat (m + l) # ext" "l < 128"
    "frame_len (b0 # of_nat (m + l) # ext @ t) = Some (len, 2 + length ext)"
proof -
  have low: "unat ((of_nat (m + l) :: byte) AND 0x7f) = l" if "l < 128" for l
    unfolding byte_low unat_byte using assms(2) that by auto
  consider "len < 126" | "126 \<le> len" "len < 65536" | "65536 \<le> len" by linarith
  then show thesis
  proof cases
    case 1
    then show ?thesis using low [of len] by (intro that [of len "[]"]) (auto simp: len_field_def frame_len_def)
  next
    case 2
    have "be_value (take 2 (be_bytes 2 len @ t)) = len" using 2 by (simp add: be_value_bytes)
    with 2 show ?thesis using low [of 126]
      by (intro that [of 126 "be_bytes 2 len"]) (auto simp: len_field_def frame_len_def)
  next
    case 3
    have "be_value (take 8 (be_bytes 8 len @ t)) = len" using assms(1) by (simp add: be_value_bytes)
    with 3 show ?thesis using low [of 127]
      by (intro that [of 127 "be_bytes 8 len"]) (auto simp: len_field_def frame_len_def)
  qed
qed

lemma frame_len_append:
  assumes "frame_len buf = Some (len, off)" "2 \<le> length buf"
  shows "frame_len (buf @ b) = Some (len, off) \<and> off \<le> length buf"
proof -
  have "(buf @ b) ! 1 = buf ! 1" using assms(2) by (simp add: nth_append)
  with assms show ?thesis by (auto simp: frame_len_def Let_def split: if_splits)
qed

text \<open>The parser once the length is known.\<close>

definition frame_at :: "nat \<Rightarrow> nat \<Rightarrow> nat \<Rightarrow> byte list \<Rightarrow> ws_frame" where
  "frame_at len off offset buf =
     \<lparr>wf_fin = ((buf ! 0) AND 0x80 \<noteq> 0), wf_opcode = unat ((buf ! 0) AND 0x0f),
      wf_payload = (if (buf ! 1) AND 0x80 \<noteq> 0 then unmask (take 4 (drop off buf)) (take len (drop offset buf))
        else take len (drop offset buf))\<rparr>"

lemma parse_frame_eq:
  assumes "2 \<le> length buf" "frame_len buf = Some (len, off)" "off \<le> length buf"
  defines "offset \<equiv> (if (buf ! 1) AND 0x80 \<noteq> 0 then off + 4 else off)"
  shows "parse_frame buf = (if length buf < offset + len then None
    else Some (frame_at len off offset buf, drop (offset + len) buf))"
  using assms(1-3) by (simp add: parse_frame_def frame_at_def offset_def Let_def)

lemma parse_frame_append:
  assumes "parse_frame buf = Some (f, rest)"
  shows "parse_frame (buf @ b) = Some (f, rest @ b)"
proof -
  have l1: "2 \<le> length buf" using assms by (simp add: parse_frame_def split: if_splits)
  then obtain len off where "frame_len buf = Some (len, off)"
    using assms by (cases "frame_len buf") (auto simp: parse_frame_def simp del: not_less)
  note l = l1 this
  have "0 < length buf" "1 < length buf" using l(1) by linarith+
  then have n: "(buf @ b) ! 0 = buf ! 0" "(buf @ b) ! 1 = buf ! 1" by (simp_all only: nth_append if_True)
  have fl: "frame_len (buf @ b) = Some (len, off)" "off \<le> length buf" using frame_len_append [OF l(2,1), of b] by simp_all
  define offset where "offset = (if (buf ! 1) AND 0x80 \<noteq> 0 then off + 4 else off)"
  have e: "parse_frame buf = (if length buf < offset + len then None
      else Some (frame_at len off offset buf, drop (offset + len) buf))"
    using parse_frame_eq [OF l fl(2)] by (simp add: offset_def)
  then have le: "offset + len \<le> length buf" and f: "f = frame_at len off offset buf" "rest = drop (offset + len) buf"
    using assms by (simp_all split: if_splits)
  have k: "take 4 (drop off (buf @ b)) = take 4 (drop off buf)" if "(buf ! 1) AND 0x80 \<noteq> 0"
    using le that by (simp add: offset_def)
  have t: "take len (drop offset (buf @ b)) = take len (drop offset buf)" using le by simp
  have "frame_at len off offset (buf @ b) = frame_at len off offset buf"
    unfolding frame_at_def n t using k by (cases "(buf ! 1) AND 0x80 \<noteq> 0") (simp_all only: if_True if_False not_False_eq_True simp_thms)
  moreover have "parse_frame (buf @ b) = (if length (buf @ b) < offset + len then None
      else Some (frame_at len off offset (buf @ b), drop (offset + len) (buf @ b)))"
    using parse_frame_eq [of "buf @ b" len off] l(1) fl unfolding n by (simp add: offset_def)
  ultimately show ?thesis using le by (simp add: f)
qed

lemma parse_frame_lengths:
  assumes "parse_frame buf = Some (f, rest)"
  obtains off where "frame_len buf = Some (length (wf_payload f), off)" "off + length (wf_payload f) \<le> length buf"
proof -
  have l1: "2 \<le> length buf" using assms by (simp add: parse_frame_def split: if_splits)
  then obtain len off where fl: "frame_len buf = Some (len, off)"
    using assms by (cases "frame_len buf") (auto simp: parse_frame_def simp del: not_less)
  have off: "off \<le> length buf" using frame_len_append [OF fl l1] by simp
  define offset where "offset = (if (buf ! 1) AND 0x80 \<noteq> 0 then off + 4 else off)"
  have e: "parse_frame buf = (if length buf < offset + len then None
      else Some (frame_at len off offset buf, drop (offset + len) buf))"
    using parse_frame_eq [OF l1 fl off] by (simp add: offset_def)
  then have le: "offset + len \<le> length buf" and "f = frame_at len off offset buf" using assms by (simp_all split: if_splits)
  then have "length (wf_payload f) = len" by (simp add: frame_at_def)
  with fl le show thesis by (intro that [of off]) (simp_all add: offset_def split: if_splits)
qed

lemma parse_encode:
  assumes "opcode < 16" "length payload < 2 ^ 64" "\<forall>k. key = Some k \<longrightarrow> length k = 4"
  shows "parse_frame (encode_frame fin opcode key payload @ rest) =
    Some (\<lparr>wf_fin = fin, wf_opcode = opcode, wf_payload = payload\<rparr>, rest)"
proof -
  define b0 :: byte where "b0 = of_nat ((if fin then 128 else 0) + opcode)"
  define m :: nat where "m = (if key = None then 0 else 128)"
  define body where "body = (case key of None \<Rightarrow> payload | Some k \<Rightarrow> k @ unmask k payload)"
  have b0: "b0 AND 0x80 \<noteq> 0 \<longleftrightarrow> fin" "unat (b0 AND 0x0f) = opcode"
    unfolding byte_high byte_nibble b0_def unat_byte using assms(1) by auto presburger
  have "m = 0 \<or> m = 128" by (simp add: m_def)
  then obtain l ext where l: "len_field m (length payload) = of_nat (m + l) # ext" "l < 128"
    "frame_len (b0 # of_nat (m + l) # ext @ body @ rest) = Some (length payload, 2 + length ext)"
    using len_field_cases [OF assms(2)] by blast
  have b1: "(of_nat (m + l) :: byte) AND 0x80 \<noteq> 0 \<longleftrightarrow> key \<noteq> None"
    unfolding byte_high unat_byte using l(2) by (auto simp: m_def)
  have e: "encode_frame fin opcode key payload @ rest = b0 # of_nat (m + l) # ext @ body @ rest"
    using l(1) by (simp add: encode_frame_def b0_def m_def body_def)
  show ?thesis
  proof (cases key)
    case None
    with b0 b1 l(3) show ?thesis unfolding e by (simp add: parse_frame_def Let_def body_def)
  next
    case (Some k)
    let ?pre = "b0 # of_nat (m + l) # ext @ k"
    have k: "length k = 4" and pre: "length ?pre = 6 + length ext" using assms(3) Some by simp_all
    let ?buf = "?pre @ unmask k payload @ rest"
    have buf: "b0 # of_nat (m + l) # ext @ body @ rest = ?buf" by (simp add: body_def Some)
    have n: "?buf ! 0 = b0" "?buf ! 1 = of_nat (m + l)" "2 \<le> length ?buf" "2 + length ext \<le> length ?buf" by simp_all
    have d: "drop (6 + length ext) ?buf = unmask k payload @ rest" "take 4 (drop (2 + length ext) ?buf) = k"
      "drop (6 + length ext + length payload) ?buf = rest"
      unfolding pre [symmetric] using k by (simp_all add: drop_append del: append.simps(2))
    have "frame_at (length payload) (2 + length ext) (6 + length ext) ?buf = \<lparr>wf_fin = fin, wf_opcode = opcode, wf_payload = payload\<rparr>"
      unfolding frame_at_def n d using Some b0 b1 k by (simp add: unmask_unmask del: of_nat_add)
    moreover have "length ?buf = 6 + length ext + length payload + length rest" using k by simp
    moreover have "\<not> length ?buf < 2 + length ext + 4 + length payload" using k by simp
    ultimately show ?thesis unfolding e buf
      using parse_frame_eq [OF n(3) l(3) [unfolded buf] n(4)] Some b1 d(3) unfolding n by (simp del: append.simps of_nat_add)
  qed
qed


lemma on_frame_goes_on:
  "\<not> ws_destroyed s \<Longrightarrow> fst (snd (on_frame f s)) \<longleftrightarrow> \<not> ws_destroyed (snd (snd (on_frame f s)))"
  by (simp add: on_frame_def ws_destroy_def Let_def)

lemma on_frame_buf: "on_frame f (s\<lparr>ws_buf := b\<rparr>) =
    (fst (on_frame f s), fst (snd (on_frame f s)), (snd (snd (on_frame f s)))\<lparr>ws_buf := b\<rparr>)"
  by (simp add: on_frame_def ws_destroy_def Let_def)

text \<open>Bytes appended to the buffer are read after what was there, unless the shim was destroyed.\<close>

lemma frame_loop_append:
  assumes "\<not> ws_destroyed s"
  shows "frame_loop (s\<lparr>ws_buf := ws_buf s @ b\<rparr>) =
    (let (es, s1) = frame_loop s in
     if ws_destroyed s1 then (es, s1\<lparr>ws_buf := ws_buf s1 @ b\<rparr>)
     else let (fs, s2) = frame_loop (s1\<lparr>ws_buf := ws_buf s1 @ b\<rparr>) in (es @ fs, s2))"
  using assms
proof (induction s rule: frame_loop.induct)
  case (1 s)
  show ?case
  proof (cases "parse_frame (ws_buf s)")
    case None
    then have "frame_loop s = ([], s)" by (simp add: frame_loop.simps)
    with "1.prems" show ?thesis by (simp add: split_beta)
  next
    case (Some fr)
    obtain f rest where fr: "fr = (f, rest)" by fastforce
    define t where "t = snd (snd (on_frame f s))"
    define es where "es = fst (on_frame f s)"
    have d: "fst (snd (on_frame f s)) \<longleftrightarrow> \<not> ws_destroyed t"
      unfolding t_def by (rule on_frame_goes_on [OF "1.prems"])
    have l: "frame_loop s = (if \<not> ws_destroyed t then (es @ fst (frame_loop (t\<lparr>ws_buf := rest\<rparr>)), snd (frame_loop (t\<lparr>ws_buf := rest\<rparr>)))
        else (es, t\<lparr>ws_buf := rest\<rparr>))"
      by (subst frame_loop.simps) (simp add: Some fr on_frame_buf d split_beta Let_def flip: t_def es_def)
    have a: "frame_loop (s\<lparr>ws_buf := ws_buf s @ b\<rparr>) =
        (if \<not> ws_destroyed t then (es @ fst (frame_loop (t\<lparr>ws_buf := rest @ b\<rparr>)), snd (frame_loop (t\<lparr>ws_buf := rest @ b\<rparr>)))
        else (es, t\<lparr>ws_buf := rest @ b\<rparr>))"
      using parse_frame_append [OF Some [unfolded fr], of b]
      by (subst frame_loop.simps) (simp add: on_frame_buf d split_beta Let_def flip: t_def es_def)
    show ?thesis
    proof (cases "ws_destroyed t")
      case False
      have "fst (snd (on_frame f (s\<lparr>ws_buf := rest\<rparr>)))" "snd (snd (on_frame f (s\<lparr>ws_buf := rest\<rparr>))) = t\<lparr>ws_buf := rest\<rparr>"
        using d False by (simp_all add: on_frame_buf t_def)
      from "1.IH" [OF Some fr [symmetric] refl this(1)] this(2) False
      show ?thesis unfolding l a by (simp add: split_beta Let_def)
    qed (simp add: l a)
  qed
qed

lemma frame_loop_done: "\<not> ws_destroyed s \<Longrightarrow> \<not> ws_destroyed (snd (frame_loop s)) \<Longrightarrow> parse_frame (ws_buf (snd (frame_loop s))) = None"
proof (induction s rule: frame_loop.induct)
  case (1 s)
  show ?case
  proof (cases "parse_frame (ws_buf s)")
    case (Some fr)
    obtain f rest where fr: "fr = (f, rest)" by fastforce
    let ?r = "on_frame f (s\<lparr>ws_buf := rest\<rparr>)"
    have d: "fst (snd ?r) \<longleftrightarrow> \<not> ws_destroyed (snd (snd ?r))" using "1.prems" by (intro on_frame_goes_on) simp
    show ?thesis
    proof (cases "fst (snd ?r)")
      case True
      with Some fr have "snd (frame_loop s) = snd (frame_loop (snd (snd ?r)))"
        by (subst frame_loop.simps) (simp add: split_beta Let_def)
      with "1.IH" [OF Some fr [symmetric] refl True] "1.prems" d True show ?thesis by simp
    next
      case False
      with Some fr have "snd (frame_loop s) = snd (snd ?r)" by (subst frame_loop.simps) (simp add: Let_def)
      with False d "1.prems" show ?thesis by simp
    qed
  qed (use 1 in \<open>simp add: frame_loop.simps\<close>)
qed


text \<open>The buffer of a destroyed shim is never read again, so it may be taken as empty.\<close>

definition quiet :: "WsSocketShim \<Rightarrow> WsSocketShim" where
  "quiet s = (if ws_destroyed s then s\<lparr>ws_buf := []\<rparr> else s)"

definition ws_feed :: "WsSocketShim \<Rightarrow> byte list \<Rightarrow> ws_effect list \<times> WsSocketShim" where
  "ws_feed s chunk = (fst (ws_chunk s chunk), quiet (snd (ws_chunk s chunk)))"

definition ws_ready :: "WsSocketShim \<Rightarrow> bool" where
  "ws_ready s \<longleftrightarrow> (if ws_destroyed s then ws_buf s = [] else parse_frame (ws_buf s) = None)"

interpretation ws: chunked_parser ws_feed ws_ready
proof unfold_locales
  fix s :: WsSocketShim and a b c :: "byte list"
  assume r: "ws_ready s"
  show "ws_feed s [] = ([], s)"
    using r by (simp add: ws_feed_def ws_chunk_def onBytes_def ws_ready_def quiet_def frame_loop.simps)
  have "\<not> ws_destroyed s \<Longrightarrow> \<not> ws_destroyed (snd (onBytes c s)) \<Longrightarrow> parse_frame (ws_buf (snd (onBytes c s))) = None"
    unfolding onBytes_def by (rule frame_loop_done) simp_all
  then show "ws_ready (snd (ws_feed s c))"
    using r by (simp add: ws_feed_def ws_chunk_def ws_ready_def quiet_def)
  show "ws_feed s (a @ b) = (fst (ws_feed s a) @ fst (ws_feed (snd (ws_feed s a)) b), snd (ws_feed (snd (ws_feed s a)) b))"
  proof (cases "ws_destroyed s")
    case True
    then show ?thesis using r by (simp add: ws_feed_def ws_chunk_def quiet_def ws_ready_def)
  next
    case False
    obtain es s1 where l: "frame_loop (s\<lparr>ws_buf := ws_buf s @ a\<rparr>) = (es, s1)" by fastforce
    have "frame_loop (s\<lparr>ws_buf := ws_buf s @ a @ b\<rparr>) =
      (if ws_destroyed s1 then (es, s1\<lparr>ws_buf := ws_buf s1 @ b\<rparr>)
       else (es @ fst (frame_loop (s1\<lparr>ws_buf := ws_buf s1 @ b\<rparr>)), snd (frame_loop (s1\<lparr>ws_buf := ws_buf s1 @ b\<rparr>))))"
      using frame_loop_append [of "s\<lparr>ws_buf := ws_buf s @ a\<rparr>" b] False l by (simp add: split_beta Let_def)
    with False l show ?thesis by (simp add: ws_feed_def ws_chunk_def onBytes_def quiet_def)
  qed
qed

section \<open>Messages\<close>

text \<open>A message in fragments, each under its own masking key, as a client sends it.\<close>

fun encode_message :: "bool \<Rightarrow> (byte list \<times> byte list) list \<Rightarrow> byte list" where
  "encode_message first [] = []"
| "encode_message first [(k, p)] = encode_frame True (if first then 1 else 0) (Some k) p"
| "encode_message first ((k, p) # q # r) =
     encode_frame False (if first then 1 else 0) (Some k) p @ encode_message False (q # r)"

definition message :: "(byte list \<times> byte list) list \<Rightarrow> byte list" where
  "message fs = concat (map snd fs)"

definition sendable :: "(byte list \<times> byte list) list \<Rightarrow> bool" where
  "sendable fs \<longleftrightarrow> fs \<noteq> [] \<and> list_all (\<lambda>f. length (fst f) = 4) fs \<and> length (message fs) \<le> MAX_MESSAGE_BYTES"

lemma MAX_MESSAGE_small: "n \<le> MAX_MESSAGE_BYTES \<Longrightarrow> n < 2 ^ 64"
  by (simp add: MAX_MESSAGE_BYTES_def)

lemma frame_loop_frame:
  assumes "length k = 4" "length p \<le> MAX_MESSAGE_BYTES" "opcode < 16"
  shows "frame_loop (s\<lparr>ws_buf := encode_frame fin opcode (Some k) p @ rest\<rparr>) =
    (let r = on_frame \<lparr>wf_fin = fin, wf_opcode = opcode, wf_payload = p\<rparr> (s\<lparr>ws_buf := rest\<rparr>)
     in if fst (snd r) then (fst r @ fst (frame_loop (snd (snd r))), snd (frame_loop (snd (snd r))))
        else (fst r, snd (snd r)))"
proof -
  have "parse_frame (encode_frame fin opcode (Some k) p @ rest) =
      Some (\<lparr>wf_fin = fin, wf_opcode = opcode, wf_payload = p\<rparr>, rest)"
    using assms MAX_MESSAGE_small by (intro parse_encode) simp_all
  then show ?thesis by (subst frame_loop.simps) (simp add: split_beta Let_def)
qed

lemma frame_loop_message:
  assumes "fs \<noteq> []" "list_all (\<lambda>f. length (fst f) = 4) fs" "length (concat (ws_frags s)) + length (message fs) \<le> MAX_MESSAGE_BYTES"
    and "ws_fragBytes s = length (concat (ws_frags s))"
  shows "frame_loop (s\<lparr>ws_buf := encode_message first fs @ rest\<rparr>) =
    (Ws_data (concat (ws_frags s) @ message fs) # fst (frame_loop (s\<lparr>ws_buf := rest, ws_frags := [], ws_fragBytes := 0\<rparr>)),
     snd (frame_loop (s\<lparr>ws_buf := rest, ws_frags := [], ws_fragBytes := 0\<rparr>)))"
  using assms
proof (induction first fs arbitrary: s rule: encode_message.induct)
  case (2 first k p)
  then have "length p \<le> MAX_MESSAGE_BYTES" by (simp add: message_def)
  with 2 show ?case by (simp add: frame_loop_frame on_frame_def Let_def message_def)
next
  case (3 first k p q r)
  let ?s = "s\<lparr>ws_frags := ws_frags s @ [p], ws_fragBytes := ws_fragBytes s + length p\<rparr>"
  have p: "length p \<le> MAX_MESSAGE_BYTES" "ws_fragBytes s + length p \<le> MAX_MESSAGE_BYTES"
    using "3.prems" by (simp_all add: message_def)
  have ih: "frame_loop (?s\<lparr>ws_buf := encode_message False (q # r) @ rest\<rparr>) =
    (Ws_data (concat (ws_frags ?s) @ message (q # r)) # fst (frame_loop (?s\<lparr>ws_buf := rest, ws_frags := [], ws_fragBytes := 0\<rparr>)),
     snd (frame_loop (?s\<lparr>ws_buf := rest, ws_frags := [], ws_fragBytes := 0\<rparr>)))"
    by (rule "3.IH") (use "3.prems" in \<open>simp_all add: message_def\<close>)
  have "?s\<lparr>ws_buf := x\<rparr> = s\<lparr>ws_buf := x, ws_frags := ws_frags s @ [p], ws_fragBytes := ws_fragBytes s + length p\<rparr>" for x
    by simp
  note ih = ih [unfolded this]
  show ?case using ih p "3.prems"
    by (simp add: frame_loop_frame on_frame_def Let_def message_def)
qed simp

lemma frame_loop_messages:
  "list_all sendable ms \<Longrightarrow> frame_loop (new_shim\<lparr>ws_buf := concat (map (encode_message True) ms)\<rparr>) =
     (map (Ws_data \<circ> message) ms, new_shim)"
proof (induction ms)
  case (Cons m ms)
  have "frame_loop (new_shim\<lparr>ws_buf := encode_message True m @ concat (map (encode_message True) ms)\<rparr>) =
    (Ws_data (concat (ws_frags new_shim) @ message m)
       # fst (frame_loop (new_shim\<lparr>ws_buf := concat (map (encode_message True) ms), ws_frags := [], ws_fragBytes := 0\<rparr>)),
     snd (frame_loop (new_shim\<lparr>ws_buf := concat (map (encode_message True) ms), ws_frags := [], ws_fragBytes := 0\<rparr>)))"
    using Cons.prems by (intro frame_loop_message) (simp_all add: sendable_def new_shim_def)
  with Cons show ?case by (simp add: new_shim_def)
next
  case Nil
  have "parse_frame [] = None" by (simp add: parse_frame_def)
  then show ?case by (simp add: new_shim_def frame_loop.simps)
qed

section \<open>Properties\<close>




text \<open>
  What the daemon writes, a client reads. Every message the daemon writes is one complete
  unmasked text frame that a parser of the format takes apart into exactly the message,
  whatever follows it, at every length the three forms of the header cover.
\<close>

theorem text_frame_roundtrip:
  assumes "length payload < 2 ^ 64"
  shows "parse_frame (encodeTextFrame payload @ rest) =
    Some (\<lparr>wf_fin = True, wf_opcode = 1, wf_payload = payload\<rparr>, rest)"
  unfolding encodeTextFrame_eq using assms by (intro parse_encode) simp_all

theorem text_frame_roundtrip_witness:
  "parse_frame (encodeTextFrame (replicate 200 7) @ [1]) =
     Some (\<lparr>wf_fin = True, wf_opcode = 1, wf_payload = replicate 200 7\<rparr>, [1])"
  by (rule text_frame_roundtrip) simp

text \<open>
  The cap on a message does not bound what is held for a peer. After a header that
  announces a length, the shim keeps every byte it is sent until that many have come, without
  any effect, although the announced length may exceed the cap on a message by any factor and
  the peer has not authenticated.
\<close>

theorem partial_frame_unbounded:
  assumes "length k = 4" "n < 2 ^ 64" "length sent < n"
  shows "ws.feed_all new_shim [of_nat (128 + 1) # len_field 128 n @ k, sent] =
    ([], new_shim\<lparr>ws_buf := (of_nat (128 + 1) # len_field 128 n @ k) @ sent\<rparr>)"
proof -
  let ?h = "of_nat (128 + 1) # len_field 128 n @ k"
  obtain l ext where l: "len_field 128 n = of_nat (128 + l) # ext" "l < 128"
    "frame_len (of_nat (128 + 1) # of_nat (128 + l) # ext @ k @ sent) = Some (n, 2 + length ext)"
    using len_field_cases [OF assms(2), of 128 "of_nat (128 + 1)" "k @ sent"] by blast
  have b1: "(of_nat (128 + l) :: byte) AND 0x80 \<noteq> 0" unfolding byte_high unat_byte using l(2) by auto
  have buf: "?h @ sent = of_nat (128 + 1) # of_nat (128 + l) # ext @ k @ sent" using l(1) by simp
  have "parse_frame (?h @ sent) = None"
    using parse_frame_eq [of "?h @ sent" n "2 + length ext"] l(3) b1 assms(1,3) unfolding buf
    by (simp del: of_nat_add)
  then have "ws_feed new_shim (?h @ sent) = ([], new_shim\<lparr>ws_buf := ?h @ sent\<rparr>)"
    by (simp add: ws_feed_def ws_chunk_def onBytes_def frame_loop.simps quiet_def new_shim_def)
  moreover have "ws_ready new_shim" by (simp add: ws_ready_def new_shim_def parse_frame_def)
  ultimately show ?thesis using ws.feed_all_concat [of new_shim "[?h, sent]"] by simp
qed

theorem partial_frame_unbounded_witness:
  "ws.feed_all new_shim [of_nat (128 + 1) # len_field 128 (2 ^ 40) @ [0, 0, 0, 0], replicate 16777216 0] =
     ([], new_shim\<lparr>ws_buf := (of_nat (128 + 1) # len_field 128 (2 ^ 40) @ [0, 0, 0, 0]) @ replicate 16777216 0\<rparr>)"
  by (rule partial_frame_unbounded) simp_all

text \<open>
  A ping longer than a control frame may be is answered with a frame of the wrong length.
  The pong's length byte is the payload length modulo 256, so a peer that sends a ping of 200
  bytes is answered with a pong whose header announces another length, and reads what follows
  it as part of that frame or as frames of its own.
\<close>

theorem pong_roundtrip_iff:
  "(\<forall>rest. parse_frame (pongFrame p @ rest) = Some (\<lparr>wf_fin = True, wf_opcode = 10, wf_payload = p\<rparr>, rest))
     \<longleftrightarrow> length p < 126"
proof
  assume "length p < 126"
  then have "pongFrame p = encode_frame True 10 None p" by (simp add: pongFrame_def encode_frame_def len_field_def)
  with \<open>length p < 126\<close> show "\<forall>rest. parse_frame (pongFrame p @ rest) =
      Some (\<lparr>wf_fin = True, wf_opcode = 10, wf_payload = p\<rparr>, rest)"
    by (auto intro!: parse_encode)
next
  assume r: "\<forall>rest. parse_frame (pongFrame p @ rest) = Some (\<lparr>wf_fin = True, wf_opcode = 10, wf_payload = p\<rparr>, rest)"
  then have "parse_frame (pongFrame p) = Some (\<lparr>wf_fin = True, wf_opcode = 10, wf_payload = p\<rparr>, [])"
    by (metis append_Nil2)
  then obtain off where "frame_len (pongFrame p) = Some (length p, off)" "off + length p \<le> length (pongFrame p)"
    by (rule parse_frame_lengths) simp
  moreover have "unat ((pongFrame p ! 1) AND 0x7f) < 128" unfolding byte_low by simp
  ultimately show "length p < 126"
    by (auto simp: frame_len_def pongFrame_def Let_def split: if_splits)
qed

end
