(* ===== verification/Crypto.thy ===== *)
theory Crypto
  imports Types WsServer
begin

unbundle bit_operations_syntax

text \<open>
  Frame cryptography: the pure parts of the React Native implementation,
  \<^verbatim>\<open>apps/mobile/src/core/crypto/frameCrypto.ts\<close> (base64, the SPKI wrapping of public keys, the layout
  of a sealed frame), and the Node implementation, \<^verbatim>\<open>packages/protocol/src/crypto-node.ts\<close>. AES-GCM,
  X25519, HKDF, HMAC, the random nonce, JSON and UTF-8 are arguments. The decoder's accumulator
  is a 32-bit integer, as JavaScript's bitwise operators make it, and wraps around.
\<close>

section \<open>Base64\<close>

definition B64 :: string where
  "B64 = ''ABCDEFGHIJKLMNOPQRSTUVWXYZabcdefghijklmnopqrstuvwxyz0123456789+/''"

fun toBase64 :: "byte list \<Rightarrow> string" where
  "toBase64 [] = []"
| "toBase64 [a] = [B64 ! unat (drop_bit 2 a), B64 ! unat (push_bit 4 (a AND 3)), CHR ''='', CHR ''='']"
| "toBase64 [a, b] = [B64 ! unat (drop_bit 2 a), B64 ! unat (push_bit 4 (a AND 3) OR drop_bit 4 b),
     B64 ! unat (push_bit 2 (b AND 15)), CHR ''='']"
| "toBase64 (a # b # c # rest) =
     [B64 ! unat (drop_bit 2 a), B64 ! unat (push_bit 4 (a AND 3) OR drop_bit 4 b),
      B64 ! unat (push_bit 2 (b AND 15) OR drop_bit 6 c), B64 ! unat (c AND 63)] @ toBase64 rest"

text \<open>\<^verbatim>\<open>B64_LOOKUP\<close>: the last position of a character, nothing for the entries that stay -1.\<close>

definition B64_LOOKUP :: "char \<Rightarrow> nat option" where
  "B64_LOOKUP c = map_of (zip B64 [0..<64]) c"

text \<open>The loop: every 6 bits go in at the right, and 8 come out as soon as there are 8.\<close>

fun decode_loop :: "32 word \<Rightarrow> nat \<Rightarrow> string \<Rightarrow> byte list" where
  "decode_loop bits nbits [] = []"
| "decode_loop bits nbits (c # cs) =
     (case B64_LOOKUP c of
        None \<Rightarrow> decode_loop bits nbits cs
      | Some v \<Rightarrow>
          (let bits1 = push_bit 6 bits OR of_nat v; nbits1 = nbits + 6
           in if 8 \<le> nbits1
              then ucast (signed_drop_bit (nbits1 - 8) bits1 AND 0xff) # decode_loop bits1 (nbits1 - 8) cs
              else decode_loop bits1 nbits1 cs))"

text \<open>A typed array of the computed size, zero where nothing is written; writes outside are dropped.\<close>

definition typed_array :: "nat \<Rightarrow> byte list \<Rightarrow> byte list" where
  "typed_array n bs = take n (bs @ replicate n 0)"

definition fromBase64 :: "string \<Rightarrow> byte list" where
  "fromBase64 s =
     (let clean = filter (\<lambda>c. c \<in> set B64) s
      in typed_array (length clean * 3 div 4) (decode_loop 0 0 clean))"

section \<open>Public keys\<close>

definition SPKI_PREFIX :: "byte list" where
  "SPKI_PREFIX = [0x30, 0x2a, 0x30, 0x05, 0x06, 0x03, 0x2b, 0x65, 0x6e, 0x03, 0x21, 0x00]"

definition spkiPublicKeyB64 :: "byte list \<Rightarrow> string" where
  "spkiPublicKeyB64 raw = toBase64 (SPKI_PREFIX @ raw)"

definition rawPublicKeyFromB64 :: "string \<Rightarrow> byte list" where
  "rawPublicKeyFromB64 spki = (let bs = fromBase64 spki in drop (length bs - 32) bs)"

section \<open>Frames\<close>

text \<open>
  AES-256-GCM as both libraries give it: the ciphertext and its tag, and decryption, which fails
  when the tag does not verify. Text and bytes, and values and JSON text, are the codec.
\<close>

record aead =
  ae_enc :: "byte list \<Rightarrow> byte list \<Rightarrow> string \<Rightarrow> byte list \<Rightarrow> byte list \<times> byte list"
  ae_dec :: "byte list \<Rightarrow> byte list \<Rightarrow> string \<Rightarrow> byte list \<Rightarrow> byte list \<Rightarrow> byte list option"

record 'p json_codec =
  jc_bytes :: "'p \<Rightarrow> byte list"
  jc_parse :: "byte list \<Rightarrow> 'p option"

text \<open>The Node side. \<open>dec64\<close> is \<^verbatim>\<open>Buffer.from(s, 'base64')\<close>.\<close>

definition node_seal :: "aead \<Rightarrow> 'p json_codec \<Rightarrow> byte list \<Rightarrow> byte list \<Rightarrow> int \<Rightarrow> 'p \<Rightarrow> Direction \<Rightarrow> SealedFrame" where
  "node_seal ae jc nonce key seq plaintext direction =
     (let (body, tag) = ae_enc ae key nonce (frameAADString direction seq) (jc_bytes jc plaintext)
      in \<lparr>fr_n = toBase64 nonce, fr_c = toBase64 body, fr_t = toBase64 tag, fr_seq = seq\<rparr>)"

definition node_open :: "aead \<Rightarrow> 'p json_codec \<Rightarrow> (string \<Rightarrow> byte list) \<Rightarrow> byte list \<Rightarrow> SealedFrame \<Rightarrow> Direction \<Rightarrow> 'p option" where
  "node_open ae jc dec64 key f direction =
     Option.bind (ae_dec ae key (dec64 (fr_n f)) (frameAADString direction (fr_seq f)) (dec64 (fr_c f)) (dec64 (fr_t f)))
       (jc_parse jc)"

text \<open>The React Native side: \<^verbatim>\<open>gcm(key, nonce, aad)\<close> of the cipher library works on ciphertext and tag in one array.\<close>

record rn_gcm =
  gcm_encrypt :: "byte list \<Rightarrow> byte list \<Rightarrow> string \<Rightarrow> byte list \<Rightarrow> byte list"
  gcm_decrypt :: "byte list \<Rightarrow> byte list \<Rightarrow> string \<Rightarrow> byte list \<Rightarrow> byte list option"

definition rn_seal :: "rn_gcm \<Rightarrow> 'p json_codec \<Rightarrow> byte list \<Rightarrow> byte list \<Rightarrow> int \<Rightarrow> 'p \<Rightarrow> Direction \<Rightarrow> SealedFrame" where
  "rn_seal g jc nonce key seq plaintext direction =
     (let ct = gcm_encrypt g key nonce (frameAADString direction seq) (jc_bytes jc plaintext)
      in \<lparr>fr_n = toBase64 nonce, fr_c = toBase64 (take (length ct - 16) ct),
          fr_t = toBase64 (drop (length ct - 16) ct), fr_seq = seq\<rparr>)"

definition rn_open :: "rn_gcm \<Rightarrow> 'p json_codec \<Rightarrow> byte list \<Rightarrow> SealedFrame \<Rightarrow> Direction \<Rightarrow> 'p option" where
  "rn_open g jc key f direction =
     Option.bind (gcm_decrypt g key (fromBase64 (fr_n f)) (frameAADString direction (fr_seq f))
        (fromBase64 (fr_c f) @ fromBase64 (fr_t f))) (jc_parse jc)"

section \<open>Keys and proofs\<close>

definition INFO :: string where "INFO = ''app.claudecode/v1''"

definition rn_deriveSessionKey :: "(byte list \<Rightarrow> byte list \<Rightarrow> byte list) \<Rightarrow> (byte list \<Rightarrow> byte list \<Rightarrow> string \<Rightarrow> nat \<Rightarrow> byte list) \<Rightarrow>
    byte list \<Rightarrow> byte list \<Rightarrow> byte list \<Rightarrow> byte list" where
  "rn_deriveSessionKey ecdh hkdf priv peer salt = hkdf (ecdh priv peer) salt INFO 32"

definition rn_pairingProof :: "(string \<Rightarrow> string \<Rightarrow> byte list) \<Rightarrow> string \<Rightarrow> string \<Rightarrow> string \<Rightarrow> string" where
  "rn_pairingProof hmac secret devicePublicKey daemonPublicKey =
     toBase64 (hmac secret (devicePublicKey @ daemonPublicKey))"

section \<open>Laws\<close>

lemma length_B64: "length B64 = 64" by (simp add: B64_def)

lemma distinct_B64: "distinct B64" by (simp add: B64_def)

lemma lookup_B64: "n < 64 \<Longrightarrow> B64_LOOKUP (B64 ! n) = Some n"
  using distinct_B64 by (simp add: B64_LOOKUP_def length_B64 map_of_zip_nth)

lemma pad_not_B64: "CHR ''='' \<notin> set B64" by (simp add: B64_def)

lemma in_B64: "n < 64 \<Longrightarrow> B64 ! n \<in> set B64" by (simp add: length_B64)

lemma lookup_set: "c \<in> set B64 \<Longrightarrow> \<exists>v < 64. B64_LOOKUP c = Some v"
  by (metis in_set_conv_nth length_B64 lookup_B64)

lemma decode_step:
  "n < 64 \<Longrightarrow> decode_loop bits nbits ((B64 ! n) # cs) =
     (let bits1 = push_bit 6 bits OR of_nat n
      in if 2 \<le> nbits then ucast (signed_drop_bit (nbits - 2) bits1 AND 0xff) # decode_loop bits1 (nbits - 2) cs
         else decode_loop bits1 (nbits + 6) cs)"
  by (simp add: lookup_B64 Let_def)

lemma byte_masks:
  "(x :: byte) AND 3 = take_bit 2 x" "x AND 15 = take_bit 4 x" "x AND 63 = take_bit 6 x"
proof -
  have "(3 :: byte) = mask 2" "(15 :: byte) = mask 4" "(63 :: byte) = mask 6" by (simp_all add: mask_numeral)
  then show "x AND 3 = take_bit 2 x" "x AND 15 = take_bit 4 x" "x AND 63 = take_bit 6 x"
    by (simp_all only: take_bit_eq_mask)
qed

lemma six_bits:
  "unat (drop_bit 2 (a :: byte)) < 64" "unat (push_bit 4 (a AND 3) OR drop_bit 4 b :: byte) < 64"
  "unat (push_bit 2 (b AND 15) OR drop_bit 6 c :: byte) < 64" "unat (c AND 63 :: byte) < 64"
  "unat (push_bit 4 (a AND 3) :: byte) < 64" "unat (push_bit 2 (b AND 15) :: byte) < 64"
proof -
  have *: "unat w < 64" if "take_bit 6 w = w" for w :: byte
  proof -
    have "unat (take_bit 6 w) < 64" unfolding unsigned_take_bit_eq by (simp add: take_bit_eq_mod)
    then show ?thesis unfolding that .
  qed
  show "unat (drop_bit 2 (a :: byte)) < 64" "unat (push_bit 4 (a AND 3) OR drop_bit 4 b :: byte) < 64"
    "unat (push_bit 2 (b AND 15) OR drop_bit 6 c :: byte) < 64"
    unfolding byte_masks
    by (rule *, rule bit_word_eqI, auto simp only: bit_simps dest: bit_imp_le_length, fastforce dest: bit_imp_le_length)+
  show "unat (c AND 63 :: byte) < 64" "unat (push_bit 4 (a AND 3) :: byte) < 64" "unat (push_bit 2 (b AND 15) :: byte) < 64"
    unfolding byte_masks by (rule *, rule bit_word_eqI, auto simp only: bit_simps)+
qed


text \<open>
  One byte out of two characters: whatever older bits the accumulator still holds, also those a
  shift has pushed over its edge, the low bits are those of the last two characters.
\<close>

lemma out_byte:
  fixes bits :: "32 word" and x y :: byte
  assumes "k \<le> 4"
  shows "ucast (signed_drop_bit k (push_bit 6 (push_bit 6 bits OR ucast x) OR ucast y) AND (0xff :: 32 word)) =
    (ucast (drop_bit k (push_bit 6 (ucast x) OR ucast y :: 32 word)) :: byte)"
proof (rule bit_word_eqI)
  fix n assume n: "n < LENGTH(8)"
  have ff: "bit (0xff :: 32 word) n" using n
    by (auto simp: less_Suc_eq numeral_eq_Suc bit_simps)
  show "bit (ucast (signed_drop_bit k (push_bit 6 (push_bit 6 bits OR ucast x) OR ucast y) AND (0xff :: 32 word)) :: byte) n =
    bit (ucast (drop_bit k (push_bit 6 (ucast x) OR ucast y :: 32 word)) :: byte) n"
    using n ff assms by (auto simp: bit_simps)
qed


lemma of_nat_unat_ucast: "(of_nat (unat (x :: byte)) :: 32 word) = ucast x"
  by simp

lemma byte_eqI:
  assumes "list_all (\<lambda>n. bit x n = bit (y :: byte) n) [0, 1, 2, 3, 4, 5, 6, 7]"
  shows "x = y"
proof (rule bit_word_eqI)
  fix n assume "n < LENGTH(8)"
  then have "n \<in> set [0, 1, 2, 3, 4, 5, 6, 7]" by auto
  with assms show "bit x n = bit y n" unfolding list_all_iff by blast
qed

lemma byte_bit_high: "8 \<le> n \<Longrightarrow> \<not> bit (x :: byte) n"
  by (auto dest: bit_imp_le_length)

text \<open>The bytes that the characters of one group give back.\<close>

lemma group_bytes:
  fixes a b c :: byte and bits :: "32 word"
  defines "v1 \<equiv> drop_bit 2 a" and "v2 \<equiv> push_bit 4 (a AND 3) OR drop_bit 4 b"
    and "v3 \<equiv> push_bit 2 (b AND 15) OR drop_bit 6 c" and "v4 \<equiv> c AND 63"
  shows "(ucast (drop_bit 4 (push_bit 6 (ucast v1) OR ucast v2 :: 32 word)) :: byte) = a"
    and "(ucast (drop_bit 2 (push_bit 6 (ucast v2) OR ucast v3 :: 32 word)) :: byte) = b"
    and "(ucast (drop_bit 0 (push_bit 6 (ucast v3) OR ucast v4 :: 32 word)) :: byte) = c"
proof -
  have "n < 8 \<Longrightarrow> bit (ucast (drop_bit 4 (push_bit 6 (ucast v1) OR ucast v2 :: 32 word)) :: byte) n = bit a n"
    "n < 8 \<Longrightarrow> bit (ucast (drop_bit 2 (push_bit 6 (ucast v2) OR ucast v3 :: 32 word)) :: byte) n = bit b n"
    "n < 8 \<Longrightarrow> bit (ucast (drop_bit 0 (push_bit 6 (ucast v3) OR ucast v4 :: 32 word)) :: byte) n = bit c n" for n
  proof -
    have *: "2 \<le> n \<Longrightarrow> n < 8 \<Longrightarrow> Suc (Suc (n - 2)) = n" "4 \<le> n \<Longrightarrow> 4 + (n - 4) = n" "6 \<le> n \<Longrightarrow> 6 + (n - 6) = n" for n :: nat
      by linarith+
    show "n < 8 \<Longrightarrow> bit (ucast (drop_bit 4 (push_bit 6 (ucast v1) OR ucast v2 :: 32 word)) :: byte) n = bit a n"
      unfolding v1_def v2_def byte_masks
      by (cases "n < 2") (auto simp: bit_simps * not_less dest: bit_imp_le_length)
    show "n < 8 \<Longrightarrow> bit (ucast (drop_bit 2 (push_bit 6 (ucast v2) OR ucast v3 :: 32 word)) :: byte) n = bit b n"
      unfolding v2_def v3_def byte_masks by (auto simp: bit_simps * not_less dest: bit_imp_le_length)
    show "n < 8 \<Longrightarrow> bit (ucast (drop_bit 0 (push_bit 6 (ucast v3) OR ucast v4 :: 32 word)) :: byte) n = bit c n"
      unfolding v3_def v4_def byte_masks by (auto simp: bit_simps * not_less dest: bit_imp_le_length)
  qed
  then show "(ucast (drop_bit 4 (push_bit 6 (ucast v1) OR ucast v2 :: 32 word)) :: byte) = a"
    "(ucast (drop_bit 2 (push_bit 6 (ucast v2) OR ucast v3 :: 32 word)) :: byte) = b"
    "(ucast (drop_bit 0 (push_bit 6 (ucast v3) OR ucast v4 :: 32 word)) :: byte) = c"
    by (auto intro!: bit_word_eqI)
qed

text \<open>One more character, when the accumulator ends with the character before it.\<close>

lemma decode_char:
  fixes x y :: byte
  assumes "unat y < 64" "k \<le> 4" "nbits = k + 2"
  shows "decode_loop (push_bit 6 bits OR ucast x) nbits (B64 ! unat y # cs) =
    ucast (drop_bit k (push_bit 6 (ucast x) OR ucast y :: 32 word)) #
      decode_loop (push_bit 6 (push_bit 6 bits OR ucast x) OR ucast y) k cs"
proof -
  have "decode_loop b (k + 2) (B64 ! unat y # cs) =
      ucast (signed_drop_bit k (push_bit 6 b OR ucast y) AND 0xff) # decode_loop (push_bit 6 b OR ucast y) k cs" for b
    using decode_step [OF assms(1), of b "k + 2" cs] by (simp only: Let_def of_nat_unat_ucast if_True le_add2 add_diff_cancel_right')
  then show ?thesis unfolding assms(3) by (simp only: out_byte [OF assms(2)])
qed

lemma decode_first:
  "unat (x :: byte) < 64 \<Longrightarrow> decode_loop bits 0 (B64 ! unat x # cs) = decode_loop (push_bit 6 bits OR ucast x) 6 cs"
  by (simp only: decode_step Let_def of_nat_unat_ucast) simp

text \<open>A whole group, and the two incomplete ones.\<close>

lemma decode_group:
  fixes a b c :: byte and bits :: "32 word"
  defines "v1 \<equiv> drop_bit 2 a" and "v2 \<equiv> push_bit 4 (a AND 3) OR drop_bit 4 b"
    and "v3 \<equiv> push_bit 2 (b AND 15) OR drop_bit 6 c" and "v4 \<equiv> c AND 63"
  shows "\<exists>bits'. decode_loop bits 0 (B64 ! unat v1 # B64 ! unat v2 # B64 ! unat v3 # B64 ! unat v4 # cs) = a # b # c # decode_loop bits' 0 cs"
    and "decode_loop bits 0 [B64 ! unat v1, B64 ! unat v2] = [a]"
    and "decode_loop bits 0 [B64 ! unat v1, B64 ! unat v2, B64 ! unat v3] = [a, b]"
proof -
  have six: "unat v1 < 64" "unat v2 < 64" "unat v3 < 64" "unat v4 < 64"
    unfolding v1_def v2_def v3_def v4_def by (rule six_bits)+
  have d1: "decode_loop b1 0 (B64 ! unat v1 # B64 ! unat v2 # cs) =
      a # decode_loop (push_bit 6 (push_bit 6 b1 OR ucast v1) OR ucast v2) 4 cs" for b1 cs
    unfolding decode_first [OF six(1)] using group_bytes(1) [of a b, folded v1_def v2_def]
    by (subst decode_char [OF six(2), of 4]) simp_all
  have d2: "decode_loop (push_bit 6 b1 OR ucast v2) 4 (B64 ! unat v3 # cs) =
      b # decode_loop (push_bit 6 (push_bit 6 b1 OR ucast v2) OR ucast v3) 2 cs" for b1 cs
    using group_bytes(2) [of a b c, folded v2_def v3_def] by (subst decode_char [OF six(3), of 2]) simp_all
  have d3: "decode_loop (push_bit 6 b1 OR ucast v3) 2 (B64 ! unat v4 # cs) =
      c # decode_loop (push_bit 6 (push_bit 6 b1 OR ucast v3) OR ucast v4) 0 cs" for b1 cs
    using group_bytes(3) [of b c, folded v3_def v4_def] by (subst decode_char [OF six(4), of 0]) simp_all
  show "\<exists>bits'. decode_loop bits 0 (B64 ! unat v1 # B64 ! unat v2 # B64 ! unat v3 # B64 ! unat v4 # cs) = a # b # c # decode_loop bits' 0 cs"
    unfolding d1 d2 d3 by blast
  show "decode_loop bits 0 [B64 ! unat v1, B64 ! unat v2] = [a]"
    "decode_loop bits 0 [B64 ! unat v1, B64 ! unat v2, B64 ! unat v3] = [a, b]"
    unfolding d1 d2 by simp_all
qed


definition clean :: "string \<Rightarrow> string" where
  "clean s = filter (\<lambda>c. c \<in> set B64) s"

lemma clean_group:
  "clean (B64 ! unat (drop_bit 2 (a :: byte)) # s) = B64 ! unat (drop_bit 2 a) # clean s"
  "clean (B64 ! unat (push_bit 4 (a AND 3) OR drop_bit 4 b :: byte) # s) = B64 ! unat (push_bit 4 (a AND 3) OR drop_bit 4 b) # clean s"
  "clean (B64 ! unat (push_bit 2 (b AND 15) OR drop_bit 6 c :: byte) # s) = B64 ! unat (push_bit 2 (b AND 15) OR drop_bit 6 c) # clean s"
  "clean (B64 ! unat (c AND 63 :: byte) # s) = B64 ! unat (c AND 63) # clean s"
  "clean (CHR ''='' # s) = clean s" "clean [] = []"
  by (simp_all only: clean_def filter.simps in_B64 six_bits pad_not_B64 if_True if_False)

lemma decode_toBase64: "decode_loop bits 0 (clean (toBase64 bs)) = bs"
proof (induction bs arbitrary: bits rule: toBase64.induct)
  case (2 a)
  have t: "toBase64 [a] = [B64 ! unat (drop_bit 2 a), B64 ! unat (push_bit 4 (a AND 3) OR drop_bit 4 0), CHR ''='', CHR ''='']"
    unfolding toBase64.simps drop_bit_of_0 or.right_neutral ..
  show ?case unfolding t by (simp only: clean_group decode_group(2))
next
  case (3 a b)
  have t: "toBase64 [a, b] = [B64 ! unat (drop_bit 2 a), B64 ! unat (push_bit 4 (a AND 3) OR drop_bit 4 b),
      B64 ! unat (push_bit 2 (b AND 15) OR drop_bit 6 0), CHR ''='']"
    unfolding toBase64.simps drop_bit_of_0 or.right_neutral ..
  show ?case unfolding t by (simp only: clean_group decode_group(3))
next
  case (4 a b c rest)
  obtain bits' where "decode_loop bits 0 (B64 ! unat (drop_bit 2 a) # B64 ! unat (push_bit 4 (a AND 3) OR drop_bit 4 b) #
      B64 ! unat (push_bit 2 (b AND 15) OR drop_bit 6 c) # B64 ! unat (c AND 63) # clean (toBase64 rest)) =
      a # b # c # decode_loop bits' 0 (clean (toBase64 rest))"
    using decode_group(1) by blast
  with "4.IH" show ?case unfolding toBase64.simps by (simp only: clean_group append.simps)
qed (simp add: clean_def)

text \<open>The loop fills the array exactly.\<close>

lemma length_decode_loop:
  "list_all (\<lambda>c. c \<in> set B64) cs \<Longrightarrow> nbits \<le> 7 \<Longrightarrow> length (decode_loop bits nbits cs) = (nbits + 6 * length cs) div 8"
proof (induction cs arbitrary: bits nbits)
  case (Cons c cs)
  obtain v where "v < 64" "B64_LOOKUP c = Some v" using Cons.prems lookup_set by auto
  with Cons show ?case by (auto simp: Let_def)
qed simp

lemma fromBase64_eq: "fromBase64 s = decode_loop 0 0 (clean s)"
proof -
  have "length (decode_loop 0 0 (clean s)) = 6 * length (clean s) div 8"
    using length_decode_loop [of "clean s" 0 0] by (simp add: clean_def list_all_iff)
  also have "\<dots> = length (clean s) * 3 div 4" by presburger
  finally show ?thesis by (simp add: fromBase64_def typed_array_def Let_def clean_def)
qed

lemma base64_inverse [simp]: "fromBase64 (toBase64 bs) = bs"
  by (simp add: fromBase64_eq decode_toBase64)

section \<open>Properties\<close>

text \<open>
  Base64 round trip. Decoding what was encoded gives the bytes back, for every length and
  at every phase of padding, although the decoder's 32-bit accumulator overflows, and so does
  decoding the encoding with line breaks or any other foreign characters put in between.
\<close>

theorem base64_roundtrip:
  "fromBase64 (toBase64 bs) = bs \<and> length (fromBase64 s) = length (clean s) * 3 div 4
   \<and> fromBase64 s = fromBase64 (clean s)"
proof -
  have "clean (clean s) = clean s" by (simp add: clean_def)
  then have "fromBase64 s = fromBase64 (clean s)" by (simp add: fromBase64_eq)
  moreover have "length (fromBase64 s) = length (clean s) * 3 div 4"
    by (simp add: fromBase64_def typed_array_def Let_def clean_def)
  ultimately show ?thesis by simp
qed

text \<open>
  A public key survives its wire form. Unwrapping the SPKI text of a 32-byte key gives the
  key back, and two keys have the same text only if they are equal.
\<close>

theorem public_key_roundtrip:
  assumes "length raw = 32"
  shows "rawPublicKeyFromB64 (spkiPublicKeyB64 raw) = raw \<and> (spkiPublicKeyB64 raw = spkiPublicKeyB64 raw' \<longleftrightarrow> raw = raw')"
proof -
  have "spkiPublicKeyB64 raw = spkiPublicKeyB64 raw' \<Longrightarrow> raw = raw'"
    unfolding spkiPublicKeyB64_def by (metis base64_inverse same_append_eq)
  moreover have "fromBase64 (spkiPublicKeyB64 raw) = SPKI_PREFIX @ raw" by (simp only: spkiPublicKeyB64_def base64_inverse)
  moreover have "length SPKI_PREFIX = 12" by (simp add: SPKI_PREFIX_def)
  ultimately show ?thesis using assms by (auto simp: rawPublicKeyFromB64_def Let_def)
qed

theorem public_key_roundtrip_witness: "rawPublicKeyFromB64 (spkiPublicKeyB64 (replicate 32 7)) = replicate 32 7"
  using public_key_roundtrip [of "replicate 32 7" "[]"] by simp

text \<open>
  What the primitives promise: decryption inverts encryption with a tag of 16 bytes, and the
  library of the phone is the same cipher with ciphertext and tag in one array.
\<close>

definition cipher_inverse :: "aead \<Rightarrow> bool" where
  "cipher_inverse ae \<longleftrightarrow> (\<forall>k n a p. length (snd (ae_enc ae k n a p)) = 16
     \<and> ae_dec ae k n a (fst (ae_enc ae k n a p)) (snd (ae_enc ae k n a p)) = Some p)"

definition same_cipher :: "aead \<Rightarrow> rn_gcm \<Rightarrow> bool" where
  "same_cipher ae g \<longleftrightarrow> (\<forall>k n a p. gcm_encrypt g k n a p = fst (ae_enc ae k n a p) @ snd (ae_enc ae k n a p))
     \<and> (\<forall>k n a c t. length t = 16 \<longrightarrow> gcm_decrypt g k n a (c @ t) = ae_dec ae k n a c t)"

lemma rn_seal_eq:
  assumes "cipher_inverse ae" "same_cipher ae g"
  shows "rn_seal g jc nonce key seq p dir = node_seal ae jc nonce key seq p dir"
proof -
  have "length (snd (ae_enc ae key nonce a q)) = 16" for a q using assms(1) by (simp add: cipher_inverse_def)
  then show ?thesis using assms(2) by (simp add: rn_seal_def node_seal_def same_cipher_def split_beta Let_def)
qed



text \<open>A stand-in cipher that keeps the additional data in the clear, and the identity as the codec.\<close>

definition example_enc :: "byte list \<Rightarrow> byte list \<Rightarrow> string \<Rightarrow> byte list \<Rightarrow> byte list \<times> byte list" where
  "example_enc k n a p = (concat (map (\<lambda>c. [1, of_char c]) a) @ [0] @ p, replicate 16 0)"

definition example_dec :: "byte list \<Rightarrow> byte list \<Rightarrow> string \<Rightarrow> byte list \<Rightarrow> byte list \<Rightarrow> byte list option" where
  "example_dec k n a c t =
     (let h = concat (map (\<lambda>x. [1, of_char x]) a) @ [0]
      in if take (length h) c = h \<and> t = replicate 16 0 then Some (drop (length h) c) else None)"

definition example_aead :: aead where "example_aead = \<lparr>ae_enc = example_enc, ae_dec = example_dec\<rparr>"

definition example_gcm :: rn_gcm where
  "example_gcm = \<lparr>gcm_encrypt = (\<lambda>k n a p. fst (example_enc k n a p) @ snd (example_enc k n a p)),
     gcm_decrypt = (\<lambda>k n a ct. example_dec k n a (take (length ct - 16) ct) (drop (length ct - 16) ct))\<rparr>"

definition example_codec :: "byte list json_codec" where
  "example_codec = \<lparr>jc_bytes = (\<lambda>p. p), jc_parse = Some\<rparr>"

lemma example_cipher: "cipher_inverse example_aead" "same_cipher example_aead example_gcm"
proof -
  have "take (min m (length c)) c = take m c" for m and c :: "byte list" by (simp add: min_def)
  then show "cipher_inverse example_aead" "same_cipher example_aead example_gcm"
    by (simp_all add: cipher_inverse_def same_cipher_def example_aead_def example_gcm_def example_enc_def example_dec_def Let_def)
qed


lemma example_header_inject:
  "concat (map (\<lambda>x. [1, of_char x]) a) @ [0 :: byte] @ p = concat (map (\<lambda>x. [1, of_char x]) b) @ [0] @ q \<Longrightarrow> a = b"
proof (induction a arbitrary: b)
  case Nil
  then show ?case by (cases b) simp_all
next
  case (Cons x a)
  then obtain y b' where b: "b = y # b'" by (cases b) simp_all
  have "(of_char x :: byte) = of_char y" using Cons.prems b by simp
  then have "unat (of_nat (of_char x) :: byte) = unat (of_nat (of_char y) :: byte)" by (simp add: of_char_def)
  then have "(of_char x :: nat) mod 256 = of_char y mod 256" unfolding unat_byte .
  then have "(of_char x :: nat) = of_char y" by (simp only: of_char_mod_256)
  with Cons b show ?case by simp
qed



end
