(* ===== verification/FleetState.thy ===== *)
theory FleetState
  imports HookBridge "HOL-Library.Multiset"
begin

text \<open>
  The view state of the app, \<^verbatim>\<open>apps/mobile/src/core/state/fleetState.ts\<close>: a fold over the events of
  the daemon. A \<^verbatim>\<open>Record\<close> keyed by ids that are no array indices keeps insertion order. An error is
  kept as the template it comes from.
\<close>

definition MAX_TRANSCRIPT :: nat where "MAX_TRANSCRIPT = 200"

record FleetState =
  fs_sessions :: "(string, SessionInfo) jsmap"
  fs_approvals :: "(string, PendingApproval) jsmap"
  fs_jobs :: "(string, JobInfo) jsmap"
  fs_transcripts :: "(string, json list) jsmap"
  fs_history :: "ApprovalHistoryEntry list"
  fs_lastError :: "error_text option"

definition emptyFleetState :: FleetState where
  "emptyFleetState = \<lparr>fs_sessions = [], fs_approvals = [], fs_jobs = [], fs_transcripts = [],
     fs_history = [], fs_lastError = None\<rparr>"

text \<open>\<^verbatim>\<open>xs.slice(-n)\<close>\<close>

definition slice_last :: "nat \<Rightarrow> 'a list \<Rightarrow> 'a list" where
  "slice_last n xs = drop (length xs - n) xs"

fun applyEvent :: "FleetState \<Rightarrow> ServerEvent \<Rightarrow> FleetState" where
  "applyEvent s (Session_list ss) = s\<lparr>fs_sessions := foldl (\<lambda>m i. js_set (si_id i) i m) [] ss\<rparr>"
| "applyEvent s (Session_update i) = s\<lparr>fs_sessions := js_set (si_id i) i (fs_sessions s)\<rparr>"
| "applyEvent s (Approval_pending a) = s\<lparr>fs_approvals := js_set (pa_toolUseId a) a (fs_approvals s)\<rparr>"
| "applyEvent s (Approval_resolved i v who) = s\<lparr>fs_approvals := js_delete i (fs_approvals s)\<rparr>"
| "applyEvent s (Job_update j) = s\<lparr>fs_jobs := js_set (j_id j) j (fs_jobs s)\<rparr>"
| "applyEvent s (Stream sid ev) =
     (let prev = (case map_of (fs_transcripts s) sid of None \<Rightarrow> [] | Some es \<Rightarrow> es)
      in s\<lparr>fs_transcripts := js_set sid (slice_last MAX_TRANSCRIPT (prev @ [ev])) (fs_transcripts s)\<rparr>)"
| "applyEvent s (Approval_history es) = s\<lparr>fs_history := es\<rparr>"
| "applyEvent s (Error_event t) = s\<lparr>fs_lastError := Some t\<rparr>"
| "applyEvent s (Revoked _) = s"
| "applyEvent s (Ack _) = s"

text \<open>The selectors; the sort is stable.\<close>

definition sessionList :: "FleetState \<Rightarrow> SessionInfo list" where
  "sessionList s = sort_key (\<lambda>i. - si_lastActivityAt i) (js_values (fs_sessions s))"

definition pendingApprovals :: "FleetState \<Rightarrow> PendingApproval list" where
  "pendingApprovals s = sort_key pa_deadlineAt (js_values (fs_approvals s))"

definition pendingCount :: "FleetState \<Rightarrow> nat" where
  "pendingCount s = length (js_keys (fs_approvals s))"

section \<open>What the app shows of the broker\<close>

definition pending_view :: "'w ApprovalBroker \<Rightarrow> string \<Rightarrow> PendingApproval option" where
  "pending_view b i = (case map_of (bk_pending b) i of
     None \<Rightarrow> None | Some a \<Rightarrow> if pa_decision a = None then Some a else None)"

fun broadcasts :: "hook_effect list \<Rightarrow> ServerEvent list" where
  "broadcasts [] = []"
| "broadcasts (Broadcast ev # xs) = ev # broadcasts xs"
| "broadcasts (_ # xs) = broadcasts xs"

definition shown :: "hook_effect list \<Rightarrow> FleetState \<Rightarrow> FleetState" where
  "shown xs s = foldl applyEvent s (broadcasts xs)"

definition in_view :: "FleetState \<Rightarrow> HookServer \<Rightarrow> bool" where
  "in_view s h \<longleftrightarrow> js_wf (fs_approvals s) \<and> map_of (fs_approvals s) = pending_view (hk_broker h)"

lemma broadcasts_append [simp]: "broadcasts (xs @ ys) = broadcasts xs @ broadcasts ys"
  by (induction xs rule: broadcasts.induct) simp_all

lemma shown_simps [simp]: "shown [] s = s" "shown (xs @ ys) s = shown ys (shown xs s)"
  "shown (Broadcast ev # xs) s = shown xs (applyEvent s ev)"
  by (simp_all add: shown_def)

lemma shown_silent [simp]:
  "shown (Hook_write k v r # xs) s = shown xs s" "shown (Hook_destroy k # xs) s = shown xs s"
  "shown (Track a b # xs) s = shown xs s" "shown (Untrack a b # xs) s = shown xs s"
  "shown (Owner_update a # xs) s = shown xs s" "shown (Db_requested p # xs) s = shown xs s"
  "shown (Notify_push # xs) s = shown xs s" "shown (Db_decided p # xs) s = shown xs s"
  by (simp_all add: shown_def)

lemma shown_settle:
  "shown (hook_effects (fst (settle i a d now b))) s =
     applyEvent s (Approval_resolved (pa_toolUseId a) (d_decision d) (d_by d))"
  by (simp add: settle_def hook_effects_def Let_def split: option.split)

lemma view_settle:
  "pending_view (snd (settle i a d now b)) = (pending_view b)(i := None)"
  by (auto simp: pending_view_def settle_fields)

lemma in_view_settle:
  assumes "in_view s h" "map_of (bk_pending (hk_broker h)) i = Some a" "pa_toolUseId a = i"
  shows "in_view (shown (hook_effects (fst (settle i a d now (hk_broker h)))) s) (h\<lparr>hk_broker := snd (settle i a d now (hk_broker h))\<rparr>)"
  using assms unfolding in_view_def shown_settle by (simp add: view_settle)

lemma in_view_broker: "in_view s (h\<lparr>hk_broker := hk_broker h\<rparr>) = in_view s h"
  by (simp add: in_view_def)

lemma in_view_fields [simp]: "in_view s (h\<lparr>hk_claimed := c\<rparr>) = in_view s h" "in_view s (h\<lparr>hk_buf := f\<rparr>) = in_view s h"
  by (simp_all add: in_view_def)

lemma in_view_decide:
  assumes "claim_inv h" "in_view s h"
  shows "in_view (shown (fst (snd (hook_decide i v r who now h))) s) (snd (snd (hook_decide i v r who now h)))"
proof (cases "map_of (bk_pending (hk_broker h)) i")
  case (Some a)
  have "pa_toolUseId a = i" using assms(1) Some broker_invD(3) by (auto simp: claim_inv_def)
  with in_view_settle [OF assms(2) Some] assms(2) Some show ?thesis
    by (simp add: hook_decide_def broker_decide_def hook_effects_def split_beta Let_def)
qed (use assms(2) in \<open>simp add: hook_decide_def broker_decide_def hook_effects_def\<close>)

lemma in_view_abandon_all:
  "broker_inv (hk_broker h) \<Longrightarrow> in_view s h \<Longrightarrow>
     in_view (shown (hook_effects (fst (abandon_all is now (hk_broker h)))) s) (h\<lparr>hk_broker := snd (abandon_all is now (hk_broker h))\<rparr>)"
proof (induction "is" arbitrary: h s)
  case (Cons i "is")
  let ?b = "broker_abandon i now (hk_broker h)"
  have one: "in_view (shown (hook_effects (fst ?b)) s) (h\<lparr>hk_broker := snd ?b\<rparr>)"
  proof (cases "map_of (bk_pending (hk_broker h)) i")
    case (Some a)
    have "pa_toolUseId a = i" using Cons.prems(1) Some broker_invD(3) by auto
    with in_view_settle [OF Cons.prems(2) Some] Cons.prems(2) Some show ?thesis
      by (simp add: broker_abandon_def hook_effects_def)
  qed (use Cons.prems(2) in \<open>simp add: broker_abandon_def hook_effects_def\<close>)
  have "broker_inv (snd ?b)" using Cons.prems(1) by (rule broker_abandon_inv)
  with Cons.IH [OF _ one] show ?case by (simp add: split_beta Let_def hook_effects_append)
qed (simp add: hook_effects_def)

lemma in_view_close:
  assumes "claim_inv h" "in_view s h"
  shows "in_view (shown (fst (hook_close k now h)) s) (snd (hook_close k now h))"
  using in_view_abandon_all [of h s "hk_claimed h k" now] assms
  by (simp add: hook_close_def claim_inv_def split_beta Let_def)

lemma in_view_timer:
  assumes "claim_inv h" "in_view s h"
  shows "in_view s (hook_timer tm now h)"
proof (cases "tm \<in> set (bk_timers (hk_broker h)) \<and> snd tm \<le> now")
  case True
  then have "fst tm \<in> fst ` set (bk_timers (hk_broker h))" by simp
  with assms(1) obtain a where "map_of (bk_pending (hk_broker h)) (fst tm) = Some a" "pa_decision a \<noteq> None"
    using broker_invD(2) unfolding claim_inv_def by blast
  then have "pending_view (snd (0 :: nat, (hk_broker h)\<lparr>bk_timers := x, bk_pending := js_delete (fst tm) (bk_pending (hk_broker h))\<rparr>))
      = pending_view (hk_broker h)" for x
    by (auto simp: pending_view_def fun_eq_iff)
  with True assms(2) show ?thesis by (simp add: hook_timer_def broker_fire_def in_view_def)
qed (use assms(2) in \<open>auto simp: hook_timer_def broker_fire_def\<close>)

lemma in_view_open:
  assumes "in_view s h" "pa_decision a = None" "bindable (pa_description a)"
  shows "in_view (shown (fst (snd (open_request k a owner h))) s) (snd (snd (open_request k a owner h)))"
proof (cases "js_has (bk_pending (hk_broker h)) (pa_toolUseId a)")
  case False
  then have "pending_view (snd (snd (broker_open a w (hk_broker h)))) = (pending_view (hk_broker h))(pa_toolUseId a \<mapsto> a)" for w
    using assms(2) by (auto simp: pending_view_def broker_open_def)
  with False assms show ?thesis
    by (simp add: open_request_def broker_open_def hook_effects_def in_view_def Let_def split: option.split)
qed (use assms in \<open>simp add: open_request_def broker_open_def\<close>)

text \<open>Every request a parse result describes can be recorded.\<close>

definition recordable :: "(string \<Rightarrow> json option) \<Rightarrow> bool" where
  "recordable parse \<longleftrightarrow> (\<forall>l msg ss sd now. parse l = Some msg \<longrightarrow>
     bindable (pa_description (fst (request_approval ss sd now msg))))"

lemma in_view_line:
  assumes "recordable parse" "in_view s h" "hook_line parse ss sd now k l h = Inr (xs, h1)"
  shows "in_view (shown xs s) h1"
proof (cases "blank l \<or> parse l = None")
  case False
  then obtain msg where m: "\<not> blank l" "parse l = Some msg" by auto
  let ?a = "fst (request_approval ss sd now msg)"
  have "bindable (pa_description ?a)" "pa_decision ?a = None"
    using assms(1) m(2) by (auto simp: recordable_def request_undecided)
  then have v: "in_view (shown (fst (snd (open_request k ?a o1 h))) s) (snd (snd (open_request k ?a o1 h)))" for o1
    using assms(2) by (intro in_view_open)
  have "(xs, h1) = ([], h) \<or> (xs, h1) = snd (open_request k ?a (snd (request_approval ss sd now msg)) h)"
    using assms(3) m by (auto simp: hook_line_def split_beta Let_def split: if_splits)
  with assms(2) v show ?thesis by (metis fst_conv snd_conv shown_simps(1))
next
  case True
  with assms(3) have "xs = []" "h1 = h" by (cases "blank l"; simp add: hook_line_def)+
  with assms(2) show ?thesis by simp
qed

lemma in_view_data:
  assumes "recordable parse" "in_view s h" "hook_data parse ss sd now k chunk h = Inr (xs, h1)"
  shows "in_view (shown xs s) h1"
proof -
  have l: "in_view (shown xs s) h1" if "in_view s g" "hook_lines parse ss sd now k ls g = Inr (xs, h1)" for ls g xs s
    using that
  proof (induction ls arbitrary: g xs s)
    case (Cons l ls)
    then obtain es1 h2 es2 where "hook_line parse ss sd now k l g = Inr (es1, h2)"
      "hook_lines parse ss sd now k ls h2 = Inr (es2, h1)" "xs = es1 @ es2" by (auto split: sum.splits)
    with Cons.IH [of "shown es1 s" h2 es2] in_view_line [OF assms(1) Cons.prems(1)] show ?case by simp
  qed simp
  have "h1 = h\<lparr>hk_buf := (hk_buf h)(k := [])\<rparr> \<and> xs = [Hook_destroy k] \<or>
      (\<exists>ls rest. hook_lines parse ss sd now k ls (h\<lparr>hk_buf := (hk_buf h)(k := rest)\<rparr>) = Inr (xs, h1))"
    using assms(3) by (auto simp: hook_data_def split_beta Let_def split: if_splits)
  then show ?thesis
  proof (elim disjE exE conjE)
    fix ls rest assume "hook_lines parse ss sd now k ls (h\<lparr>hk_buf := (hk_buf h)(k := rest)\<rparr>) = Inr (xs, h1)"
    from l [OF _ this, of s] assms(2) show ?thesis by simp
  qed (use assms(2) in simp)
qed

section \<open>The app in step with the daemon\<close>

text \<open>
  The hook server and an app that starts empty and is sent every broadcast, starting again from
  a snapshot whenever it likes; other events come in between.
\<close>

fun about_approvals :: "ServerEvent \<Rightarrow> bool" where
  "about_approvals (Approval_pending _) = True"
| "about_approvals (Approval_resolved _ _ _) = True"
| "about_approvals _ = False"

inductive follows :: "(string \<Rightarrow> json option) \<Rightarrow> HookServer \<Rightarrow> FleetState \<Rightarrow> bool" for parse where
  follow_start: "follows parse new_hook_server emptyFleetState"
| follow_data: "follows parse h s \<Longrightarrow> hook_data parse ss sd now k chunk h = Inr (xs, h1) \<Longrightarrow> follows parse h1 (shown xs s)"
| follow_close: "follows parse h s \<Longrightarrow> hook_close k now h = (xs, h1) \<Longrightarrow> follows parse h1 (shown xs s)"
| follow_decide: "follows parse h s \<Longrightarrow> hook_decide i v r who now h = (oc, xs, h1) \<Longrightarrow> follows parse h1 (shown xs s)"
| follow_timer: "follows parse h s \<Longrightarrow> follows parse (hook_timer tm now h) s"
| follow_other: "follows parse h s \<Longrightarrow> \<not> about_approvals ev \<Longrightarrow> follows parse h (applyEvent s ev)"
| follow_snapshot: "follows parse h s \<Longrightarrow>
    follows parse h (foldl applyEvent emptyFleetState (map Approval_pending (broker_list (hk_broker h))))"

lemma other_event: "\<not> about_approvals ev \<Longrightarrow> fs_approvals (applyEvent s ev) = fs_approvals s"
  by (cases ev) (simp_all add: Let_def)

lemma announced:
  "fs_approvals (foldl applyEvent s (map Approval_pending as)) = foldl (\<lambda>m a. js_set (pa_toolUseId a) a m) (fs_approvals s) as"
  by (induction "as" arbitrary: s) simp_all

lemma fold_set_wf: "js_wf m \<Longrightarrow> js_wf (foldl (\<lambda>m a. js_set (key a) a m) m as)"
  by (induction "as" arbitrary: m) auto

lemma fold_set_lookup:
  "distinct (map key as) \<Longrightarrow>
     map_of (foldl (\<lambda>m a. js_set (key a) a m) m as) = map_of m ++ map_of (map (\<lambda>a. (key a, a)) as)"
proof (induction "as" arbitrary: m)
  case (Cons a "as")
  then have "map_of (map (\<lambda>a. (key a, a)) as) (key a) = None" by (force simp: map_of_eq_None_iff)
  with Cons show ?case by (auto simp: fun_eq_iff map_add_def split: option.split)
qed simp

lemma broker_list_keyed:
  assumes "broker_inv b"
  shows "map (\<lambda>a. (pa_toolUseId a, a)) (broker_list b) = filter (\<lambda>p. pa_decision (snd p) = None) (bk_pending b)"
    and "js_wf (filter (\<lambda>p. pa_decision (snd p) = None) (bk_pending b))"
    and "map_of (filter (\<lambda>p. pa_decision (snd p) = None) (bk_pending b)) = pending_view b"
proof -
  have wf: "js_wf (bk_pending b)" using assms by (simp add: broker_inv_def)
  have key: "pa_toolUseId a = i" if "(i, a) \<in> set (bk_pending b)" for i a
    using that wf broker_invD(3) [OF assms] by simp
  have "map (\<lambda>a. (pa_toolUseId a, a)) (filter (\<lambda>a. pa_decision a = None) (map snd m)) = filter (\<lambda>p. pa_decision (snd p) = None) m"
    if "\<forall>(i, a) \<in> set m. pa_toolUseId a = i" for m :: "(string, PendingApproval) jsmap"
    using that by (induction m) auto
  with key show "map (\<lambda>a. (pa_toolUseId a, a)) (broker_list b) = filter (\<lambda>p. pa_decision (snd p) = None) (bk_pending b)"
    unfolding broker_list_def by blast
  show "js_wf (filter (\<lambda>p. pa_decision (snd p) = None) (bk_pending b))" using wf by (rule distinct_map_filter)
  have "map_of (filter (\<lambda>p. P (snd p)) m) i = (case map_of m i of None \<Rightarrow> None | Some a \<Rightarrow> if P a then Some a else None)"
    if "js_wf m" for P and m :: "(string, PendingApproval) jsmap" and i
    using that by (induction m) (force simp: map_of_eq_None_iff split: option.split)+
  from this [OF wf, of "\<lambda>a. pa_decision a = None"]
  show "map_of (filter (\<lambda>p. pa_decision (snd p) = None) (bk_pending b)) = pending_view b"
    by (simp add: pending_view_def fun_eq_iff)
qed

lemma in_view_snapshot:
  assumes "broker_inv (hk_broker h)"
  shows "in_view (foldl applyEvent emptyFleetState (map Approval_pending (broker_list (hk_broker h)))) h"
proof -
  note k = broker_list_keyed [OF assms]
  have "map pa_toolUseId (broker_list (hk_broker h)) = js_keys (map (\<lambda>a. (pa_toolUseId a, a)) (broker_list (hk_broker h)))"
    by simp
  then have "distinct (map pa_toolUseId (broker_list (hk_broker h)))" using k(2) unfolding k(1) by simp
  then show ?thesis unfolding in_view_def announced
    by (simp add: fold_set_wf fold_set_lookup k emptyFleetState_def)
qed

lemma follows_inv: "follows parse h s \<Longrightarrow> claim_inv h"
proof (induction rule: follows.induct)
  case (follow_close h s k now xs h1)
  then show ?case using hook_close_inv [of h k now] by simp
next
  case (follow_decide h s i v r who now oc xs h1)
  then show ?case using hook_decide_inv [of h i v r who now] by simp
qed (auto intro: claim_inv_new hook_data_inv hook_timer_inv)

lemma follows_in_view: "follows parse h s \<Longrightarrow> recordable parse \<Longrightarrow> in_view s h"
proof (induction rule: follows.induct)
  case follow_start
  show ?case by (simp add: in_view_def emptyFleetState_def new_hook_server_def new_broker_def pending_view_def fun_eq_iff)
next
  case (follow_data h s ss sd now k chunk xs h1)
  then show ?case using in_view_data by blast
next
  case (follow_close h s k now xs h1)
  then show ?case using in_view_close [OF follows_inv, of parse h s s k now] by simp
next
  case (follow_decide h s i v r who now oc xs h1)
  then show ?case using in_view_decide [OF follows_inv, of parse h s s i v r who now] by simp
next
  case (follow_timer h s tm now)
  then show ?case using in_view_timer follows_inv by blast
next
  case (follow_other h s ev)
  then show ?case by (simp add: in_view_def other_event)
next
  case (follow_snapshot h s)
  then show ?case using in_view_snapshot follows_inv unfolding claim_inv_def by blast
qed

lemma same_entries:
  assumes "js_wf m" "js_wf n" "map_of m = map_of n"
  shows "mset m = mset n"
proof -
  have "distinct m" "distinct n" using assms(1,2) by (simp_all add: distinct_map)
  moreover have "set m = set n" using assms by (metis map_of_eq_Some_iff subrelI subset_antisym)
  ultimately show ?thesis by (simp add: set_eq_iff_mset_eq_distinct)
qed

text \<open>
  C16: An app that is sent every broadcast shows exactly the open requests of the broker: the list
  it renders holds each undecided approval once and nothing else, soonest deadline first, and the
  badge is their number. The broadcasts may be interleaved with any other events and with snapshots
  into a fresh state, provided every description can be recorded.
\<close>

theorem app_follows_broker:
  assumes "follows parse h s" "recordable parse"
  shows "mset (pendingApprovals s) = mset (broker_list (hk_broker h))
    \<and> sorted (map pa_deadlineAt (pendingApprovals s))
    \<and> pendingCount s = length (broker_list (hk_broker h))"
proof -
  note k = broker_list_keyed [of "hk_broker h"]
  have inv: "broker_inv (hk_broker h)" using follows_inv [OF assms(1)] by (simp add: claim_inv_def)
  have "mset (fs_approvals s) = mset (map (\<lambda>a. (pa_toolUseId a, a)) (broker_list (hk_broker h)))"
    using follows_in_view [OF assms] k [OF inv] by (intro same_entries) (simp_all add: in_view_def)
  then have "mset (map snd (fs_approvals s)) = mset (map snd (map (\<lambda>a. (pa_toolUseId a, a)) (broker_list (hk_broker h))))"
    unfolding mset_map by simp
  then have e: "mset (js_values (fs_approvals s)) = mset (broker_list (hk_broker h))" by (simp add: o_def)
  from this [THEN mset_eq_length] have "pendingCount s = length (broker_list (hk_broker h))"
    by (simp add: pendingCount_def)
  with e show ?thesis by (simp add: pendingApprovals_def)
qed

lemma example_recordable: "recordable example_parse"
  by (simp add: recordable_def example_parse_def request_approval_def split_beta Let_def)

theorem app_follows_broker_witness:
  "\<exists>s. mset (pendingApprovals s) = mset (broker_list (hk_broker example_server)) \<and> pendingCount s = 1"
proof -
  have "\<exists>xs. hook_data example_parse [] 600000 0 1 (''t'' @ [newline]) new_hook_server = Inr (xs, example_server)"
    "length (broker_list (hk_broker example_server)) = 1"
    unfolding example_server_def by (simp_all add: hook_eval broker_eval broker_list_def set_add_def)
  then obtain xs where x: "hook_data example_parse [] 600000 0 1 (''t'' @ [newline]) new_hook_server = Inr (xs, example_server)"
    and n: "length (broker_list (hk_broker example_server)) = 1" by blast
  have "follows example_parse example_server (shown xs emptyFleetState)"
    by (rule follow_data [OF follow_start x])
  from app_follows_broker [OF this example_recordable] n show ?thesis by metis
qed

section \<open>Transcripts\<close>

fun streamed :: "string \<Rightarrow> ServerEvent list \<Rightarrow> json list" where
  "streamed i [] = []"
| "streamed i (Stream j ev # es) = (if j = i then ev # streamed i es else streamed i es)"
| "streamed i (_ # es) = streamed i es"

definition transcript :: "string \<Rightarrow> FleetState \<Rightarrow> json list" where
  "transcript i s = (case map_of (fs_transcripts s) i of None \<Rightarrow> [] | Some es \<Rightarrow> es)"

lemma slice_last_append: "slice_last n (slice_last n xs @ ys) = slice_last n (xs @ ys)"
  by (cases "n \<le> length xs") (auto simp: slice_last_def add.commute)

lemma transcript_step:
  "transcript i (applyEvent s ev) =
     (if streamed i [ev] = [] then transcript i s else slice_last MAX_TRANSCRIPT (transcript i s @ streamed i [ev]))"
  by (cases ev) (auto simp: transcript_def Let_def split: option.split)

lemma streamed_Cons: "streamed i (ev # es) = streamed i [ev] @ streamed i es"
  by (cases ev) simp_all

lemma transcript_fold:
  "transcript i (foldl applyEvent s es) =
     (if streamed i es = [] then transcript i s else slice_last MAX_TRANSCRIPT (transcript i s @ streamed i es))"
proof (induction es arbitrary: s)
  case (Cons ev es)
  show ?case unfolding foldl_Cons Cons.IH transcript_step streamed_Cons [of i ev es]
    by (simp add: slice_last_append del: append_assoc) (simp add: append_assoc [symmetric] slice_last_append del: append_assoc)
qed simp

text \<open>
  Whatever events arrive, the transcript the app keeps of a session is the last 200 of the
  stream events it was sent, in order.
\<close>

theorem transcript_last_200:
  "transcript i (foldl applyEvent emptyFleetState es) = slice_last 200 (streamed i es)
   \<and> length (transcript i (foldl applyEvent emptyFleetState es)) \<le> 200"
proof -
  have e: "transcript i emptyFleetState = []" by (simp add: transcript_def emptyFleetState_def)
  have "transcript i (foldl applyEvent emptyFleetState es) = slice_last 200 (streamed i es)"
    unfolding transcript_fold e by (simp add: slice_last_def MAX_TRANSCRIPT_def)
  then show ?thesis by (simp add: slice_last_def)
qed

section \<open>Resync\<close>

text \<open>
  The snapshot sent after a gap does not clear what the app holds: an approval resolved while
  the app was away stays on its screen and in its badge for good, although the daemon's list is empty.
\<close>

theorem resync_keeps_resolved_approval:
  "let s = applyEvent emptyFleetState (Approval_pending (example_approval ''t''));
       s1 = foldl applyEvent s (Session_list [] # map Approval_pending (broker_list (hk_broker new_hook_server)))
   in broker_list (hk_broker new_hook_server) = [] \<and> pendingApprovals s1 = [example_approval ''t''] \<and> pendingCount s1 = 1"
  by (simp add: broker_eval broker_list_def new_hook_server_def pendingApprovals_def pendingCount_def emptyFleetState_def)

end
