(* ===== verification/DeviceStore.thy ===== *)
theory DeviceStore
  imports Prelude
begin

text \<open>
  The device record of the CLI and the reservation of sequence numbers, \<^verbatim>\<open>packages/cli/src/deviceStore.ts\<close>.
  Several \<^verbatim>\<open>cc\<close> processes share one store file and one lock file, so \<^verbatim>\<open>reserveOutSeq\<close> is a
  program whose every file operation is a step that can interleave with the steps of the others.
  The clock moves between steps and a process can die at any of them. \<^verbatim>\<open>writeFileSync\<close> truncates
  before it writes, so it is two steps. A file that is absent or does not parse reads as \<^verbatim>\<open>null\<close>.
\<close>

record DeviceRecord =
  dr_deviceId :: string
  dr_devicePrivateKey :: string
  dr_devicePublicKey :: string
  dr_daemonPublicKey :: string
  dr_outSeq :: "nat option"

text \<open>Where a process stands in \<^verbatim>\<open>reserveOutSeq\<close>; the integer of the waiting states is its deadline.\<close>

datatype reserve_pc =
    Idle
  | Open_lock int            \<comment> \<open>about to create the lock file exclusively\<close>
  | Check_lock int           \<comment> \<open>about to look at the age of the lock it found\<close>
  | Unlink_stale int         \<comment> \<open>about to remove a lock it found stale\<close>
  | Check_deadline int
  | Sleep_until int int
  | Load_seq                 \<comment> \<open>holding the lock\<close>
  | Load_again nat           \<comment> \<open>in \<open>persistOutSeq\<close>\<close>
  | Truncate nat DeviceRecord
  | Write_out nat DeviceRecord
  | Unlink_lock nat
  | Reserved nat
  | Gave_up
  | Dead

record cli_state =
  cl_clock :: int
  cl_store :: "DeviceRecord option"
  cl_lock :: "int option"            \<comment> \<open>modification time of the lock file\<close>
  cl_pc :: "nat \<Rightarrow> reserve_pc"
  cl_reserved :: "nat list"          \<comment> \<open>numbers returned so far, latest first\<close>

definition loadDevice :: "cli_state \<Rightarrow> DeviceRecord option" where
  "loadDevice s = cl_store s"

definition set_outSeq :: "nat \<Rightarrow> DeviceRecord \<Rightarrow> DeviceRecord" where
  "set_outSeq n d = d\<lparr>dr_outSeq := Some n\<rparr>"

definition next_of :: "DeviceRecord option \<Rightarrow> nat" where
  "next_of rec = (case Option.bind rec dr_outSeq of None \<Rightarrow> 0 | Some n \<Rightarrow> n) + 1"

text \<open>\<^verbatim>\<open>persistOutSeq\<close> does nothing when the record cannot be loaded.\<close>

definition persistOutSeq :: "nat \<Rightarrow> cli_state \<Rightarrow> reserve_pc" where
  "persistOutSeq n s = (case loadDevice s of None \<Rightarrow> Unlink_lock n | Some d \<Rightarrow> Truncate n (set_outSeq n d))"

definition goto :: "nat \<Rightarrow> reserve_pc \<Rightarrow> cli_state \<Rightarrow> cli_state" where
  "goto p c s = s\<lparr>cl_pc := (cl_pc s)(p := c)\<rparr>"

text \<open>One file operation of process \<open>p\<close>.\<close>

fun reserve_step :: "nat \<Rightarrow> reserve_pc \<Rightarrow> cli_state \<Rightarrow> cli_state" where
  "reserve_step p (Open_lock dl) s = (case cl_lock s of
      None \<Rightarrow> goto p Load_seq (s\<lparr>cl_lock := Some (cl_clock s)\<rparr>)
    | Some _ \<Rightarrow> goto p (Check_lock dl) s)"
| "reserve_step p (Check_lock dl) s = (case cl_lock s of
      None \<Rightarrow> goto p (Check_deadline dl) s
    | Some m \<Rightarrow> goto p (if cl_clock s - m > 10000 then Unlink_stale dl else Check_deadline dl) s)"
| "reserve_step p (Unlink_stale dl) s = goto p (Check_deadline dl) (s\<lparr>cl_lock := None\<rparr>)"
| "reserve_step p (Check_deadline dl) s =
     goto p (if cl_clock s > dl then Gave_up else Sleep_until (cl_clock s + 20) dl) s"
| "reserve_step p (Sleep_until wake dl) s = (if cl_clock s < wake then s else goto p (Open_lock dl) s)"
| "reserve_step p Load_seq s = goto p (Load_again (next_of (loadDevice s))) s"
| "reserve_step p (Load_again n) s = goto p (persistOutSeq n s) s"
| "reserve_step p (Truncate n d) s = goto p (Write_out n d) (s\<lparr>cl_store := None\<rparr>)"
| "reserve_step p (Write_out n d) s = goto p (Unlink_lock n) (s\<lparr>cl_store := Some d\<rparr>)"
| "reserve_step p (Unlink_lock n) s = goto p (Reserved n) (s\<lparr>cl_lock := None, cl_reserved := n # cl_reserved s\<rparr>)"
| "reserve_step p _ s = s"

text \<open>What can happen next: a process calls \<^verbatim>\<open>reserveOutSeq\<close>, takes a step or dies, or time passes.\<close>

datatype cli_op = Call nat | Step nat | Crash nat | Tick nat

fun cli_step :: "cli_op \<Rightarrow> cli_state \<Rightarrow> cli_state" where
  "cli_step (Call p) s = (case cl_pc s p of
      Idle \<Rightarrow> goto p (Open_lock (cl_clock s + 5000)) s
    | Reserved _ \<Rightarrow> goto p (Open_lock (cl_clock s + 5000)) s
    | _ \<Rightarrow> s)"
| "cli_step (Step p) s = reserve_step p (cl_pc s p) s"
| "cli_step (Crash p) s = goto p Dead s"
| "cli_step (Tick n) s = s\<lparr>cl_clock := cl_clock s + int n\<rparr>"

fun cli_run :: "cli_op list \<Rightarrow> cli_state \<Rightarrow> cli_state" where
  "cli_run [] s = s"
| "cli_run (x # xs) s = cli_run xs (cli_step x s)"

definition cli_start :: "DeviceRecord \<Rightarrow> cli_state" where
  "cli_start d = \<lparr>cl_clock = 0, cl_store = Some d, cl_lock = None, cl_pc = \<lambda>_. Idle, cl_reserved = []\<rparr>"

section \<open>One holder at a time\<close>

text \<open>
  What the numbering relies on: no critical section outlives the ten seconds after which another
  process may take its lock for abandoned, and no process dies between truncating and writing the store.
\<close>

fun mid_write :: "reserve_pc \<Rightarrow> bool" where
  "mid_write (Write_out _ _) = True"
| "mid_write _ = False"

fun orderly :: "cli_op \<Rightarrow> cli_state \<Rightarrow> bool" where
  "orderly (Crash p) s \<longleftrightarrow> \<not> mid_write (cl_pc s p)"
| "orderly (Tick n) s \<longleftrightarrow> (case cl_lock s of None \<Rightarrow> True | Some m \<Rightarrow> cl_clock s + int n - m \<le> 10000)"
| "orderly _ s \<longleftrightarrow> True"

fun orderly_run :: "cli_op list \<Rightarrow> cli_state \<Rightarrow> bool" where
  "orderly_run [] s \<longleftrightarrow> True"
| "orderly_run (x # xs) s \<longleftrightarrow> orderly x s \<and> orderly_run xs (cli_step x s)"

fun holding :: "reserve_pc \<Rightarrow> bool" where
  "holding Load_seq = True"
| "holding (Load_again _) = True"
| "holding (Truncate _ _) = True"
| "holding (Write_out _ _) = True"
| "holding (Unlink_lock _) = True"
| "holding _ = False"

fun unlinking :: "reserve_pc \<Rightarrow> bool" where
  "unlinking (Unlink_stale _) = True"
| "unlinking _ = False"

text \<open>The high-water mark of the store, and what the holder knows of it.\<close>

fun agrees :: "reserve_pc \<Rightarrow> DeviceRecord option \<Rightarrow> nat \<Rightarrow> bool" where
  "agrees (Load_again n) f hw \<longleftrightarrow> f \<noteq> None \<and> n = next_of f \<and> hw < n"
| "agrees (Truncate n d) f hw \<longleftrightarrow> f \<noteq> None \<and> n = next_of f \<and> dr_outSeq d = Some n \<and> hw < n"
| "agrees (Write_out n d) f hw \<longleftrightarrow> dr_outSeq d = Some n \<and> hw < n"
| "agrees (Unlink_lock n) f hw \<longleftrightarrow> f \<noteq> None \<and> next_of f = n + 1 \<and> hw < n"
| "agrees _ f hw \<longleftrightarrow> f \<noteq> None \<and> hw < next_of f"

definition latest :: "nat \<Rightarrow> nat list \<Rightarrow> nat" where
  "latest b ns = (case ns of [] \<Rightarrow> b | n # _ \<Rightarrow> n)"

definition store_inv :: "nat \<Rightarrow> cli_state \<Rightarrow> bool" where
  "store_inv b s \<longleftrightarrow> (\<forall>p q. holding (cl_pc s p) \<longrightarrow> holding (cl_pc s q) \<longrightarrow> p = q)
     \<and> (\<forall>p. holding (cl_pc s p) \<longrightarrow> cl_lock s \<noteq> None)
     \<and> (\<forall>p. \<not> unlinking (cl_pc s p))
     \<and> (\<forall>m. cl_lock s = Some m \<longrightarrow> cl_clock s - m \<le> 10000)
     \<and> (\<forall>p. holding (cl_pc s p) \<longrightarrow> agrees (cl_pc s p) (cl_store s) (latest b (cl_reserved s)))
     \<and> ((\<forall>p. \<not> holding (cl_pc s p)) \<longrightarrow> agrees Idle (cl_store s) (latest b (cl_reserved s)))
     \<and> sorted_wrt (>) (cl_reserved s) \<and> (\<forall>n \<in> set (cl_reserved s). b < n)"


lemma goto_simps [simp]: "cl_pc (goto p c s) = (cl_pc s)(p := c)" "cl_lock (goto p c s) = cl_lock s"
  "cl_store (goto p c s) = cl_store s" "cl_clock (goto p c s) = cl_clock s" "cl_reserved (goto p c s) = cl_reserved s"
  by (simp_all add: goto_def)

lemma next_of_Some [simp]: "dr_outSeq d = Some n \<Longrightarrow> next_of (Some d) = n + 1"
  by (simp add: next_of_def)

lemma outSeq_set [simp]: "dr_outSeq (set_outSeq n d) = Some n"
  by (simp add: set_outSeq_def)

lemma latest_less: "sorted_wrt (>) ns \<Longrightarrow> \<forall>m \<in> set ns. b < m \<Longrightarrow> latest b ns < n \<Longrightarrow> b < n \<and> (\<forall>m \<in> set ns. m < n)"
  by (cases ns) (auto simp: latest_def)

lemma store_inv_start: "store_inv (next_of (Some d) - 1) (cli_start d)"
  by (simp add: store_inv_def cli_start_def latest_def) (simp add: next_of_def)

lemma inv_waiting:
  assumes "store_inv b s" "\<not> holding (cl_pc s p)" "\<not> holding c" "\<not> unlinking c"
  shows "store_inv b (goto p c s)"
  using assms unfolding store_inv_def by (auto split: if_splits)

lemma holder_not_unlinking [simp]: "holding c \<Longrightarrow> \<not> unlinking c"
  by (cases c) simp_all

lemma inv_holder:
  assumes "store_inv b s" "holding (cl_pc s p)" "holding c" "agrees c f (latest b (cl_reserved s))"
  shows "store_inv b (goto p c (s\<lparr>cl_store := f\<rparr>))"
  using assms unfolding store_inv_def by (auto split: if_splits)

lemma inv_holder_agrees:
  "store_inv b s \<Longrightarrow> holding (cl_pc s p) \<Longrightarrow> agrees (cl_pc s p) (cl_store s) (latest b (cl_reserved s))"
  unfolding store_inv_def by blast

text \<open>A holder that stops leaves the lock behind; one that finishes hands its number out.\<close>

lemma inv_leave:
  assumes "store_inv b s" "holding (cl_pc s p)" "\<not> holding c" "\<not> unlinking c" "agrees Idle (cl_store s) (latest b (cl_reserved s))"
  shows "store_inv b (goto p c s)"
  using assms unfolding store_inv_def by (auto split: if_splits)

lemma inv_acquire:
  assumes "store_inv b s" "cl_lock s = None"
  shows "store_inv b (goto p Load_seq (s\<lparr>cl_lock := Some (cl_clock s)\<rparr>))"
proof -
  have none: "\<not> holding (cl_pc s q)" for q using assms unfolding store_inv_def by blast
  with assms(1) have "agrees Idle (cl_store s) (latest b (cl_reserved s))" unfolding store_inv_def by blast
  with assms(1) none show ?thesis unfolding store_inv_def by (auto split: if_splits)
qed

lemma inv_release:
  assumes "store_inv b s" "cl_pc s p = Unlink_lock n"
  shows "store_inv b (goto p (Reserved n) (s\<lparr>cl_lock := None, cl_reserved := n # cl_reserved s\<rparr>))"
proof -
  have a: "cl_store s \<noteq> None" "next_of (cl_store s) = n + 1" "latest b (cl_reserved s) < n"
    using inv_holder_agrees [OF assms(1), of p] assms(2) by simp_all
  have only: "q = p" if "holding (cl_pc s q)" for q using that assms unfolding store_inv_def by fastforce
  have sorted: "sorted_wrt (>) (cl_reserved s)" "\<forall>n \<in> set (cl_reserved s). b < n" using assms(1) by (simp_all add: store_inv_def)
  show ?thesis
    using assms(1) only a sorted latest_less [OF sorted a(3)]
    unfolding store_inv_def by (auto simp: latest_def split: if_splits)
qed

lemma agrees_stop: "holding c \<Longrightarrow> \<not> mid_write c \<Longrightarrow> agrees c f n \<Longrightarrow> agrees Idle f n"
  by (cases c) auto

lemma store_inv_reserve:
  assumes "store_inv b s"
  shows "store_inv b (reserve_step p (cl_pc s p) s)"
proof (cases "holding (cl_pc s p)")
  case True
  note a = inv_holder_agrees [OF assms True]
  note h = inv_holder [OF assms True]
  show ?thesis
  proof (cases "cl_pc s p")
    case Load_seq
    with a h [of _ "cl_store s"] show ?thesis by (simp add: loadDevice_def)
  next
    case (Load_again n)
    with a h [of _ "cl_store s"] show ?thesis by (auto simp: loadDevice_def persistOutSeq_def)
  next
    case (Truncate n d)
    with a h [of _ None] show ?thesis by simp
  next
    case (Write_out n d)
    with a h [of _ "Some d"] show ?thesis by simp
  next
    case (Unlink_lock n)
    with inv_release [OF assms] show ?thesis by simp
  qed (use True in auto)
next
  case False
  then have w: "\<not> holding c \<Longrightarrow> \<not> unlinking c \<Longrightarrow> store_inv b (goto p c s)" for c by (rule inv_waiting [OF assms])
  have young: "cl_clock s - m \<le> 10000" if "cl_lock s = Some m" for m using that assms by (simp add: store_inv_def)
  have "\<not> unlinking (cl_pc s p)" using assms by (simp add: store_inv_def)
  with False show ?thesis
    by (cases "cl_pc s p") (auto simp: assms w inv_acquire dest: young split: option.split)
qed

lemma store_inv_step:
  assumes "store_inv b s" "orderly x s"
  shows "store_inv b (cli_step x s)"
proof (cases x)
  case (Call p)
  with assms(1) show ?thesis by (auto split: reserve_pc.split intro!: inv_waiting)
next
  case (Crash p)
  then show ?thesis
    using inv_leave [OF assms(1)] inv_waiting [OF assms(1)] agrees_stop [OF _ _ inv_holder_agrees [OF assms(1)]] assms(2)
    by (cases "holding (cl_pc s p)") simp_all
next
  case (Tick n)
  with assms show ?thesis by (auto simp: store_inv_def split: option.splits)
qed (use assms store_inv_reserve in simp)

lemma store_inv_run: "store_inv b s \<Longrightarrow> orderly_run xs s \<Longrightarrow> store_inv b (cli_run xs s)"
  by (induction xs arbitrary: s) (simp_all add: store_inv_step)

lemma store_ahead:
  assumes "store_inv b s" "\<forall>p. \<not> holding (cl_pc s p)"
  shows "\<forall>n \<in> set (cl_reserved s). n < next_of (loadDevice s)"
proof -
  have "latest b (cl_reserved s) < next_of (cl_store s)" "sorted_wrt (>) (cl_reserved s)" "\<forall>n \<in> set (cl_reserved s). b < n"
    using assms unfolding store_inv_def by simp_all
  then show ?thesis unfolding loadDevice_def by (blast dest: latest_less)
qed

text \<open>
  C15: However many \<^verbatim>\<open>cc\<close> processes reserve numbers at the same time and wherever they die, as long as
  no lock gets older than the ten-second limit and no process dies between truncating and writing
  the store, the numbers returned are strictly increasing and above every number of earlier
  invocations, so no two commands share one; at most one process is past the lock, and when none is,
  the next number the store gives is above all that were returned.
\<close>

theorem reserved_numbers_distinct:
  assumes "orderly_run xs (cli_start d)" "s = cli_run xs (cli_start d)"
  shows "sorted_wrt (>) (cl_reserved s) \<and> (\<forall>n \<in> set (cl_reserved s). next_of (Some d) \<le> n)
    \<and> (\<forall>p q. holding (cl_pc s p) \<longrightarrow> holding (cl_pc s q) \<longrightarrow> p = q)
    \<and> ((\<forall>p. \<not> holding (cl_pc s p)) \<longrightarrow> (\<forall>n \<in> set (cl_reserved s). n < next_of (loadDevice s)))"
proof -
  have inv: "store_inv (next_of (Some d) - 1) s" unfolding assms(2) by (rule store_inv_run [OF store_inv_start assms(1)])
  have "next_of (Some d) \<le> n" if "n \<in> set (cl_reserved s)" for n
    using inv that unfolding store_inv_def by fastforce
  moreover have "sorted_wrt (>) (cl_reserved s)" "\<forall>p q. holding (cl_pc s p) \<longrightarrow> holding (cl_pc s q) \<longrightarrow> p = q"
    using inv unfolding store_inv_def by blast+
  ultimately show ?thesis using store_ahead [OF inv] by blast
qed

text \<open>A device, and the steps of a reservation that meets no contention.\<close>

definition example_record :: DeviceRecord where
  "example_record = \<lparr>dr_deviceId = ''d1'', dr_devicePrivateKey = ''k'', dr_devicePublicKey = ''p'',
     dr_daemonPublicKey = ''q'', dr_outSeq = Some 4\<rparr>"

lemmas cli_eval = cli_start_def example_record_def goto_def loadDevice_def persistOutSeq_def next_of_def set_outSeq_def

theorem reserved_numbers_distinct_witness:
  "let xs = [Call 2, Call 3, Step 2, Step 3, Step 2, Step 3, Step 2, Step 3, Crash 3, Step 2, Step 2, Step 2,
             Call 5, Step 5, Step 5, Tick 40, Step 5, Step 5, Step 5, Step 5];
       s = cli_run xs (cli_start example_record)
   in orderly_run xs (cli_start example_record) \<and> cl_reserved s = [6, 5] \<and> sorted_wrt (>) (cl_reserved s)"
proof -
  let ?xs = "[Call 2, Call 3, Step 2, Step 3, Step 2, Step 3, Step 2, Step 3, Crash 3, Step 2, Step 2, Step 2,
             Call 5, Step 5, Step 5, Tick 40, Step 5, Step 5, Step 5, Step 5]"
  have o: "orderly_run ?xs (cli_start example_record)" by (simp add: cli_eval)
  moreover have "cl_reserved (cli_run ?xs (cli_start example_record)) = [6, 5]" by (simp add: cli_eval)
  ultimately show ?thesis using reserved_numbers_distinct [OF o refl] unfolding Let_def by blast
qed

section \<open>Every reservation ends\<close>

text \<open>A sleeping process is not scheduled before its time.\<close>

definition runnable :: "nat \<Rightarrow> cli_state \<Rightarrow> bool" where
  "runnable p s \<longleftrightarrow> (case cl_pc s p of
     Idle \<Rightarrow> False | Reserved _ \<Rightarrow> False | Gave_up \<Rightarrow> False | Dead \<Rightarrow> False
   | Sleep_until wake _ \<Rightarrow> wake \<le> cl_clock s | _ \<Rightarrow> True)"

fun steps_taken :: "nat \<Rightarrow> cli_op list \<Rightarrow> cli_state \<Rightarrow> nat" where
  "steps_taken p [] s = 0"
| "steps_taken p (x # xs) s = (if x = Step p \<and> runnable p s then 1 else 0) + steps_taken p xs (cli_step x s)"

text \<open>How many more steps a reservation can take: each sleep costs twenty milliseconds of the deadline.\<close>

fun steps_left :: "int \<Rightarrow> reserve_pc \<Rightarrow> nat" where
  "steps_left now (Open_lock dl) = nat (dl + 20 - now) + 10"
| "steps_left now (Check_lock dl) = nat (dl + 20 - now) + 9"
| "steps_left now (Unlink_stale dl) = nat (dl + 20 - now) + 8"
| "steps_left now (Check_deadline dl) = nat (dl + 20 - now) + 7"
| "steps_left now (Sleep_until wake dl) = nat (dl + 20 - max now wake) + 11"
| "steps_left now Load_seq = 5"
| "steps_left now (Load_again n) = 4"
| "steps_left now (Truncate n d) = 3"
| "steps_left now (Write_out n d) = 2"
| "steps_left now (Unlink_lock n) = 1"
| "steps_left now _ = 0"

lemma step_costs: "runnable p s \<Longrightarrow> steps_left (cl_clock s) (cl_pc (reserve_step p (cl_pc s p) s) p) < steps_left (cl_clock s) (cl_pc s p)"
  by (cases "cl_pc s p") (auto simp: runnable_def persistOutSeq_def split: option.split)

lemma step_not_runnable: "\<not> runnable p s \<Longrightarrow> reserve_step p (cl_pc s p) s = s"
  by (cases "cl_pc s p") (auto simp: runnable_def)

lemma step_clock [simp]: "cl_clock (reserve_step p c s) = cl_clock s"
  by (cases c) (auto split: option.split)

lemma step_other: "q \<noteq> p \<Longrightarrow> cl_pc (reserve_step q c s) p = cl_pc s p"
  by (cases c) (auto split: option.split)

lemma steps_left_mono: "now \<le> later \<Longrightarrow> steps_left later c \<le> steps_left now c"
  by (cases c) auto

lemma steps_bounded:
  "Call p \<notin> set xs \<Longrightarrow> steps_taken p xs s \<le> steps_left (cl_clock s) (cl_pc s p)"
proof (induction xs arbitrary: s)
  case (Cons x xs)
  let ?t = "cli_step x s"
  have "(if x = Step p \<and> runnable p s then 1 else 0) + steps_left (cl_clock ?t) (cl_pc ?t p) \<le> steps_left (cl_clock s) (cl_pc s p)"
  proof (cases x)
    case (Call q)
    with Cons.prems have "q \<noteq> p" by auto
    with Call show ?thesis by (simp split: reserve_pc.split)
  next
    case (Step q)
    show ?thesis
    proof (cases "q = p")
      case True
      with Step step_costs [of p s] step_not_runnable [of p s] show ?thesis by (cases "runnable p s") simp_all
    qed (simp add: Step step_other)
  qed (simp_all add: steps_left_mono)
  moreover have "steps_taken p xs ?t \<le> steps_left (cl_clock ?t) (cl_pc ?t p)" using Cons by simp
  ultimately show ?case by simp
qed simp

lemma step_not_idle: "cl_pc s p \<noteq> Idle \<Longrightarrow> cl_pc (cli_step x s) p \<noteq> Idle"
proof (cases x)
  case (Step q)
  assume "cl_pc s p \<noteq> Idle"
  moreover have "cl_pc (reserve_step p (cl_pc s p) s) p \<noteq> Idle" if "cl_pc s p \<noteq> Idle"
    using that by (cases "cl_pc s p") (auto simp: persistOutSeq_def split: option.split)
  ultimately show ?thesis using Step step_other [of q p "cl_pc s q" s] by (cases "q = p") simp_all
qed (auto split: reserve_pc.split)

lemma run_not_idle: "cl_pc s p \<noteq> Idle \<Longrightarrow> cl_pc (cli_run xs s) p \<noteq> Idle"
  by (induction xs arbitrary: s) (simp_all add: step_not_idle)

text \<open>
  C35: Whatever the other processes do and however time passes, a call of \<^verbatim>\<open>reserveOutSeq\<close> is over after
  at most 5030 steps: it returns a number, gives up at its deadline or dies. It is never stuck before
  that: unless it sleeps it can always take a step.
\<close>

theorem reservation_ends:
  assumes "cl_pc s p = Idle" "Call p \<notin> set xs"
  shows "steps_taken p xs (cli_step (Call p) s) \<le> 5030
    \<and> (let t = cli_run xs (cli_step (Call p) s) in
        (\<exists>n. cl_pc t p = Reserved n) \<or> cl_pc t p = Gave_up \<or> cl_pc t p = Dead \<or> runnable p t
        \<or> (\<exists>wake dl. cl_pc t p = Sleep_until wake dl \<and> cl_clock t < wake))"
proof -
  have "steps_taken p xs (cli_step (Call p) s) \<le> 5030"
    using steps_bounded [OF assms(2), of "cli_step (Call p) s"] assms(1) by simp
  moreover have "cl_pc (cli_run xs (cli_step (Call p) s)) p \<noteq> Idle"
    by (rule run_not_idle) (simp add: assms(1))
  ultimately show ?thesis by (auto simp: runnable_def Let_def split: reserve_pc.split)
qed

theorem reservation_ends_witness:
  "steps_taken 2 [Step 2, Tick 9, Step 2, Step 2, Step 2, Step 2, Step 2, Step 2] (cli_step (Call 2) (cli_start example_record)) \<le> 5030
   \<and> steps_taken 2 [Step 2, Tick 9, Step 2, Step 2, Step 2, Step 2, Step 2, Step 2] (cli_step (Call 2) (cli_start example_record)) = 6"
proof -
  have "cl_pc (cli_start example_record) 2 = Idle" by (simp add: cli_start_def)
  from reservation_ends [OF this, of "[Step 2, Tick 9, Step 2, Step 2, Step 2, Step 2, Step 2, Step 2]"]
  show ?thesis by (simp add: cli_eval runnable_def)
qed

section \<open>Where the lock fails\<close>

text \<open>
  Two processes that find the same abandoned lock both remove it: the second removes the fresh
  lock of the first, and both return the same number although no process misses a deadline or dies.
\<close>

theorem stale_lock_removed_twice:
  "let s0 = (cli_start example_record)\<lparr>cl_clock := 20000, cl_lock := Some 0\<rparr>;
       s = cli_run ([Call 2, Call 3, Step 2, Step 3, Step 2, Step 3, Step 2, Step 2, Tick 20, Step 2, Step 2,
              Step 3, Step 3, Tick 20, Step 3, Step 3, Step 3, Step 2, Step 2, Step 2, Step 2, Step 2,
              Step 3, Step 3, Step 3, Step 3]) s0
   in cl_reserved s = [5, 5]"
  by code_simp

text \<open>
  \<^verbatim>\<open>requireDevice\<close> of \<^verbatim>\<open>cc.ts\<close> reads the store without the lock; \<open>None\<close> is the exit
  \<^verbatim>\<open>not paired. run: cc pair\<close>.
\<close>

definition requireDevice :: "cli_state \<Rightarrow> DeviceRecord option" where
  "requireDevice s = loadDevice s"

text \<open>
  A process that starts while another one is between truncating and writing the store takes the
  device for unpaired, and if the writer dies there, the device's keys are gone for good.
\<close>

theorem store_lost_mid_write:
  "let s = cli_run [Call 2, Step 2, Step 2, Step 2, Step 2] (cli_start example_record)
   in orderly_run [Call 2, Step 2, Step 2, Step 2, Step 2] (cli_start example_record)
      \<and> requireDevice s = None \<and> requireDevice (cli_step (Crash 2) s) = None
      \<and> requireDevice (cli_step (Step 2) s) = Some (set_outSeq 5 example_record)"
  by (simp add: cli_eval requireDevice_def)
end
