(* ===== verification/JsNumbers.thy ===== *)
theory JsNumbers
  imports Framing
begin

text \<open>
  Numbers of JavaScript as the configuration of the daemon and the host of the CLI use them: the
  conversion of a string, the tests and the order, and the arithmetic of the reconnect delay.
\<close>

section \<open>The conversion of strings to numbers\<close>

text \<open>
  \<^verbatim>\<open>Number(s)\<close> on the grammar of ECMAScript. The value is exact up to the overflow to infinity;
  the rounding of a finite value to binary64 is not modelled.
\<close>

definition is_digit :: "char \<Rightarrow> bool" where
  "is_digit c \<longleftrightarrow> c \<in> set ''0123456789''"

definition js_trim :: "string \<Rightarrow> string" where
  "js_trim s = rev (dropWhile js_space (rev (dropWhile js_space s)))"

definition to_double :: "rat \<Rightarrow> jsnum" where
  "to_double q = (if 2 ^ 1024 - 2 ^ 970 \<le> q then PosInf else if q \<le> - (2 ^ 1024 - 2 ^ 970) then NegInf else Fin q)"

definition pow10 :: "int \<Rightarrow> rat" where
  "pow10 e = (if 0 \<le> e then 10 ^ nat e else 1 / 10 ^ nat (- e))"

definition signed_part :: "string \<Rightarrow> int \<times> string" where
  "signed_part s = (case s of c # t \<Rightarrow> if c = CHR ''-'' then (- 1, t) else if c = CHR ''+'' then (1, t) else (1, s) | [] \<Rightarrow> (1, s))"

definition exponent_part :: "string \<Rightarrow> int option" where
  "exponent_part s = (case s of [] \<Rightarrow> Some 0
     | c # t \<Rightarrow> (let (sg, ds) = signed_part t
               in if c \<in> {CHR ''e'', CHR ''E''} \<and> ds \<noteq> [] \<and> list_all is_digit ds then Some (sg * int (undecimal ds)) else None))"

definition unsigned_decimal :: "string \<Rightarrow> rat option" where
  "unsigned_decimal s =
     (let whole = takeWhile is_digit s; r = dropWhile is_digit s;
          (frac, r2) = (case r of c # t \<Rightarrow> if c = CHR ''.'' then (takeWhile is_digit t, dropWhile is_digit t) else ([], r) | [] \<Rightarrow> ([], r))
      in if whole = [] \<and> frac = [] then None
         else map_option (\<lambda>e. of_nat (undecimal (whole @ frac)) * pow10 (e - int (length frac))) (exponent_part r2))"

definition hex_digit :: "char \<Rightarrow> nat option" where
  "hex_digit c = (let n = (of_char c :: nat) in
     if 48 \<le> n \<and> n \<le> 57 then Some (n - 48) else if 65 \<le> n \<and> n \<le> 70 then Some (n - 55)
     else if 97 \<le> n \<and> n \<le> 102 then Some (n - 87) else None)"

fun in_base :: "nat \<Rightarrow> nat \<Rightarrow> string \<Rightarrow> nat option" where
  "in_base b acc [] = Some acc"
| "in_base b acc (c # s) = (case hex_digit c of None \<Rightarrow> None
     | Some d \<Rightarrow> if d < b then in_base b (acc * b + d) s else None)"

definition radix_of :: "char \<Rightarrow> nat option" where
  "radix_of c = (if c \<in> set ''xX'' then Some 16 else if c \<in> set ''oO'' then Some 8 else if c \<in> set ''bB'' then Some 2 else None)"

definition radix_literal :: "string \<Rightarrow> nat option" where
  "radix_literal s = (case s of a # b # d # ds \<Rightarrow>
       if a = CHR ''0'' then Option.bind (radix_of b) (\<lambda>r. in_base r 0 (d # ds)) else None
     | _ \<Rightarrow> None)"

definition js_Number :: "string \<Rightarrow> jsnum" where
  "js_Number raw = (let s = js_trim raw; (sg, t) = signed_part s in
     if s = [] then Fin 0
     else case radix_literal s of Some n \<Rightarrow> to_double (of_nat n)
     | None \<Rightarrow> if t = ''Infinity'' then (if sg = 1 then PosInf else NegInf)
        else case unsigned_decimal t of Some q \<Rightarrow> to_double (of_int sg * q) | None \<Rightarrow> NaN)"

fun isInteger :: "jsnum \<Rightarrow> bool" where
  "isInteger (Fin q) \<longleftrightarrow> snd (quotient_of q) = 1"
| "isInteger _ \<longleftrightarrow> False"

fun isFinite :: "jsnum \<Rightarrow> bool" where
  "isFinite (Fin q) \<longleftrightarrow> True"
| "isFinite _ \<longleftrightarrow> False"

text \<open>The order of numbers; every comparison with \<open>NaN\<close> is false.\<close>

fun js_less :: "jsnum \<Rightarrow> jsnum \<Rightarrow> bool" where
  "js_less (Fin p) (Fin q) \<longleftrightarrow> p < q"
| "js_less NegInf (Fin q) \<longleftrightarrow> True"
| "js_less NegInf PosInf \<longleftrightarrow> True"
| "js_less (Fin p) PosInf \<longleftrightarrow> True"
| "js_less _ _ \<longleftrightarrow> False"

definition js_geq :: "jsnum \<Rightarrow> jsnum \<Rightarrow> bool" where
  "js_geq a b \<longleftrightarrow> a \<noteq> NaN \<and> b \<noteq> NaN \<and> \<not> js_less a b"

text \<open>\<^verbatim>\<open>Math.min\<close>, and multiplication by a power of two.\<close>

definition js_min :: "jsnum \<Rightarrow> jsnum \<Rightarrow> jsnum" where
  "js_min a b = (if a = NaN \<or> b = NaN then NaN else if js_less b a then b else a)"

fun js_scale :: "jsnum \<Rightarrow> nat \<Rightarrow> jsnum" where
  "js_scale (Fin q) k = to_double (q * 2 ^ k)"
| "js_scale n k = n"

end
