(* ===== verification/Config.thy ===== *)
theory Config
  imports Daemon JsNumbers
begin

text \<open>
  The configuration of the daemon, \<^verbatim>\<open>packages/daemon/src/infrastructure/config.ts\<close>, the address its network
  listeners bind, \<^verbatim>\<open>infrastructure/tailscale.ts\<close>, and the listeners \<^verbatim>\<open>index.ts\<close> starts from them. The
  environment is a function; the output of the \<^verbatim>\<open>tailscale\<close> program and the home directory are parameters.
\<close>

section \<open>Parsing the environment\<close>

type_synonym environment = "string \<Rightarrow> string option"

datatype ConfigError =
    Not_positive_int string string
  | Not_boolean string string
  | Not_port string string

definition unset :: "environment \<Rightarrow> string \<Rightarrow> bool" where
  "unset env name \<longleftrightarrow> env name = None \<or> env name = Some []"

definition bad_cap :: "jsnum \<Rightarrow> bool" where
  "bad_cap n \<longleftrightarrow> \<not> isFinite n \<or> \<not> isInteger n \<or> js_less n (Fin 1)"

definition positiveInt :: "environment \<Rightarrow> string \<Rightarrow> jsnum \<Rightarrow> ConfigError + jsnum" where
  "positiveInt env name fallback = (case env name of
     None \<Rightarrow> Inr fallback
   | Some raw \<Rightarrow> if raw = [] then Inr fallback
       else let n = js_Number raw in if bad_cap n then Inl (Not_positive_int name raw) else Inr n)"

definition to_lower :: "char \<Rightarrow> char" where
  "to_lower c = (let n = (of_char c :: nat) in if 65 \<le> n \<and> n \<le> 90 then char_of (n + 32) else c)"

definition boolFlag :: "environment \<Rightarrow> string \<Rightarrow> bool \<Rightarrow> ConfigError + bool" where
  "boolFlag env name fallback = (case env name of
     None \<Rightarrow> Inr fallback
   | Some raw \<Rightarrow> if raw = [] then Inr fallback
       else let v = map to_lower (js_trim raw) in
         if v \<in> set [''1'', ''true'', ''yes'', ''on''] then Inr True
         else if v \<in> set [''0'', ''false'', ''no'', ''off''] then Inr False
         else Inl (Not_boolean name raw))"

definition optionalPositiveInt :: "environment \<Rightarrow> string \<Rightarrow> ConfigError + jsnum option" where
  "optionalPositiveInt env name = (case env name of
     None \<Rightarrow> Inr None
   | Some raw \<Rightarrow> if raw = [] then Inr None
       else let n = js_Number raw in if bad_cap n then Inl (Not_positive_int name raw) else Inr (Some n))"

definition optionalPort :: "environment \<Rightarrow> string \<Rightarrow> ConfigError + jsnum option" where
  "optionalPort env name = (case env name of
     None \<Rightarrow> Inr None
   | Some raw \<Rightarrow> if raw = [] then Inr None
       else let n = js_Number raw in
         if \<not> isInteger n \<or> js_less n (Fin 1) \<or> js_less (Fin 65535) n then Inl (Not_port name raw) else Inr (Some n))"

definition or_default :: "environment \<Rightarrow> string \<Rightarrow> string \<Rightarrow> string" where
  "or_default env name d = (case env name of None \<Rightarrow> d | Some raw \<Rightarrow> if raw = [] then d else raw)"

record DaemonConfig =
  dc_hookSock :: string
  dc_clientSock :: string
  dc_storePath :: string
  dc_dbPath :: string
  dc_clientTcpPort :: "jsnum option"
  dc_clientWsPort :: "jsnum option"
  dc_clientTcpHost :: string
  dc_selfDenyMs :: jsnum
  dc_maxConcurrentSessions :: jsnum
  dc_replayMaxDevices :: "jsnum option"
  dc_replayMaxEventsPerDevice :: "jsnum option"
  dc_maxPairedDevices :: jsnum
  dc_pushEnabled :: bool
  dc_pushEndpoint :: string

text \<open>The fields are evaluated in the order of the object literal; the first error ends the daemon.\<close>

definition or_throw :: "'e + 'a \<Rightarrow> ('a \<Rightarrow> 'e + 'b) \<Rightarrow> 'e + 'b" where
  "or_throw r f = (case r of Inl e \<Rightarrow> Inl e | Inr x \<Rightarrow> f x)"

definition loadConfig :: "string \<Rightarrow> environment \<Rightarrow> ConfigError + DaemonConfig" where
  "loadConfig home env =
     or_throw (optionalPort env ''CC_CLIENT_TCP_PORT'') (\<lambda>tcp.
     or_throw (optionalPort env ''CC_CLIENT_WS_PORT'') (\<lambda>ws.
     or_throw (positiveInt env ''CC_HOOK_SELF_DENY_MS'' (Fin (20 * 60 * 1000))) (\<lambda>selfDeny.
     or_throw (if unset env ''CC_MAX_CONCURRENT_SESSIONS'' then Inr PosInf
               else positiveInt env ''CC_MAX_CONCURRENT_SESSIONS'' PosInf) (\<lambda>concurrent.
     or_throw (optionalPositiveInt env ''CC_REPLAY_MAX_DEVICES'') (\<lambda>devices.
     or_throw (optionalPositiveInt env ''CC_REPLAY_MAX_EVENTS_PER_DEVICE'') (\<lambda>events.
     or_throw (positiveInt env ''CC_MAX_PAIRED_DEVICES'' (Fin 50)) (\<lambda>paired.
     or_throw (boolFlag env ''CC_PUSH_ENABLED'' False) (\<lambda>push.
     Inr \<lparr>dc_hookSock = or_default env ''CC_DAEMON_SOCK'' ''/tmp/cc-daemon.sock'',
          dc_clientSock = or_default env ''CC_CLIENT_SOCK'' ''/tmp/cc-client.sock'',
          dc_storePath = or_default env ''CC_STORE'' (home @ ''/.config/claude-code-remote/daemon.json''),
          dc_dbPath = or_default env ''CC_DB_PATH'' (home @ ''/.config/claude-code-remote/daemon.db''),
          dc_clientTcpPort = tcp, dc_clientWsPort = ws,
          dc_clientTcpHost = or_default env ''CC_CLIENT_TCP_HOST'' ''auto'',
          dc_selfDenyMs = selfDeny, dc_maxConcurrentSessions = concurrent,
          dc_replayMaxDevices = devices, dc_replayMaxEventsPerDevice = events,
          dc_maxPairedDevices = paired, dc_pushEnabled = push,
          dc_pushEndpoint = or_default env ''CC_PUSH_ENDPOINT'' ''https://exp.host/--/api/v2/push/send''\<rparr>))))))))"

section \<open>What a daemon that starts has understood\<close>

text \<open>A cap that compares as a cap: a positive integer.\<close>

definition real_cap :: "jsnum \<Rightarrow> bool" where
  "real_cap n \<longleftrightarrow> (\<exists>k \<ge> 1. n = Fin (of_nat k))"

lemma is_int_of_nat: "snd (quotient_of q) = 1 \<Longrightarrow> 1 \<le> q \<Longrightarrow> \<exists>k \<ge> 1. q = of_nat k"
proof -
  assume i: "snd (quotient_of q) = 1" and q: "1 \<le> q"
  obtain n d where nd: "quotient_of q = (n, d)" by fastforce
  with i have "q = of_int n" using quotient_of_div [OF nd] by simp
  with q have "q = of_nat (nat n)" "1 \<le> nat n" by simp_all
  then show ?thesis by blast
qed

lemma not_bad_cap: "\<not> bad_cap n \<longleftrightarrow> real_cap n"
proof
  assume "\<not> bad_cap n"
  then show "real_cap n" using is_int_of_nat by (cases n) (auto simp: bad_cap_def real_cap_def not_less)
next
  assume "real_cap n"
  then obtain k where k: "k \<ge> 1" "n = Fin (of_nat k)" by (auto simp: real_cap_def)
  have "quotient_of (of_nat k) = (int k, 1)" using quotient_of_int [of "int k"] by simp
  with k show "\<not> bad_cap n" by (simp add: bad_cap_def)
qed

lemma positiveInt_cases:
  "positiveInt env name d = (if unset env name then Inr d
     else if real_cap (js_Number (the (env name))) then Inr (js_Number (the (env name)))
     else Inl (Not_positive_int name (the (env name))))"
  by (auto simp: positiveInt_def unset_def not_bad_cap [symmetric] Let_def split: option.split)

lemma optionalPositiveInt_cases:
  "optionalPositiveInt env name = (if unset env name then Inr None
     else if real_cap (js_Number (the (env name))) then Inr (Some (js_Number (the (env name))))
     else Inl (Not_positive_int name (the (env name))))"
  by (auto simp: optionalPositiveInt_def unset_def not_bad_cap [symmetric] Let_def split: option.split)

definition valid_port :: "jsnum \<Rightarrow> bool" where
  "valid_port n \<longleftrightarrow> (\<exists>k. 1 \<le> k \<and> k \<le> 65535 \<and> n = Fin (of_nat k))"

lemma port_guard: "\<not> isInteger n \<or> js_less n (Fin 1) \<or> js_less (Fin 65535) n \<longleftrightarrow> \<not> valid_port n"
proof (cases n)
  case (Fin q)
  have "valid_port n \<longleftrightarrow> real_cap n \<and> \<not> js_less (Fin 65535) n"
    unfolding valid_port_def real_cap_def by (auto simp: not_less)
  with Fin not_bad_cap [of n] show ?thesis by (auto simp: bad_cap_def)
qed (simp_all add: valid_port_def)

lemma optionalPort_cases:
  "optionalPort env name = (if unset env name then Inr None
     else if valid_port (js_Number (the (env name))) then Inr (Some (js_Number (the (env name))))
     else Inl (Not_port name (the (env name))))"
  unfolding optionalPort_def port_guard by (auto simp: unset_def Let_def split: option.split)


definition numeric_caps :: "string list" where
  "numeric_caps = [''CC_HOOK_SELF_DENY_MS'', ''CC_MAX_CONCURRENT_SESSIONS'', ''CC_REPLAY_MAX_DEVICES'',
     ''CC_REPLAY_MAX_EVENTS_PER_DEVICE'', ''CC_MAX_PAIRED_DEVICES'']"

definition flag_words :: "string list" where
  "flag_words = [''1'', ''true'', ''yes'', ''on'', ''0'', ''false'', ''no'', ''off'']"

definition understood :: "environment \<Rightarrow> bool" where
  "understood env \<longleftrightarrow>
     (\<forall>name \<in> set numeric_caps. unset env name \<or> real_cap (js_Number (the (env name))))
   \<and> (\<forall>name \<in> {''CC_CLIENT_TCP_PORT'', ''CC_CLIENT_WS_PORT''}. unset env name \<or> valid_port (js_Number (the (env name))))
   \<and> (unset env ''CC_PUSH_ENABLED'' \<or> map to_lower (js_trim (the (env ''CC_PUSH_ENABLED''))) \<in> set flag_words)"

lemma boolFlag_ok: "(\<exists>b. boolFlag env name d = Inr b) \<longleftrightarrow> unset env name \<or> map to_lower (js_trim (the (env name))) \<in> set flag_words"
  by (auto simp: boolFlag_def unset_def flag_words_def Let_def split: option.split)

lemma or_throw_Inr: "or_throw r f = Inr y \<longleftrightarrow> (\<exists>x. r = Inr x \<and> f x = Inr y)"
  by (cases r) (simp_all add: or_throw_def)

lemma or_throw_ok: "(\<exists>y. or_throw r f = Inr y) \<longleftrightarrow> (\<exists>x. r = Inr x \<and> (\<exists>y. f x = Inr y))"
  by (auto simp: or_throw_Inr)

text \<open>
  The daemon starts exactly when every variable it is given is understood: each cap is unset or a
  positive integer, each port unset or between 1 and 65535, the flag unset or one of its eight words.
  Anything else is a refusal, never a default.
\<close>

theorem loadConfig_starts_iff_understood:
  "(\<exists>c. loadConfig home env = Inr c) \<longleftrightarrow> understood env"
  unfolding loadConfig_def or_throw_ok understood_def numeric_caps_def
  by (auto simp: positiveInt_cases optionalPositiveInt_cases optionalPort_cases boolFlag_ok split: if_splits)

lemma loadConfig_fields:
  assumes "loadConfig home env = Inr c"
  shows "optionalPort env ''CC_CLIENT_TCP_PORT'' = Inr (dc_clientTcpPort c)"
    "optionalPort env ''CC_CLIENT_WS_PORT'' = Inr (dc_clientWsPort c)"
    "positiveInt env ''CC_HOOK_SELF_DENY_MS'' (Fin (20 * 60 * 1000)) = Inr (dc_selfDenyMs c)"
    "(if unset env ''CC_MAX_CONCURRENT_SESSIONS'' then Inr PosInf
      else positiveInt env ''CC_MAX_CONCURRENT_SESSIONS'' PosInf) = Inr (dc_maxConcurrentSessions c)"
    "optionalPositiveInt env ''CC_REPLAY_MAX_DEVICES'' = Inr (dc_replayMaxDevices c)"
    "optionalPositiveInt env ''CC_REPLAY_MAX_EVENTS_PER_DEVICE'' = Inr (dc_replayMaxEventsPerDevice c)"
    "positiveInt env ''CC_MAX_PAIRED_DEVICES'' (Fin 50) = Inr (dc_maxPairedDevices c)"
  using assms unfolding loadConfig_def or_throw_Inr by (elim exE conjE; clarsimp)+

lemma positiveInt_Inr: "positiveInt env name d = Inr n \<Longrightarrow> real_cap d \<Longrightarrow> real_cap n"
  by (auto simp: positiveInt_cases split: if_splits)

lemma optionalPositiveInt_Inr: "optionalPositiveInt env name = Inr r \<Longrightarrow> \<forall>n \<in> set_option r. real_cap n"
  by (auto simp: optionalPositiveInt_cases split: if_splits)

lemma optionalPort_Inr: "optionalPort env name = Inr r \<Longrightarrow> \<forall>n \<in> set_option r. valid_port n"
  by (auto simp: optionalPort_cases split: if_splits)

text \<open>
  C38: A daemon that starts has every cap it was asked for in force: the caps on devices and the self-deny
  are positive integers, the session cap is one unless the variable is unset, a port is a valid port, and
  a set variable is used with its value.
\<close>

theorem started_caps_in_force:
  assumes "loadConfig home env = Inr c"
  shows "real_cap (dc_maxPairedDevices c) \<and> real_cap (dc_selfDenyMs c)
    \<and> (if unset env ''CC_MAX_CONCURRENT_SESSIONS'' then dc_maxConcurrentSessions c = PosInf else real_cap (dc_maxConcurrentSessions c))
    \<and> (\<forall>n \<in> set_option (dc_replayMaxDevices c) \<union> set_option (dc_replayMaxEventsPerDevice c). real_cap n)
    \<and> (\<forall>n \<in> set_option (dc_clientTcpPort c) \<union> set_option (dc_clientWsPort c). valid_port n)
    \<and> (\<not> unset env ''CC_MAX_PAIRED_DEVICES'' \<longrightarrow> dc_maxPairedDevices c = js_Number (the (env ''CC_MAX_PAIRED_DEVICES'')))"
proof -
  have caps: "real_cap (Fin 50)" "real_cap (Fin (20 * 60 * 1000))"
    by (auto simp: real_cap_def intro!: exI [of _ 50] exI [of _ 1200000])
  note f = loadConfig_fields [OF assms]
  have "if unset env ''CC_MAX_CONCURRENT_SESSIONS'' then dc_maxConcurrentSessions c = PosInf else real_cap (dc_maxConcurrentSessions c)"
    using f(4) by (auto simp: positiveInt_cases split: if_splits)
  moreover have "\<not> unset env ''CC_MAX_PAIRED_DEVICES'' \<longrightarrow> dc_maxPairedDevices c = js_Number (the (env ''CC_MAX_PAIRED_DEVICES''))"
    using f(7) by (auto simp: positiveInt_cases split: if_splits)
  ultimately show ?thesis
    using positiveInt_Inr [OF f(7) caps(1)] positiveInt_Inr [OF f(3) caps(2)] optionalPositiveInt_Inr [OF f(5)]
      optionalPositiveInt_Inr [OF f(6)] optionalPort_Inr [OF f(1)] optionalPort_Inr [OF f(2)]
    by blast
qed

definition example_env :: environment where
  "example_env = (\<lambda>_. None)(''CC_CLIENT_TCP_PORT'' := Some ''0x1F90'', ''CC_MAX_PAIRED_DEVICES'' := Some '' 1.5e1 '')"

lemmas number_eval = js_Number_def js_trim_def js_space_def signed_part_def radix_literal_def radix_of_def hex_digit_def
  unsigned_decimal_def is_digit_def exponent_part_def undecimal_def undigit_def pow10_def to_double_def Let_def

lemma example_numbers: "js_Number '' 1.5e1 '' = Fin 15" "js_Number ''0x1F90'' = Fin 8080"
  by (simp_all add: number_eval)

theorem started_caps_in_force_witness:
  "\<exists>c. loadConfig ''/home/u'' example_env = Inr c \<and> real_cap (dc_maxPairedDevices c) \<and> dc_maxPairedDevices c = Fin 15"
proof -
  have "real_cap (Fin 15)" "valid_port (Fin 8080)"
    by (auto simp: real_cap_def valid_port_def intro!: exI [of _ 15] exI [of _ 8080])
  then have "understood example_env"
    by (simp add: understood_def numeric_caps_def unset_def example_env_def example_numbers)
  then obtain c where c: "loadConfig ''/home/u'' example_env = Inr c" using loadConfig_starts_iff_understood by blast
  note s = started_caps_in_force [OF c]
  from s have "dc_maxPairedDevices c = Fin 15" by (simp add: unset_def example_env_def example_numbers)
  moreover from s have "real_cap (dc_maxPairedDevices c)" by blast
  ultimately show ?thesis using c by blast
qed

section \<open>Network listeners\<close>

text \<open>
  \<^verbatim>\<open>resolveTcpHost\<close>; the last argument is what \<^verbatim>\<open>tailscale ip -4\<close> prints (\<open>None\<close>: it fails or times out).
\<close>

definition first_line :: "string \<Rightarrow> string" where
  "first_line s = takeWhile (\<lambda>c. c \<noteq> newline) (js_trim s)"

definition resolveTcpHost :: "string \<Rightarrow> string option \<Rightarrow> string option" where
  "resolveTcpHost configuredHost tailscale =
     (if configuredHost = ''0.0.0.0'' then Some ''0.0.0.0''
      else if configuredHost \<noteq> ''auto'' then Some configuredHost
      else case tailscale of None \<Rightarrow> None
        | Some out \<Rightarrow> let ip = first_line out in if ip = [] then None else Some ip)"

fun num_text :: "jsnum \<Rightarrow> string" where
  "num_text (Fin q) = decimal_int (fst (quotient_of q))"
| "num_text _ = ''NaN''"

text \<open>The network listeners the composition root starts: kind, host and port.\<close>

definition network_listeners :: "DaemonConfig \<Rightarrow> string option \<Rightarrow> (listener \<times> string \<times> jsnum) list" where
  "network_listeners c tailscale =
     (if dc_clientTcpPort c = None \<and> dc_clientWsPort c = None then []
      else case resolveTcpHost (dc_clientTcpHost c) tailscale of None \<Rightarrow> []
      | Some host \<Rightarrow> (case dc_clientTcpPort c of None \<Rightarrow> [] | Some p \<Rightarrow> [(Tcp_listener, host, p)])
                   @ (case dc_clientWsPort c of None \<Rightarrow> [] | Some p \<Rightarrow> [(Ws_listener, host, p)]))"

text \<open>The callbacks that run when a listener is up, on the advertised address.\<close>

fun on_listening :: "DaemonConfig \<Rightarrow> (listener \<times> string \<times> jsnum) \<Rightarrow> string \<Rightarrow> string" where
  "on_listening c (Tcp_listener, host, p) a =
     (if dc_clientWsPort c = None then ''tcp://'' @ host @ '':'' @ num_text p else a)"
| "on_listening c (Ws_listener, host, p) a = ''ws://'' @ host @ '':'' @ num_text p"
| "on_listening c (Unix_listener, host, p) a = a"

definition advertisedAddress :: "DaemonConfig \<Rightarrow> (listener \<times> string \<times> jsnum) list \<Rightarrow> string" where
  "advertisedAddress c up = foldl (\<lambda>a l. on_listening c l a) (''unix://'' @ dc_clientSock c) up"

lemma listeners_of_kind:
  assumes "(k, h, p) \<in> set (network_listeners c ts)"
  shows "resolveTcpHost (dc_clientTcpHost c) ts = Some h"
    "k = Tcp_listener \<and> dc_clientTcpPort c = Some p \<or> k = Ws_listener \<and> dc_clientWsPort c = Some p"
  using assms by (auto simp: network_listeners_def split: if_splits option.splits)

lemma advertised_unless_ws:
  assumes "set up \<subseteq> {(Tcp_listener, h, p)}" "dc_clientWsPort c = None"
  shows "foldl (\<lambda>a l. on_listening c l a) a up = (if up = [] then a else ''tcp://'' @ h @ '':'' @ num_text p)"
  using assms by (induction up arbitrary: a) auto

lemma advertised_ws:
  assumes "set up \<subseteq> {(Tcp_listener, h, p), (Ws_listener, h, q)}" "dc_clientWsPort c \<noteq> None"
  shows "foldl (\<lambda>a l. on_listening c l a) a up =
    (if (Ws_listener, h, q) \<in> set up then ''ws://'' @ h @ '':'' @ num_text q else a)"
  using assms by (induction up arbitrary: a) auto

text \<open>
  The control plane is exposed on the network only as configured. Listeners exist only for the
  ports that are set and all bind one host, which is the configured one or, by default, the address
  Tailscale reports; without such an address there is none. The address a client is told to dial does
  not depend on the order in which the listeners come up: the WebSocket one once it is up, else the TCP
  one if no WebSocket is configured, else the local socket.
\<close>

theorem network_exposure:
  assumes "set up \<subseteq> set (network_listeners c ts)"
  shows "(\<forall>(k, h, p) \<in> set (network_listeners c ts). k \<noteq> Unix_listener
      \<and> (if dc_clientTcpHost c = ''auto'' then (\<exists>out. ts = Some out \<and> h = first_line out \<and> h \<noteq> []) else h = dc_clientTcpHost c))
    \<and> (\<exists>h. advertisedAddress c up =
          (case dc_clientWsPort c of
             Some q \<Rightarrow> if (Ws_listener, h, q) \<in> set up then ''ws://'' @ h @ '':'' @ num_text q else ''unix://'' @ dc_clientSock c
           | None \<Rightarrow> if up = [] then ''unix://'' @ dc_clientSock c
                     else ''tcp://'' @ h @ '':'' @ num_text (the (dc_clientTcpPort c)))
        \<and> (up \<noteq> [] \<longrightarrow> resolveTcpHost (dc_clientTcpHost c) ts = Some h))"
proof -
  have "k \<noteq> Unix_listener
      \<and> (if dc_clientTcpHost c = ''auto'' then (\<exists>out. ts = Some out \<and> h = first_line out \<and> h \<noteq> []) else h = dc_clientTcpHost c)"
    if "(k, h, p) \<in> set (network_listeners c ts)" for k h p
    using listeners_of_kind [OF that] by (auto simp: resolveTcpHost_def Let_def split: if_splits option.splits)
  then have 1: "\<forall>(k, h, p) \<in> set (network_listeners c ts). k \<noteq> Unix_listener
      \<and> (if dc_clientTcpHost c = ''auto'' then (\<exists>out. ts = Some out \<and> h = first_line out \<and> h \<noteq> []) else h = dc_clientTcpHost c)"
    by blast
  obtain h where h: "up \<noteq> [] \<longrightarrow> resolveTcpHost (dc_clientTcpHost c) ts = Some h"
    by (cases "resolveTcpHost (dc_clientTcpHost c) ts") (use assms in \<open>auto simp: network_listeners_def split: if_splits\<close>)
  have sub: "k = Tcp_listener \<and> h' = h \<and> dc_clientTcpPort c = Some p \<or> k = Ws_listener \<and> h' = h \<and> dc_clientWsPort c = Some p"
    if "(k, h', p) \<in> set up" for k h' p
    using that assms h listeners_of_kind [of k h' p c ts] by fastforce
  show ?thesis
  proof (cases "dc_clientWsPort c")
    case None
    then have "set up \<subseteq> {(Tcp_listener, h, the (dc_clientTcpPort c))}" using sub by fastforce
    with None 1 h show ?thesis
      by (intro conjI exI [of _ h]) (simp_all add: advertisedAddress_def advertised_unless_ws)
  next
    case (Some q)
    then have "set up \<subseteq> {(Tcp_listener, h, the (dc_clientTcpPort c)), (Ws_listener, h, q)}" using sub by fastforce
    with Some 1 h show ?thesis
      by (intro conjI exI [of _ h]) (simp_all add: advertisedAddress_def advertised_ws)
  qed
qed

definition example_config :: DaemonConfig where
  "example_config = \<lparr>dc_hookSock = ''h'', dc_clientSock = ''c'', dc_storePath = ''s'', dc_dbPath = ''d'',
     dc_clientTcpPort = Some (Fin 7001), dc_clientWsPort = None, dc_clientTcpHost = ''auto'', dc_selfDenyMs = Fin 1200000,
     dc_maxConcurrentSessions = PosInf, dc_replayMaxDevices = None, dc_replayMaxEventsPerDevice = None,
     dc_maxPairedDevices = Fin 50, dc_pushEnabled = False, dc_pushEndpoint = ''e''\<rparr>"

theorem network_exposure_witness:
  "let up = network_listeners example_config (Some ''100.64.0.1\<newline>'')
   in up = [(Tcp_listener, ''100.64.0.1'', Fin 7001)] \<and> (\<exists>h. advertisedAddress example_config up = ''tcp://'' @ h @ '':7001'')"
proof -
  let ?up = "network_listeners example_config (Some ''100.64.0.1\<newline>'')"
  have up: "?up = [(Tcp_listener, ''100.64.0.1'', Fin 7001)]" by code_simp
  have "num_text (Fin 7001) = ''7001''" by (simp add: decimal_int_def decimal.simps) code_simp
  moreover have "dc_clientWsPort example_config = None" "dc_clientTcpPort example_config = Some (Fin 7001)"
    by (simp_all add: example_config_def)
  moreover obtain h where "advertisedAddress example_config ?up =
      (case dc_clientWsPort example_config of
         Some q \<Rightarrow> if (Ws_listener, h, q) \<in> set ?up then ''ws://'' @ h @ '':'' @ num_text q else ''unix://'' @ dc_clientSock example_config
       | None \<Rightarrow> if ?up = [] then ''unix://'' @ dc_clientSock example_config
                 else ''tcp://'' @ h @ '':'' @ num_text (the (dc_clientTcpPort example_config)))"
    using network_exposure [of ?up example_config "Some ''100.64.0.1\<newline>''", OF subset_refl] by blast
  ultimately have "advertisedAddress example_config ?up = ''tcp://'' @ h @ '':7001''"
    unfolding up by (simp del: append.simps)
  then show ?thesis unfolding Let_def using up by blast
qed
end
