(* ===== verification/Sanitize.thy ===== *)
theory Sanitize
  imports Types
begin

text \<open>
  The neutralizer of control characters, \<^verbatim>\<open>packages/protocol/src/sanitize.ts\<close>, and the operator log that
  passes every string argument through it, \<^verbatim>\<open>packages/daemon/src/infrastructure/logger.ts\<close>. A character
  of the model is a code point below 256; the others are never touched by the code.
\<close>

abbreviation char_code :: "char \<Rightarrow> nat" where "char_code c \<equiv> of_char c"

definition hex_char :: "nat \<Rightarrow> char" where
  "hex_char n = ''0123456789abcdef'' ! (n mod 16)"

text \<open>\<^verbatim>\<open>code.toString(16).padStart(2, '0')\<close> for a code below 256.\<close>

definition hex2 :: "nat \<Rightarrow> string" where
  "hex2 n = [hex_char (n div 16), hex_char n]"

definition neutral_char :: "char \<Rightarrow> string" where
  "neutral_char ch =
     (if ch = CHR 0x0A then [CHR 0x5C, CHR ''n'']
      else if ch = CHR 0x0D then [CHR 0x5C, CHR ''r'']
      else if ch = CHR 0x09 then [ch]
      else if char_code ch < 0x20 \<or> char_code ch = 0x7F then [CHR 0x5C, CHR ''x''] @ hex2 (char_code ch)
      else [ch])"

fun neutralizeControlChars :: "string \<Rightarrow> string" where
  "neutralizeControlChars [] = []"
| "neutralizeControlChars (ch # s) = neutral_char ch @ neutralizeControlChars s"

section \<open>The log\<close>

datatype log_arg = Str_arg string | Other_arg json

fun sanitizeLogArg :: "log_arg \<Rightarrow> log_arg" where
  "sanitizeLogArg (Str_arg s) = Str_arg (neutralizeControlChars s)"
| "sanitizeLogArg (Other_arg v) = Other_arg v"

text \<open>What the sink of \<^verbatim>\<open>createLogger\<close> is called with; the first argument is the time stamp.\<close>

definition createLogger :: "string \<Rightarrow> log_arg list \<Rightarrow> log_arg list" where
  "createLogger stamp a = Str_arg stamp # map sanitizeLogArg a"

section \<open>No control characters\<close>

definition control :: "char \<Rightarrow> bool" where
  "control c \<longleftrightarrow> (char_code c < 0x20 \<and> c \<noteq> CHR 0x09) \<or> char_code c = 0x7F"

definition clean :: "string \<Rightarrow> bool" where
  "clean s \<longleftrightarrow> list_all (\<lambda>c. \<not> control c) s"

lemma clean_simps [simp]: "clean []" "clean (c # s) \<longleftrightarrow> \<not> control c \<and> clean s" "clean (s @ t) \<longleftrightarrow> clean s \<and> clean t"
  by (simp_all add: clean_def)

lemma clean_take: "clean s \<Longrightarrow> clean (take n s)"
  by (auto simp: clean_def list_all_iff dest: in_set_takeD)

lemma clean_replicate: "\<not> control c \<Longrightarrow> clean (replicate n c)"
  by (simp add: clean_def list_all_iff)

lemma hex_char_clean: "\<not> control (hex_char n)"
proof -
  have "hex_char n \<in> set ''0123456789abcdef''" unfolding hex_char_def by (rule nth_mem) simp
  then show ?thesis by (auto simp: control_def)
qed

lemma neutral_char_clean: "clean (neutral_char c)"
  by (auto simp: neutral_char_def hex2_def hex_char_clean) (auto simp: control_def)

lemma neutral_char_id: "neutral_char c = [c] \<longleftrightarrow> \<not> control c"
  by (auto simp: neutral_char_def control_def hex2_def)

lemma neutralize_clean [simp]: "clean (neutralizeControlChars s)"
  by (induction s) (simp_all add: neutral_char_clean)

lemma neutral_char_length: "length (neutral_char c) = (if \<not> control c then 1 else if c \<in> {CHR 0x0A, CHR 0x0D} then 2 else 4)"
  by (auto simp: neutral_char_def control_def hex2_def)

lemma neutralize_length: "length s \<le> length (neutralizeControlChars s)"
  by (induction s) (simp_all add: neutral_char_length)

lemma neutralize_id: "clean s \<Longrightarrow> neutralizeControlChars s = s"
  by (induction s) (simp_all add: neutral_char_id)

text \<open>
  The neutralizer returns a single line without control characters (tab apart), leaves exactly the
  strings that have none unchanged, changes nothing when it is applied again, and works character by
  character, so a log or history line built from neutralized parts is one line.
\<close>

theorem neutralize_correct:
  "clean (neutralizeControlChars s)
   \<and> (neutralizeControlChars s = s \<longleftrightarrow> clean s)
   \<and> neutralizeControlChars (neutralizeControlChars s) = neutralizeControlChars s
   \<and> neutralizeControlChars (s @ t) = neutralizeControlChars s @ neutralizeControlChars t"
proof -
  have "neutralizeControlChars (s @ t) = neutralizeControlChars s @ neutralizeControlChars t" by (induction s) simp_all
  moreover have "neutralizeControlChars s = s \<longleftrightarrow> clean s" by (metis neutralize_id neutralize_clean)
  ultimately show ?thesis by (simp add: neutralize_id)
qed

text \<open>
  Every string the log hands to its sink is free of control characters, whatever a peer put into
  it, and values that are no strings reach it as they are. The escape is not injective, so a line may
  not tell a newline from a backslash followed by n, and the control characters above 0x7f, such as
  the one-character escape lead-in 0x9b, are not among those removed.
\<close>

theorem log_lines_unforgeable:
  "(\<forall>s. Str_arg s \<in> set (tl (createLogger stamp a)) \<longrightarrow> clean s)
   \<and> length (createLogger stamp a) = Suc (length a)
   \<and> (\<forall>i < length a. \<forall>v. a ! i = Other_arg v \<longrightarrow> createLogger stamp a ! Suc i = Other_arg v)
   \<and> neutralizeControlChars [CHR 0x0A] = neutralizeControlChars [CHR 0x5C, CHR ''n'']
   \<and> neutralizeControlChars [CHR 0x9B] = [CHR 0x9B]"
proof -
  have "clean s" if "Str_arg s = sanitizeLogArg x" for s x using that by (cases x) simp_all
  then have "\<forall>s. Str_arg s \<in> set (tl (createLogger stamp a)) \<longrightarrow> clean s" by (auto simp: createLogger_def)
  then show ?thesis by (simp add: createLogger_def neutral_char_def)
qed

theorem log_lines_unforgeable_witness:
  "clean (neutralizeControlChars [CHR ''a'', CHR 0x0A, CHR 0x1B])
   \<and> neutralizeControlChars [CHR ''a'', CHR 0x0A, CHR 0x1B] = ''a'' @ [CHR 0x5C] @ ''n'' @ [CHR 0x5C] @ ''x1b''"
  using log_lines_unforgeable [of "''t''" "[Str_arg [CHR ''a'', CHR 0x0A, CHR 0x1B], Other_arg JNull]"]
  by (simp add: createLogger_def) (simp add: neutral_char_def hex2_def hex_char_def)
end
