(* ===== verification/CliRender.thy ===== *)
theory CliRender
  imports Sanitize
begin

text \<open>
  What the CLI prints for an event, \<^verbatim>\<open>render\<close> of \<^verbatim>\<open>packages/cli/src/cc.ts\<close> with its helpers. The result is
  the list of lines handed to \<^verbatim>\<open>console.log\<close> and \<^verbatim>\<open>console.error\<close>. The clock, the conversion of a JSON value
  to a string and the texts of the daemon's errors are fields of an environment.
\<close>

datatype out_line = Log string | Err string

record render_env =
  re_now :: int
  re_str :: "json \<Rightarrow> string"
  re_error :: "error_text \<Rightarrow> string"
  re_job_error :: "job_error \<Rightarrow> string"

text \<open>\<^verbatim>\<open>Math.round(a / b)\<close> rounds halves up.\<close>

definition round_div :: "int \<Rightarrow> int \<Rightarrow> int" where
  "round_div a b = (2 * a + b) div (2 * b)"

definition ago :: "render_env \<Rightarrow> int \<Rightarrow> string" where
  "ago e t = decimal_int (round_div (re_now e - t) 1000) @ ''s ago''"

definition left :: "render_env \<Rightarrow> int \<Rightarrow> string" where
  "left e t = decimal_int (max 0 (round_div (t - re_now e) 60000)) @ ''m left''"

abbreviation safe :: "string \<Rightarrow> string" where "safe \<equiv> neutralizeControlChars"

text \<open>\<^verbatim>\<open>safe(v)\<close> on a JSON value; a nullish one is the empty string.\<close>

fun safe_json :: "render_env \<Rightarrow> json option \<Rightarrow> string" where
  "safe_json e None = []"
| "safe_json e (Some JNull) = []"
| "safe_json e (Some v) = safe (re_str e v)"

definition padEnd :: "nat \<Rightarrow> string \<Rightarrow> string" where
  "padEnd n s = s @ replicate (n - length s) CHR '' ''"

fun BADGE :: "SessionState \<Rightarrow> string" where
  "BADGE Waiting_approval = ''NEEDS YOU''"
| "BADGE Waiting_input = ''NEEDS YOU''"
| "BADGE Working = ''working''"
| "BADGE Idle = ''idle''"
| "BADGE Finished = ''done''"
| "BADGE Errored = ''ERROR''"
| "BADGE Starting = ''starting''"
| "BADGE Ready = ''ready''"

text \<open>
  \<^verbatim>\<open>new Date(t).toISOString().slice(0, 19).replace('T', ' ')\<close>: the proleptic Gregorian date of a
  time in milliseconds. A year outside 0 to 9999 has a sign and six digits.
\<close>

definition digits :: "nat \<Rightarrow> int \<Rightarrow> string" where
  "digits n i = (let s = decimal (nat i) in replicate (n - length s) CHR ''0'' @ s)"

definition civil_date :: "int \<Rightarrow> int \<times> int \<times> int" where
  "civil_date days =
     (let z = days + 719468; era = z div 146097; doe = z mod 146097;
          yoe = (doe - doe div 1460 + doe div 36524 - doe div 146096) div 365;
          doy = doe - (365 * yoe + yoe div 4 - yoe div 100);
          mp = (5 * doy + 2) div 153;
          d = doy - (153 * mp + 2) div 5 + 1;
          m = (if mp < 10 then mp + 3 else mp - 9)
      in (yoe + era * 400 + (if m \<le> 2 then 1 else 0), m, d))"

definition iso_year :: "int \<Rightarrow> string" where
  "iso_year y = (if y < 0 then CHR ''-'' # digits 6 (- y) else if y > 9999 then CHR ''+'' # digits 6 y else digits 4 y)"

definition iso_prefix :: "int \<Rightarrow> string" where
  "iso_prefix t =
     (let (y, m, d) = civil_date (t div 86400000); s = (t mod 86400000) div 1000
      in take 19 (iso_year y @ ''-'' @ digits 2 m @ ''-'' @ digits 2 d @ '' '' @
           digits 2 (s div 3600) @ '':'' @ digits 2 (s div 60 mod 60) @ '':'' @ digits 2 (s mod 60)))"

fun decision_text :: "verdict \<Rightarrow> string" where
  "decision_text Allow = ''allow''"
| "decision_text Deny = ''deny''"

fun decision_upper :: "verdict \<Rightarrow> string" where
  "decision_upper Allow = ''ALLOW''"
| "decision_upper Deny = ''DENY''"

fun job_state_text :: "JobState \<Rightarrow> string" where
  "job_state_text Queued = ''queued''"
| "job_state_text Running = ''running''"
| "job_state_text Done = ''done''"
| "job_state_text Failed = ''failed''"

text \<open>\<^verbatim>\<open>if (a.description)\<close>\<close>

fun truthy :: "json option \<Rightarrow> bool" where
  "truthy None = False"
| "truthy (Some JNull) = False"
| "truthy (Some (JBool b)) = b"
| "truthy (Some (JNum n)) = (n \<noteq> Fin 0 \<and> n \<noteq> NaN)"
| "truthy (Some (JStr s)) = (s \<noteq> [])"
| "truthy (Some _) = True"

definition nl :: string where "nl = [CHR 0x0A]"

definition session_row :: "render_env \<Rightarrow> SessionInfo \<Rightarrow> out_line" where
  "session_row e s = Log (''  '' @ padEnd 10 (BADGE (si_state s)) @ '' '' @ padEnd 18 (safe (si_label s)) @ '' ''
     @ take 8 (si_id s) @ ''  '' @ ago e (si_lastActivityAt s))"

definition history_row :: "ApprovalHistoryEntry \<Rightarrow> out_line" where
  "history_row a = Log (''  '' @ iso_prefix (ah_decidedAt a) @ ''  '' @ padEnd 5 (decision_upper (ah_decision a)) @ '' ''
     @ padEnd 10 (safe (ah_toolName a)) @ '' '' @ safe (ah_decidedBy a)
     @ (if ah_reason a = [] then [] else ''  '' @ [CHR 0x22] @ safe (ah_reason a) @ [CHR 0x22]))"

text \<open>\<^verbatim>\<open>a.toolInput?.command ?? a.toolInput?.file_path ?? ''\<close>\<close>

definition approval_detail :: "PendingApproval \<Rightarrow> json" where
  "approval_detail a = nullish (field ''command'' (Some (pa_toolInput a))) (nullish (field ''file_path'' (Some (pa_toolInput a))) (JStr []))"

definition approval_lines :: "render_env \<Rightarrow> PendingApproval \<Rightarrow> out_line list" where
  "approval_lines e a =
     (let detail = approval_detail a
      in [Log (nl @ ''  APPROVAL NEEDED  '' @ safe (pa_toolName a) @ ''  ['' @ left e (pa_deadlineAt a) @ '']'')]
       @ (if truthy (pa_description a) then [Log (''     '' @ safe_json e (pa_description a))] else [])
       @ (if truthy (Some detail) then [Log (''     '' @ take 120 (safe_json e (Some detail)))] else [])
       @ [Log (''     cc allow '' @ safe (pa_toolUseId a) @ ''   |   cc deny '' @ safe (pa_toolUseId a) @ '' '' @ [CHR 0x22] @ ''reason'' @ [CHR 0x22] @ nl)])"

fun render :: "render_env \<Rightarrow> ServerEvent \<Rightarrow> out_line list" where
  "render e (Session_list ss) = (if ss = [] then [Log ''(no sessions)''] else Log (nl @ ''SESSIONS'') # map (session_row e) ss)"
| "render e (Session_update s) = [Log (''[session] '' @ padEnd 10 (BADGE (si_state s)) @ '' '' @ safe (si_label s) @ '' '' @ take 8 (si_id s)
     @ (if si_pendingApprovals s \<noteq> 0 then ''  ('' @ decimal (si_pendingApprovals s) @ '' pending)'' else []))]"
| "render e (Approval_pending a) = approval_lines e a"
| "render e (Approval_resolved i v who) =
     [Log (''  resolved '' @ take 16 (safe i) @ '' -> '' @ safe (decision_text v) @ '' by '' @ safe who)]"
| "render e (Job_update j) = [Log (''[job] '' @ padEnd 8 (safe (job_state_text (j_state j))) @ '' ''
     @ safe (case j_label j of None \<Rightarrow> j_cwd j | Some l \<Rightarrow> l)
     @ (case j_error j of None \<Rightarrow> [] | Some err \<Rightarrow> if re_job_error e err = [] then [] else ''  '' @ safe (re_job_error e err)))]"
| "render e (Revoked i) = [Log (''  revoked device '' @ safe i)]"
| "render e (Approval_history as) = (if as = [] then [Log ''(no decided approvals yet)'']
     else Log (nl @ ''APPROVAL HISTORY (most recent first)'') # map history_row as)"
| "render e (Error_event t) = [Err (''  error: '' @ safe (re_error e t))]"
| "render e (Stream sid ev) = []"
| "render e (Ack n) = []"

section \<open>One line per record\<close>

fun printed :: "out_line \<Rightarrow> string" where
  "printed (Log s) = s"
| "printed (Err s) = s"

text \<open>A printed line up to the blank lines the layout itself adds around it.\<close>

definition one_line :: "string \<Rightarrow> bool" where
  "one_line s \<longleftrightarrow> (\<exists>a m b. s = a @ m @ b \<and> a \<in> {[], nl} \<and> b \<in> {[], nl} \<and> clean m)"

fun ids_clean :: "ServerEvent \<Rightarrow> bool" where
  "ids_clean (Session_list ss) = list_all (\<lambda>s. clean (take 8 (si_id s))) ss"
| "ids_clean (Session_update s) = clean (take 8 (si_id s))"
| "ids_clean _ = True"

lemma one_lineI: "clean m \<Longrightarrow> one_line m" "clean m \<Longrightarrow> one_line (nl @ m)" "clean m \<Longrightarrow> one_line (m @ nl)"
proof -
  assume m: "clean m"
  have "m = [] @ m @ []" "nl @ m = nl @ m @ []" "m @ nl = [] @ m @ nl" by simp_all
  with m show "one_line m" "one_line (nl @ m)" "one_line (m @ nl)" unfolding one_line_def by blast+
qed

lemma digit_clean: "\<not> control (digit n)"
proof -
  have "char_code (digit n) = 48 + n mod 10" by (rule of_char_digit)
  moreover have "n mod 10 < 10" by simp
  ultimately show ?thesis unfolding control_def by linarith
qed

lemma decimal_clean [simp]: "clean (decimal n)"
proof (induction n rule: decimal.induct)
  case (1 n)
  then show ?case by (subst decimal.simps) (simp add: digit_clean del: digit.simps)
qed

lemma printable [simp]: "\<not> control CHR '' ''" "\<not> control CHR ''-''" "\<not> control CHR ''+''" "\<not> control CHR ''0''"
  by (simp_all add: control_def)

lemma decimal_int_clean [simp]: "clean (decimal_int i)"
  by (simp add: decimal_int_def)

lemma padEnd_clean [simp]: "clean (padEnd n s) \<longleftrightarrow> clean s"
  by (simp add: padEnd_def clean_replicate)

lemma digits_clean [simp]: "clean (digits n i)"
  by (simp add: digits_def Let_def clean_replicate)

lemma BADGE_clean [simp]: "clean (BADGE st)"
  by (cases st) (simp_all add: control_def)

lemma iso_prefix_clean [simp]: "clean (iso_prefix t)"
  by (simp add: iso_prefix_def iso_year_def split_beta Let_def control_def clean_take)

lemma decision_upper_clean [simp]: "clean (decision_upper v)"
  by (cases v) (simp_all add: control_def)

lemma safe_json_clean [simp]: "clean (safe_json e v)"
  by (cases "(e, v)" rule: safe_json.cases) simp_all

lemma layout_clean [simp]: "clean (ago e t)" "clean (left e t)" "clean (take n (safe s))" "clean (take n (safe_json e v))"
  by (simp_all add: ago_def left_def control_def clean_take)

lemma session_row_line: "clean (take 8 (si_id s)) \<Longrightarrow> one_line (printed (session_row e s))"
  unfolding session_row_def by (simp only: printed.simps) (rule one_lineI, simp)

lemma history_row_line: "one_line (printed (history_row a))"
  unfolding history_row_def by (simp only: printed.simps) (rule one_lineI, simp add: control_def)

lemma approval_line: "x \<in> set (approval_lines e a) \<Longrightarrow> one_line (printed x)"
proof -
  assume "x \<in> set (approval_lines e a)"
  then consider m where "printed x = nl @ m" "clean m" | m where "printed x = m" "clean m" | m where "printed x = m @ nl" "clean m"
    unfolding approval_lines_def Let_def by (auto simp: control_def split: if_splits) 
  then show ?thesis by cases (simp_all add: one_lineI)
qed

lemma heading_line: "one_line (nl @ ''SESSIONS'')" "one_line (nl @ ''APPROVAL HISTORY (most recent first)'')"
  by (rule one_lineI, simp add: control_def)+


text \<open>A job whose label tries to forge a history line, at the calendar's leap day.\<close>

definition example_render :: render_env where
  "example_render = \<lparr>re_now = 0, re_str = \<lambda>_. [], re_error = \<lambda>_. [], re_job_error = \<lambda>_. []\<rparr>"


text \<open>
  The id of a session is printed without passing through the neutralizer, so a daemon that
  sends an id with an escape sequence drives the terminal.
\<close>

theorem session_id_not_neutralized:
  "let s = \<lparr>si_id = [CHR 0x1B] @ ''[2J'', si_claudeSessionId = None, si_cwd = [], si_label = ''l'', si_state = Idle, si_model = None,
      si_startedAt = 0, si_lastActivityAt = 0, si_pendingApprovals = 0\<rparr>
   in \<exists>x \<in> set (render example_render (Session_update s)). CHR 0x1B \<in> set (printed x)"
  by (simp add: padEnd_def)
end
