(* ===== verification/CliHost.thy ===== *)
theory CliHost
  imports Client JsNumbers CliRender
begin

text \<open>
  The host of the reliable client in the CLI, \<^verbatim>\<open>runAuthenticated\<close> of \<^verbatim>\<open>packages/cli/src/cc.ts\<close>: the callbacks
  it gives the engine, the events of its socket, and the reconnect timer. A call of \<^verbatim>\<open>process.exit\<close>
  ends the program: the exit code is part of the state and nothing happens after it. An exception that
  nothing catches ends it with code 1. The numbers \<^verbatim>\<open>reserveOutSeq\<close> returns are an argument (\<open>None\<close>: it exits).
\<close>

record 'k cli_conf =
  cf_cmd :: string
  cf_rest :: "string list"
  cf_deviceId :: string
  cf_payload :: "ClientCommand option"
  cf_crypto :: "'k SessionCrypto"
  cf_nextSeq :: "nat \<Rightarrow> int option"
  cf_parse :: "string \<Rightarrow> server_message option option"
  cf_RECONNECT_MAX_ATTEMPTS :: jsnum
  cf_RECONNECT_BASE_MS :: jsnum
  cf_RECONNECT_MAX_DELAY_MS :: jsnum

text \<open>The last two fields record the calls of \<^verbatim>\<open>nextSeq\<close> and the callbacks so far; the code does not read them.\<close>

record 'k cli_host =
  ch_client :: "'k ReliableClient"
  ch_myCmdSeq :: int
  ch_issued :: bool
  ch_everConnected :: bool
  ch_attempt :: nat
  ch_buf :: string
  ch_exit :: "nat option"
  ch_calls :: nat
  ch_seen :: "client_effect list"

datatype host_effect = Rendered ServerEvent | Wrote Outbound | Retry_in jsnum

definition env_number :: "string option \<Rightarrow> rat \<Rightarrow> jsnum" where
  "env_number v d = (case v of None \<Rightarrow> Fin d | Some s \<Rightarrow> if s = [] then Fin d else js_Number s)"

definition isWatch :: "'k cli_conf \<Rightarrow> bool" where "isWatch e \<longleftrightarrow> cf_cmd e = ''watch''"

definition isRead :: "'k cli_conf \<Rightarrow> bool" where "isRead e \<longleftrightarrow> cf_cmd e = ''history''"

definition isWrite :: "'k cli_conf \<Rightarrow> bool" where "isWrite e \<longleftrightarrow> \<not> isWatch e \<and> \<not> isRead e"

definition isRevokeSelf :: "'k cli_conf \<Rightarrow> bool" where
  "isRevokeSelf e \<longleftrightarrow> cf_cmd e = ''revoke'' \<and> (case cf_rest e of [] \<Rightarrow> False | i # _ \<Rightarrow> i = cf_deviceId e)"

definition new_host :: "'k cli_conf \<Rightarrow> 'k cli_host" where
  "new_host e = \<lparr>ch_client = new_client (cf_deviceId e), ch_myCmdSeq = 0, ch_issued = False, ch_everConnected = False,
     ch_attempt = 0, ch_buf = [], ch_exit = None, ch_calls = 0, ch_seen = []\<rparr>"

definition exit_with :: "nat \<Rightarrow> 'k cli_host \<Rightarrow> 'k cli_host" where
  "exit_with n h = h\<lparr>ch_exit := Some n\<rparr>"

section \<open>Callbacks\<close>

text \<open>\<^verbatim>\<open>client.send\<close> with the next reserved number; the number is \<open>None\<close> when the program ends instead.\<close>

definition host_send :: "'k cli_conf \<Rightarrow> ClientCommand \<Rightarrow> bool \<Rightarrow> 'k cli_host \<Rightarrow> int option \<times> 'k cli_host" where
  "host_send e p reliable h =
     (let h1 = h\<lparr>ch_calls := Suc (ch_calls h)\<rparr>
      in case cf_nextSeq e (ch_calls h) of
           None \<Rightarrow> (None, exit_with 1 h1)
         | Some s \<Rightarrow> (case client_send (cf_crypto e) s p reliable (ch_client h) of
             (Inl _, c) \<Rightarrow> (None, exit_with 1 (h1\<lparr>ch_client := c\<rparr>))
           | (Inr _, c) \<Rightarrow> (Some s, h1\<lparr>ch_client := c\<rparr>)))"

definition onReady :: "'k cli_conf \<Rightarrow> 'k cli_host \<Rightarrow> 'k cli_host" where
  "onReady e h =
     (let h1 = h\<lparr>ch_everConnected := True, ch_attempt := 0\<rparr>
      in case cf_payload e of
           None \<Rightarrow> h1
         | Some p \<Rightarrow>
             if isRead e then snd (host_send e p False h1)
             else if isWrite e \<and> \<not> ch_issued h1 then
               (case host_send e p True h1 of
                  (None, h2) \<Rightarrow> h2
                | (Some s, h2) \<Rightarrow> h2\<lparr>ch_myCmdSeq := s, ch_issued := True\<rparr>)
             else h1)"

definition onAck :: "'k cli_conf \<Rightarrow> 'k cli_host \<Rightarrow> 'k cli_host" where
  "onAck e h = (if isWrite e \<and> ch_issued h \<and> lastAcked (ch_client h) \<ge> ch_myCmdSeq h then exit_with 0 h else h)"

definition onEvent :: "'k cli_conf \<Rightarrow> ServerEvent \<Rightarrow> 'k cli_host \<Rightarrow> host_effect list \<times> 'k cli_host" where
  "onEvent e ev h =
     (if isWatch e then ([Rendered ev], h)
      else case ev of
        Error_event _ \<Rightarrow> ([Rendered ev], exit_with 1 h)
      | Approval_history _ \<Rightarrow> if isRead e then ([Rendered ev], exit_with 0 h) else ([], h)
      | Revoked _ \<Rightarrow> if cf_cmd e = ''revoke'' then ([Rendered ev], exit_with 0 h) else ([], h)
      | _ \<Rightarrow> ([], h))"

definition onHelloRejected :: "'k cli_conf \<Rightarrow> 'k cli_host \<Rightarrow> 'k cli_host" where
  "onHelloRejected e h = exit_with (if isRevokeSelf e then 0 else 1) h"

definition callback :: "'k cli_conf \<Rightarrow> client_effect \<Rightarrow> 'k cli_host \<Rightarrow> host_effect list \<times> 'k cli_host" where
  "callback e x h =
     (let h1 = h\<lparr>ch_seen := ch_seen h @ [x]\<rparr>
      in case x of
           Cb_ready resumed n \<Rightarrow> ([], onReady e h1)
         | Cb_event ev seq \<Rightarrow> onEvent e ev h1
         | Cb_ack upTo \<Rightarrow> ([], onAck e h1)
         | Cb_helloRejected \<Rightarrow> ([], onHelloRejected e h1)
         | Cb_authError \<Rightarrow> ([], h1))"

section \<open>The socket\<close>

text \<open>\<^verbatim>\<open>flush\<close>; a program that has ended writes nothing.\<close>

definition host_flush :: "'k cli_host \<Rightarrow> host_effect list \<times> 'k cli_host" where
  "host_flush h = (if ch_exit h \<noteq> None then ([], h)
     else let (os, c) = drain (ch_client h) in (map Wrote os, h\<lparr>ch_client := c\<rparr>))"

text \<open>Every message of the engine has at most one callback, and it is the last thing the call does.\<close>

definition host_message :: "'k cli_conf \<Rightarrow> server_message option \<Rightarrow> 'k cli_host \<Rightarrow> host_effect list \<times> 'k cli_host" where
  "host_message e m h =
     (case onMessage (cf_crypto e) m (ch_client h) of
        Inl _ \<Rightarrow> ([], exit_with 1 h)
      | Inr (es, c) \<Rightarrow>
          (let h1 = h\<lparr>ch_client := c\<rparr>;
               (fs, h2) = (case es of [] \<Rightarrow> ([], h1) | x # _ \<Rightarrow> callback e x h1);
               (gs, h3) = host_flush h2
           in (fs @ gs, h3)))"

fun host_lines :: "'k cli_conf \<Rightarrow> string list \<Rightarrow> 'k cli_host \<Rightarrow> host_effect list \<times> 'k cli_host" where
  "host_lines e [] h = ([], h)"
| "host_lines e (l # ls) h =
     (if ch_exit h \<noteq> None then ([], h)
      else if blank l then host_lines e ls h
      else case cf_parse e l of
             None \<Rightarrow> ([], exit_with 1 h)
           | Some m \<Rightarrow> (let (es, h1) = host_message e m h; (fs, h2) = host_lines e ls h1 in (es @ fs, h2)))"

definition reconnect_delay :: "'k cli_conf \<Rightarrow> nat \<Rightarrow> jsnum" where
  "reconnect_delay e attempt = js_min (js_scale (cf_RECONNECT_BASE_MS e) (attempt - 1)) (cf_RECONNECT_MAX_DELAY_MS e)"

datatype host_input = Sock_connect | Sock_data string | Sock_error | Sock_close | Timer

fun host_event :: "'k cli_conf \<Rightarrow> host_input \<Rightarrow> 'k cli_host \<Rightarrow> host_effect list \<times> 'k cli_host" where
  "host_event e Sock_connect h = host_flush (h\<lparr>ch_client := onOpen (ch_client h)\<rparr>)"
| "host_event e (Sock_data chunk) h =
     (let (ls, rest) = feed_line (ch_buf h) chunk in host_lines e ls (h\<lparr>ch_buf := rest\<rparr>))"
| "host_event e Sock_error h = ([], if \<not> ch_everConnected h then exit_with 1 h else h)"
| "host_event e Sock_close h =
     (let h1 = h\<lparr>ch_client := onClose (ch_client h)\<rparr>
      in if js_geq (Fin (of_nat (ch_attempt h))) (cf_RECONNECT_MAX_ATTEMPTS e) then ([], exit_with 1 h1)
         else ([Retry_in (reconnect_delay e (Suc (ch_attempt h)))], h1\<lparr>ch_attempt := Suc (ch_attempt h)\<rparr>))"
| "host_event e Timer h = ([], h\<lparr>ch_buf := []\<rparr>)"

definition host_step :: "'k cli_conf \<Rightarrow> host_input \<Rightarrow> 'k cli_host \<Rightarrow> host_effect list \<times> 'k cli_host" where
  "host_step e x h = (if ch_exit h \<noteq> None then ([], h) else host_event e x h)"

fun host_run :: "'k cli_conf \<Rightarrow> host_input list \<Rightarrow> 'k cli_host \<Rightarrow> host_effect list \<times> 'k cli_host" where
  "host_run e [] h = ([], h)"
| "host_run e (x # xs) h = (let (es, h1) = host_step e x h; (fs, h2) = host_run e xs h1 in (es @ fs, h2))"

section \<open>One command, sent once\<close>

text \<open>What holds of a program that was started for one reliable command.\<close>

definition host_inv :: "ClientCommand \<Rightarrow> 'k cli_host \<Rightarrow> bool" where
  "host_inv p h \<longleftrightarrow>
     (if ch_issued h then ch_calls h = 1 \<and> 1 \<le> ch_myCmdSeq h
        \<and> (ch_exit h = None \<longrightarrow> pendingCmds (rc_resend (ch_client h)) = [(ch_myCmdSeq h, p)])
        \<and> (ch_exit h = Some 0 \<longleftrightarrow> acked_by (ch_seen h) (ch_myCmdSeq h))
      else ch_calls h \<le> 1 \<and> ch_exit h \<noteq> Some 0 \<and> (\<forall>s. \<not> acked_by (ch_seen h) s)
        \<and> (ch_exit h = None \<longrightarrow> ch_calls h = 0 \<and> rc_key (ch_client h) = None \<and> pendingCmds (rc_resend (ch_client h)) = []))
   \<and> (rc_maxAcked (ch_client h) = 0 \<or> Cb_ack (rc_maxAcked (ch_client h)) \<in> set (ch_seen h))
   \<and> capacity (rc_resend (ch_client h)) = 256"

definition write_conf :: "ClientCommand \<Rightarrow> 'k cli_conf \<Rightarrow> bool" where
  "write_conf p e \<longleftrightarrow> isWrite e \<and> cf_cmd e \<noteq> ''revoke'' \<and> cf_payload e = Some p
     \<and> (\<forall>n s. cf_nextSeq e n = Some s \<longrightarrow> 1 \<le> s)"

lemma flush_inv: "host_inv p (snd (host_flush h)) = host_inv p h"
  by (simp add: host_inv_def host_flush_def drain_def)

lemma host_inv_fields [simp]: "host_inv p (h\<lparr>ch_attempt := n\<rparr>) = host_inv p h" "host_inv p (h\<lparr>ch_buf := b\<rparr>) = host_inv p h"
  by (simp_all add: host_inv_def)

lemma fail_inv: "host_inv p h \<Longrightarrow> ch_exit h = None \<Longrightarrow> n \<noteq> 0 \<Longrightarrow> host_inv p (exit_with n h)"
  by (auto simp: host_inv_def exit_with_def)

lemma seen_inv:
  assumes "host_inv p h" "\<forall>n. x \<noteq> Cb_ack n"
  shows "host_inv p (h\<lparr>ch_seen := ch_seen h @ [x]\<rparr>)"
proof -
  have "acked_by (ch_seen h @ [x]) s = acked_by (ch_seen h) s" for s using assms(2) by (auto simp: acked_by_def)
  with assms(1) show ?thesis by (auto simp: host_inv_def)
qed

lemma client_inv_of:
  assumes "host_inv p h" "rc_resend c = rc_resend (ch_client h)" "rc_maxAcked c = rc_maxAcked (ch_client h)" "rc_key c = rc_key (ch_client h)"
  shows "host_inv p (h\<lparr>ch_client := c\<rparr>)"
  using assms by (auto simp: host_inv_def)

text \<open>The first handshake issues the command.\<close>

lemma ready_inv:
  assumes w: "write_conf p e" and inv: "host_inv p h" "ch_exit h = None" and key: "rc_key (ch_client h) = None"
    and c: "rc_resend c = rc_resend (ch_client h)" "rc_maxAcked c = rc_maxAcked (ch_client h)"
  shows "host_inv p (onReady e (h\<lparr>ch_client := c, ch_seen := ch_seen h @ [Cb_ready r n]\<rparr>))"
proof (cases "ch_issued h")
  case True
  have "acked_by (ch_seen h @ [Cb_ready r n]) s = acked_by (ch_seen h) s" for s by (auto simp: acked_by_def)
  with True inv w c show ?thesis
    by (auto simp: onReady_def write_conf_def host_inv_def isWrite_def)
next
  case False
  have "acked_by (ch_seen h @ [Cb_ready r n]) s = acked_by (ch_seen h) s" for s by (auto simp: acked_by_def)
  with False inv w c show ?thesis
    by (auto simp: onReady_def write_conf_def host_inv_def isWrite_def host_send_def exit_with_def client_send_def
        resend_add_def js_set_def Let_def split: option.splits)
qed

lemma ack_inv:
  assumes "write_conf p e" "host_inv p h" "ch_exit h = None" "rc_key (ch_client h) \<noteq> None"
    and "rc_resend c = ackUpTo n (rc_resend (ch_client h))" "rc_maxAcked c = max (rc_maxAcked (ch_client h)) n"
  shows "host_inv p (onAck e (h\<lparr>ch_client := c, ch_seen := ch_seen h @ [Cb_ack n]\<rparr>))"
  using assms by (auto simp: onAck_def write_conf_def host_inv_def exit_with_def lastAcked_def acked_by_def
      pendingCmds_ackUpTo max_def split: if_splits)

lemma event_inv:
  assumes "write_conf p e" "host_inv p h" "ch_exit h = None"
  shows "host_inv p (snd (onEvent e ev h))"
  using assms fail_inv [of p h] by (cases ev) (auto simp: onEvent_def write_conf_def isWrite_def)

lemma message_inv:
  assumes w: "write_conf p e" and inv: "host_inv p h" "ch_exit h = None"
  shows "host_inv p (snd (host_message e m h))"
proof (cases m)
  case None
  then show ?thesis using fail_inv [OF inv] by (simp add: host_message_def onMessage_def)
next
  case (Some m1)
  have "\<exists>r. onMessage (cf_crypto e) (Some m1) (ch_client h) = Inr r" by (simp add: onMessage_def)
  then obtain es c where r: "onMessage (cf_crypto e) (Some m1) (ch_client h) = Inr (es, c)" by auto
  have goal: "host_inv p (snd (host_message e m h)) = host_inv p (case es of [] \<Rightarrow> h\<lparr>ch_client := c\<rparr> | x # _ \<Rightarrow> snd (callback e x (h\<lparr>ch_client := c\<rparr>)))"
    by (simp add: host_message_def Some r split_beta Let_def flush_inv split: list.split)
  from r show ?thesis unfolding goal
  proof (cases rule: onMessage_cases)
    case (quiet fs)
    then have es: "c = ch_client h" "es \<in> {[], [Cb_helloRejected], [Cb_authError]}" by auto
    have "host_inv p (h\<lparr>ch_seen := ch_seen h @ [x]\<rparr>)" if "x \<in> {Cb_helloRejected, Cb_authError}" for x
      by (rule seen_inv [OF inv(1)]) (use that in auto)
    with es inv w show "host_inv p (case es of [] \<Rightarrow> h\<lparr>ch_client := c\<rparr> | x # _ \<Rightarrow> snd (callback e x (h\<lparr>ch_client := c\<rparr>)))"
      by (auto simp: callback_def onHelloRejected_def isRevokeSelf_def write_conf_def intro!: fail_inv)
  next
    case salt
    then have "es = [Cb_ready (sm_resumed m1) (case sm_replayedCount m1 of None \<Rightarrow> 0 | Some n \<Rightarrow> n)]"
      "rc_resend c = rc_resend (ch_client h)" "rc_maxAcked c = rc_maxAcked (ch_client h)"
      by (simp_all add: onSessionSalt_def Let_def)
    with ready_inv [OF w inv salt(1)] show "host_inv p (case es of [] \<Rightarrow> h\<lparr>ch_client := c\<rparr> | x # _ \<Rightarrow> snd (callback e x (h\<lparr>ch_client := c\<rparr>)))"
      by (simp add: callback_def)
  next
    case (duplicate f)
    with client_inv_of [OF inv(1)] show "host_inv p (case es of [] \<Rightarrow> h\<lparr>ch_client := c\<rparr> | x # _ \<Rightarrow> snd (callback e x (h\<lparr>ch_client := c\<rparr>)))" by simp
  next
    case (delivered k f ev)
    show "host_inv p (case es of [] \<Rightarrow> h\<lparr>ch_client := c\<rparr> | x # _ \<Rightarrow> snd (callback e x (h\<lparr>ch_client := c\<rparr>)))"
    proof (cases "\<exists>n. ev = Ack n")
      case True
      then obtain n where n: "ev = Ack n" by blast
      with delivered have "es = [Cb_ack n]" "rc_resend c = ackUpTo n (rc_resend (ch_client h))"
        "rc_maxAcked c = max (rc_maxAcked (ch_client h)) n" by (simp_all add: deliver_def)
      with ack_inv [OF w inv] delivered(1) show ?thesis by (simp add: callback_def)
    next
      case False
      with delivered have es: "es = [Cb_event ev (fr_seq f)]" "c = (ch_client h)\<lparr>rc_inb := snd (accept (rc_inb (ch_client h)) (fr_seq f))\<rparr>"
        by (cases ev; simp add: deliver_def)+
      have "host_inv p (h\<lparr>ch_client := c\<rparr>)" by (rule client_inv_of [OF inv(1)]) (simp_all add: es)
      from seen_inv [OF this, of "Cb_event ev (fr_seq f)"] event_inv [OF w] inv(2) es(1) show ?thesis
        by (simp add: callback_def)
    qed
  qed
qed

lemma lines_inv: "write_conf p e \<Longrightarrow> host_inv p h \<Longrightarrow> host_inv p (snd (host_lines e ls h))"
  by (induction ls arbitrary: h) (auto simp: split_beta Let_def message_inv fail_inv split: option.split)

lemma step_inv: "write_conf p e \<Longrightarrow> host_inv p h \<Longrightarrow> host_inv p (snd (host_step e x h))"
proof (cases x)
  case Sock_close
  assume w: "write_conf p e" "host_inv p h"
  let ?h = "h\<lparr>ch_client := onClose (ch_client h)\<rparr>"
  have inv: "host_inv p ?h" using w(2) by (auto simp: host_inv_def onClose_def)
  with w fail_inv [OF inv] Sock_close show ?thesis by (simp add: host_step_def Let_def)
next
  case (Sock_data chunk)
  assume w: "write_conf p e" "host_inv p h"
  with Sock_data show ?thesis by (simp add: host_step_def split_beta Let_def lines_inv)
next
  case Sock_connect
  assume w: "write_conf p e" "host_inv p h"
  have "host_inv p (h\<lparr>ch_client := onOpen (ch_client h)\<rparr>)"
    by (rule client_inv_of [OF w(2)]) (simp_all add: onOpen_def)
  with w Sock_connect show ?thesis by (simp add: host_step_def flush_inv)
next
  case Timer
  assume "host_inv p h"
  with Timer show ?thesis by (simp add: host_step_def)
qed (simp add: host_step_def fail_inv)

lemma run_inv: "write_conf p e \<Longrightarrow> host_inv p h \<Longrightarrow> host_inv p (snd (host_run e xs h))"
  by (induction xs arbitrary: h) (simp_all add: split_beta Let_def step_inv)

lemma new_host_inv: "host_inv p (new_host e)"
  by (simp add: host_inv_def new_host_def new_client_def new_resend_def resend_default_capacity_def)


section \<open>Reconnecting\<close>

fun closes :: "host_input list \<Rightarrow> nat" where
  "closes [] = 0"
| "closes (Sock_close # xs) = Suc (closes xs)"
| "closes (_ # xs) = closes xs"

text \<open>No data arrives: the daemon is away, and the socket fails, closes and is opened again.\<close>

fun no_data :: "host_input \<Rightarrow> bool" where
  "no_data (Sock_data _) = False"
| "no_data _ = True"

lemma exited_stays: "ch_exit h \<noteq> None \<Longrightarrow> host_run e xs h = ([], h)"
  by (induction xs) (simp_all add: host_step_def)

lemma away_step:
  assumes "no_data x" "ch_everConnected h" "ch_exit h = None"
  shows "x \<noteq> Sock_close \<Longrightarrow> ch_exit (snd (host_step e x h)) = None \<and> ch_attempt (snd (host_step e x h)) = ch_attempt h"
    and "ch_everConnected (snd (host_step e x h))"
  using assms by (cases x; simp add: host_step_def host_flush_def drain_def exit_with_def Let_def)+

fun retries :: "host_effect list \<Rightarrow> jsnum list" where
  "retries [] = []"
| "retries (Retry_in d # xs) = d # retries xs"
| "retries (_ # xs) = retries xs"

lemma retries_append [simp]: "retries (xs @ ys) = retries xs @ retries ys" "retries (map Wrote os) = []"
  by (induction xs rule: retries.induct) (simp_all, induction os, simp_all)

lemma away_quiet: "no_data x \<Longrightarrow> x \<noteq> Sock_close \<Longrightarrow> retries (fst (host_step e x h)) = []"
  by (cases x) (simp_all add: host_step_def host_flush_def drain_def)

text \<open>A bound on the attempts that lets the current one pass, and one that does not.\<close>

lemma close_retries:
  assumes "ch_exit h = None" "\<not> js_geq (Fin (of_nat (ch_attempt h))) (cf_RECONNECT_MAX_ATTEMPTS e)"
  shows "ch_exit (snd (host_step e Sock_close h)) = None" "ch_attempt (snd (host_step e Sock_close h)) = Suc (ch_attempt h)"
    "retries (fst (host_step e Sock_close h)) = [reconnect_delay e (Suc (ch_attempt h))]"
  using assms by (simp_all add: host_step_def Let_def)

lemma close_exits:
  assumes "ch_exit h = None" "js_geq (Fin (of_nat (ch_attempt h))) (cf_RECONNECT_MAX_ATTEMPTS e)"
  shows "ch_exit (snd (host_step e Sock_close h)) = Some 1" "retries (fst (host_step e Sock_close h)) = []"
  using assms by (simp_all add: host_step_def exit_with_def Let_def)

text \<open>
  C36: Once connected, a program whose daemon is away retries exactly the configured number of times
  since the last handshake, each time after the next delay, and then ends with code 1: it neither
  gives up early nor hangs.
\<close>

theorem reconnect_gives_up:
  assumes "list_all no_data xs" "ch_everConnected h" "ch_exit h = None" "ch_attempt h \<le> n"
    "cf_RECONNECT_MAX_ATTEMPTS e = Fin (of_nat n)"
  shows "ch_exit (snd (host_run e xs h)) = (if closes xs \<le> n - ch_attempt h then None else Some 1)
    \<and> retries (fst (host_run e xs h)) = map (reconnect_delay e) [Suc (ch_attempt h)..<Suc (min n (ch_attempt h + closes xs))]"
  using assms(1-4)
proof (induction xs arbitrary: h)
  case (Cons x xs)
  let ?h = "snd (host_step e x h)"
  show ?case
  proof (cases "x = Sock_close")
    case True
    show ?thesis
    proof (cases "ch_attempt h = n")
      case at: True
      with Cons.prems assms(5) close_exits [of h e] True show ?thesis
        by (simp add: js_geq_def split_beta Let_def exited_stays)
    next
      case False
      then have less: "\<not> js_geq (Fin (of_nat (ch_attempt h))) (cf_RECONNECT_MAX_ATTEMPTS e)"
        using Cons.prems assms(5) by (simp add: js_geq_def)
      note c = close_retries [OF Cons.prems(3) less]
      have "ch_everConnected ?h" using Cons.prems away_step(2) [of x h e] by simp
      moreover have "[Suc (ch_attempt h)..<Suc (min n (ch_attempt h + Suc (closes xs)))] =
          Suc (ch_attempt h) # [Suc (Suc (ch_attempt h))..<Suc (min n (Suc (ch_attempt h) + closes xs))]"
        using False Cons.prems(4) by (subst upt_conv_Cons) simp_all
      moreover have "Suc (closes xs) \<le> n - ch_attempt h \<longleftrightarrow> closes xs \<le> n - Suc (ch_attempt h)"
        using False Cons.prems(4) by linarith
      ultimately show ?thesis
        using Cons.IH [of ?h] Cons.prems False True c by (simp add: split_beta Let_def del: upt_Suc)
    qed
  next
    case False
    then have "closes (x # xs) = closes xs" by (cases x) simp_all
    with Cons False away_step [of x h e] away_quiet [of x e h] show ?thesis by (simp add: split_beta Let_def)
  qed
qed simp

text \<open>A command, a peer that accepts everything, and the lines that stand for its messages.\<close>

definition example_salt :: server_message where
  "example_salt = \<lparr>sm_type = Some ''session_salt'', sm_salt = ''s'', sm_resumed = False, sm_replayedCount = None, sm_frame = None\<rparr>"

definition example_ack :: server_message where
  "example_ack = \<lparr>sm_type = None, sm_salt = [], sm_resumed = False, sm_replayedCount = None,
     sm_frame = Some \<lparr>fr_n = [], fr_c = [], fr_t = [], fr_seq = 1\<rparr>\<rparr>"

definition example_conf :: "unit cli_conf" where
  "example_conf = \<lparr>cf_cmd = ''interrupt'', cf_rest = [''s1''], cf_deviceId = ''d1'', cf_payload = Some (Interrupt ''s1''),
     cf_crypto = \<lparr>sc_deriveKey = \<lambda>_. (), sc_seal = \<lambda>n k s c d. \<lparr>fr_n = [], fr_c = [], fr_t = [], fr_seq = s\<rparr>,
       sc_open = \<lambda>k f d. Some (Ack 7)\<rparr>,
     cf_nextSeq = \<lambda>_. Some 7,
     cf_parse = (\<lambda>l. if l = ''s'' then Some (Some example_salt) else if l = ''a'' then Some (Some example_ack) else None),
     cf_RECONNECT_MAX_ATTEMPTS = Fin 2, cf_RECONNECT_BASE_MS = Fin 1000, cf_RECONNECT_MAX_DELAY_MS = Fin 1500\<rparr>"

lemma example_conf_write: "write_conf (Interrupt ''s1'') example_conf"
  by (simp add: write_conf_def example_conf_def isWrite_def isWatch_def isRead_def)


theorem reconnect_gives_up_witness:
  "let h = (new_host example_conf)\<lparr>ch_everConnected := True\<rparr>; xs = [Sock_close, Timer, Sock_error, Sock_close, Timer, Sock_close]
   in ch_exit (snd (host_run example_conf xs h)) = Some 1
      \<and> retries (fst (host_run example_conf xs h)) = [Fin 1000, Fin 1500]"
proof -
  let ?h = "(new_host example_conf)\<lparr>ch_everConnected := True\<rparr>"
  have d: "reconnect_delay example_conf 1 = Fin 1000" "reconnect_delay example_conf (Suc (Suc 0)) = Fin 1500"
    by (simp_all add: reconnect_delay_def example_conf_def js_min_def to_double_def)
  have "ch_everConnected ?h" "ch_exit ?h = None" "ch_attempt ?h \<le> 2" "cf_RECONNECT_MAX_ATTEMPTS example_conf = Fin (of_nat 2)"
    "ch_attempt ?h = 0" by (simp_all add: new_host_def example_conf_def)
  with reconnect_gives_up [of "[Sock_close, Timer, Sock_error, Sock_close, Timer, Sock_close]" ?h 2 example_conf] d
  show ?thesis by (simp add: upt_conv_Cons)
qed

text \<open>
  A limit that is no number disables the limit: \<^verbatim>\<open>CC_RECONNECT_MAX_ATTEMPTS=ten\<close> is read as \<open>NaN\<close>, every
  comparison with it is false, and a program whose daemon is away never ends.
\<close>

theorem unreadable_limit_never_gives_up:
  assumes "list_all no_data xs" "ch_everConnected h" "ch_exit h = None"
    "cf_RECONNECT_MAX_ATTEMPTS e = env_number (Some ''ten'') 10"
  shows "ch_exit (snd (host_run e xs h)) = None \<and> length (retries (fst (host_run e xs h))) = closes xs"
proof -
  have "cf_RECONNECT_MAX_ATTEMPTS e = NaN" unfolding assms(4)
    by (simp add: env_number_def js_Number_def js_trim_def js_space_def signed_part_def radix_literal_def unsigned_decimal_def is_digit_def)
  then have ok: "\<not> js_geq a (cf_RECONNECT_MAX_ATTEMPTS e)" for a by (simp add: js_geq_def)
  show ?thesis using assms(1-3)
  proof (induction xs arbitrary: h)
    case (Cons x xs)
    let ?h = "snd (host_step e x h)"
    have ever: "ch_everConnected ?h" using Cons.prems away_step(2) [of x h e] by simp
    show ?case
    proof (cases "x = Sock_close")
      case True
      with Cons.IH [OF _ ever] Cons.prems close_retries [OF Cons.prems(3) ok] show ?thesis by (simp add: split_beta Let_def)
    next
      case False
      then have "closes (x # xs) = closes xs" by (cases x) simp_all
      with Cons.IH [OF _ ever] Cons.prems False away_step [of x h e] away_quiet [of x e h] show ?thesis by (simp add: split_beta Let_def)
    qed
  qed simp
qed

theorem unreadable_limit_never_gives_up_witness:
  "let h = (new_host (example_conf\<lparr>cf_RECONNECT_MAX_ATTEMPTS := env_number (Some ''ten'') 10\<rparr>))\<lparr>ch_everConnected := True\<rparr>
   in ch_exit (snd (host_run (example_conf\<lparr>cf_RECONNECT_MAX_ATTEMPTS := env_number (Some ''ten'') 10\<rparr>) (replicate 1000 Sock_close) h)) = None"
proof -
  have "list_all no_data (replicate 1000 Sock_close)" by (simp add: list_all_iff)
  then show ?thesis unfolding Let_def
    by (rule unreadable_limit_never_gives_up [THEN conjunct1]) (simp_all add: new_host_def)
qed
end
