(* ===== verification/PairClient.thy ===== *)
theory PairClient
  imports Pairing Crypto Client JsNumbers DeviceStore CliRender
begin

text \<open>
  The client side of pairing: the pairing code as a token, \<^verbatim>\<open>packages/cli/src/pairing.ts\<close>, the flows of
  \<^verbatim>\<open>cc pair\<close>, \<^verbatim>\<open>cc pair-code\<close> and \<^verbatim>\<open>CC_PAIR_CODE\<close> in \<^verbatim>\<open>packages/cli/src/cc.ts\<close>, and those of the app,
  \<^verbatim>\<open>apps/mobile/src/core/protocol/pairing.ts\<close> and \<^verbatim>\<open>sessionCrypto.ts\<close>. A text is the list of its bytes in
  UTF-8. Key generation and the keyed hash are arguments; so are the parses of a line and of the payload.
\<close>

section \<open>The code as a token\<close>

definition text_bytes :: "string \<Rightarrow> byte list" where
  "text_bytes s = map (\<lambda>c. of_nat (of_char c)) s"

definition bytes_text :: "byte list \<Rightarrow> string" where
  "bytes_text bs = map (\<lambda>b. char_of (unat b)) bs"

definition url_char :: "char \<Rightarrow> char" where
  "url_char c = (if c = CHR ''+'' then CHR ''-'' else if c = CHR ''/'' then CHR ''_'' else c)"

definition standard_char :: "char \<Rightarrow> char" where
  "standard_char c = (if c = CHR ''-'' then CHR ''+'' else if c = CHR ''_'' then CHR ''/'' else c)"

text \<open>\<^verbatim>\<open>Buffer.from(qrJson, 'utf8').toString('base64url')\<close>: the other two characters, no padding.\<close>

definition encodePairCode :: "string \<Rightarrow> string" where
  "encodePairCode qrJson = map url_char (filter (\<lambda>c. c \<noteq> CHR ''='') (toBase64 (text_bytes qrJson)))"

text \<open>\<^verbatim>\<open>Buffer.from(s, 'base64url')\<close> takes both alphabets, skips other characters and stops at padding.\<close>

definition node_fromBase64url :: "string \<Rightarrow> byte list" where
  "node_fromBase64url s = decode_loop 0 0 (filter (\<lambda>c. c \<in> set B64) (map standard_char (takeWhile (\<lambda>c. c \<noteq> CHR ''='') s)))"

definition decodePairCode :: "(string \<Rightarrow> json option) \<Rightarrow> string \<Rightarrow> payload_error + json" where
  "decodePairCode parse code = parsePairPayload (parse (bytes_text (node_fromBase64url (js_trim code))))"

definition mobile_decodePairCode :: "(string \<Rightarrow> json option) \<Rightarrow> string \<Rightarrow> payload_error + json" where
  "mobile_decodePairCode parse code = parsePairPayload (parse (bytes_text (fromBase64 (map standard_char (js_trim code)))))"

lemma bytes_text_inverse [simp]: "bytes_text (text_bytes s) = s"
proof -
  have "char_of (unat (of_nat (of_char c) :: byte)) = c" for c :: char
    by (simp add: unat_of_nat of_char_mod_256)
  then show ?thesis by (simp add: bytes_text_def text_bytes_def o_def)
qed

lemma url_char_inverse: "c \<in> set B64 \<or> c = CHR ''='' \<Longrightarrow> standard_char (url_char c) = c"
  by (auto simp: B64_def url_char_def standard_char_def)

lemma toBase64_chars: "c \<in> set (toBase64 bs) \<Longrightarrow> c \<in> set B64 \<or> c = CHR ''=''"
proof -
  have "list_all (\<lambda>c. c \<in> set B64 \<or> c = CHR ''='') (toBase64 bs)"
    by (induction bs rule: toBase64.induct) (simp_all only: toBase64.simps list.pred_inject list_all_append append.simps in_B64 six_bits simp_thms)
  then show "c \<in> set (toBase64 bs) \<Longrightarrow> c \<in> set B64 \<or> c = CHR ''=''" by (simp add: list_all_iff)
qed


lemma clean_no_pad: "Crypto.clean (filter (\<lambda>c. c \<noteq> CHR ''='') s) = Crypto.clean s"
  using pad_not_B64 unfolding Crypto.clean_def by (induction s) auto

lemma code_standard: "map standard_char (encodePairCode q) = filter (\<lambda>c. c \<noteq> CHR ''='') (toBase64 (text_bytes q))"
proof -
  have "(standard_char \<circ> url_char) c = c" if "c \<in> set (filter (\<lambda>c. c \<noteq> CHR ''='') (toBase64 (text_bytes q)))" for c
  proof -
    from that have "c \<in> set (toBase64 (text_bytes q))" by simp
    from url_char_inverse [OF toBase64_chars [OF this]] show ?thesis by simp
  qed
  then show ?thesis unfolding encodePairCode_def map_map by (intro map_idI)
qed

lemma code_chars: "c \<in> set (encodePairCode q) \<Longrightarrow> c \<noteq> CHR ''='' \<and> \<not> js_space c"
proof -
  assume "c \<in> set (encodePairCode q)"
  then obtain d where d: "d \<in> set (toBase64 (text_bytes q))" "d \<noteq> CHR ''=''" "c = url_char d"
    by (auto simp: encodePairCode_def)
  with toBase64_chars [OF d(1)] have "d \<in> set B64" "c = url_char d" by blast+
  then show ?thesis by (auto simp: B64_def url_char_def js_space_def)
qed

lemma js_trim_code:
  assumes "list_all js_space a" "list_all js_space b"
  shows "js_trim (a @ encodePairCode q @ b) = encodePairCode q"
proof -
  let ?e = "encodePairCode q"
  have e: "\<not> list_ex js_space ?e" using code_chars by (auto simp: list_ex_iff)
  have drop: "dropWhile js_space (c @ d) = d" if "list_all js_space c" "\<not> list_ex js_space d" for c d
    using that by (induction c) (cases d, auto)
  have "dropWhile js_space (a @ ?e @ b) = (if ?e = [] then [] else ?e @ b)"
  proof (cases "?e = []")
    case True
    have "list_all js_space (a @ b)" using assms by simp
    then show ?thesis using True by (simp add: list_all_iff)
  next
    case False
    then obtain x xs where x: "?e = x # xs" "\<not> js_space x" using e by (cases ?e) auto
    have "dropWhile js_space (a @ x # ys) = x # ys" for ys using assms(1) x(2) by (induction a) auto
    then show ?thesis by (simp add: x(1))
  qed
  moreover have "dropWhile js_space (rev b @ rev ?e) = rev ?e" using drop [of "rev b" "rev ?e"] assms(2) e by (simp add: list_ex_iff)
  ultimately show ?thesis by (simp add: js_trim_def)
qed

lemma pair_code_decodes:
  assumes "list_all js_space a" "list_all js_space b"
  shows "decodePairCode parse (a @ encodePairCode q @ b) = parsePairPayload (parse q)
    \<and> mobile_decodePairCode parse (a @ encodePairCode q @ b) = parsePairPayload (parse q)"
proof -
  have t: "takeWhile (\<lambda>c. c \<noteq> CHR ''='') (encodePairCode q) = encodePairCode q"
    using code_chars by (simp add: takeWhile_eq_all_conv)
  have "decode_loop 0 0 (Crypto.clean (map standard_char (encodePairCode q))) = text_bytes q"
    unfolding code_standard clean_no_pad by (rule decode_toBase64)
  then have "node_fromBase64url (encodePairCode q) = text_bytes q" "fromBase64 (map standard_char (encodePairCode q)) = text_bytes q"
    unfolding node_fromBase64url_def t fromBase64_eq by (simp_all add: Crypto.clean_def)
  then show ?thesis by (simp add: decodePairCode_def mobile_decodePairCode_def js_trim_code [OF assms])
qed

text \<open>
  The pairing code is a lossless token for any payload text: both decoders, the one of the CLI and
  the one of the app, recover the text from it, also with white space pasted around it, and then
  check the same fields; so they accept the same codes of a daemon and reject the same ones.
\<close>

theorem pair_code_roundtrip:
  assumes "list_all js_space a" "list_all js_space b"
  shows "decodePairCode parse (a @ encodePairCode q @ b) = parsePairPayload (parse q)
    \<and> mobile_decodePairCode parse (a @ encodePairCode q @ b) = parsePairPayload (parse q)"
  using assms by (rule pair_code_decodes)

theorem pair_code_roundtrip_witness:
  "decodePairCode (\<lambda>_. Some JNull) ('' '' @ encodePairCode ''{}'' @ [CHR 0x0A]) = parsePairPayload (Some JNull)
    \<and> mobile_decodePairCode (\<lambda>_. Some JNull) ('' '' @ encodePairCode ''{}'' @ [CHR 0x0A]) = parsePairPayload (Some JNull)"
  using pair_code_roundtrip [of "'' ''" "[CHR 0x0A]" "\<lambda>_. Some JNull" "''{}''"] by (simp add: js_space_def)

section \<open>The flows of the CLI\<close>

text \<open>\<^verbatim>\<open>sendCompletePair\<close>\<close>

definition sendCompletePair :: "(string \<Rightarrow> string \<Rightarrow> string) \<Rightarrow> string \<Rightarrow> string \<Rightarrow> string \<Rightarrow> string \<Rightarrow> UnauthClientMessage" where
  "sendCompletePair hmac who secret devicePublicKeyB64 daemonPubB64 =
     Complete_pair devicePublicKeyB64 (Some who) (pairingProof hmac secret devicePublicKeyB64 daemonPubB64)"

text \<open>The record \<^verbatim>\<open>savePairedDevice\<close> writes.\<close>

definition savePairedDevice :: "string \<Rightarrow> string \<Rightarrow> string \<Rightarrow> string \<Rightarrow> DeviceRecord" where
  "savePairedDevice deviceId privateKey devicePublicKeyB64 daemonPubB64 =
     \<lparr>dr_deviceId = deviceId, dr_devicePrivateKey = privateKey, dr_devicePublicKey = devicePublicKeyB64,
      dr_daemonPublicKey = daemonPubB64, dr_outSeq = None\<rparr>"

record pair_env =
  pe_hmac :: "string \<Rightarrow> string \<Rightarrow> string"
  pe_who :: string
  pe_private :: string                       \<comment> \<open>the keys generated for this run\<close>
  pe_public :: string
  pe_line :: "string \<Rightarrow> UnauthServerMessage option option"  \<comment> \<open>\<open>None\<close>: the line does not parse; \<open>Some None\<close>: another message\<close>
  pe_qr :: "string \<Rightarrow> PairPayload option"

record pair_state =
  ps_buf :: string
  ps_daemonPub :: string
  ps_sent :: "UnauthClientMessage list"
  ps_saved :: "DeviceRecord option"
  ps_exit :: "nat option"

text \<open>The state once connected: \<^verbatim>\<open>runPair\<close> asks for a secret, \<^verbatim>\<open>runPairFromCode\<close> has one.\<close>

definition runPair :: pair_state where
  "runPair = \<lparr>ps_buf = [], ps_daemonPub = [], ps_sent = [Begin_pair], ps_saved = None, ps_exit = None\<rparr>"

definition runPairFromCode :: "pair_env \<Rightarrow> PairPayload \<Rightarrow> pair_state" where
  "runPairFromCode e p = \<lparr>ps_buf = [], ps_daemonPub = pp_pk p,
     ps_sent = [sendCompletePair (pe_hmac e) (pe_who e) (pp_s p) (pe_public e) (pp_pk p)], ps_saved = None, ps_exit = None\<rparr>"

text \<open>One message; the flag says whether a \<^verbatim>\<open>pair_qr\<close> is answered (\<^verbatim>\<open>runPair\<close>) or ignored (\<^verbatim>\<open>runPairFromCode\<close>).\<close>

fun pair_message :: "pair_env \<Rightarrow> bool \<Rightarrow> UnauthServerMessage \<Rightarrow> pair_state \<Rightarrow> pair_state" where
  "pair_message e answers (Pair_qr qr expiresAt) s =
     (if \<not> answers then s
      else case pe_qr e qr of
        None \<Rightarrow> s\<lparr>ps_exit := Some 1\<rparr>
      | Some p \<Rightarrow> s\<lparr>ps_daemonPub := pp_pk p,
          ps_sent := ps_sent s @ [sendCompletePair (pe_hmac e) (pe_who e) (pp_s p) (pe_public e) (pp_pk p)]\<rparr>)"
| "pair_message e answers (Paired deviceId daemonPublicKey) s =
     s\<lparr>ps_saved := Some (savePairedDevice deviceId (pe_private e) (pe_public e) (ps_daemonPub s)), ps_exit := Some 0\<rparr>"
| "pair_message e answers Pair_failed s = s\<lparr>ps_exit := Some 1\<rparr>"
| "pair_message e answers _ s = s"

fun pair_lines :: "pair_env \<Rightarrow> bool \<Rightarrow> string list \<Rightarrow> pair_state \<Rightarrow> pair_state" where
  "pair_lines e answers [] s = s"
| "pair_lines e answers (l # ls) s =
     (if ps_exit s \<noteq> None then s
      else if blank l then pair_lines e answers ls s
      else case pe_line e l of
             None \<Rightarrow> s\<lparr>ps_exit := Some 1\<rparr>
           | Some None \<Rightarrow> pair_lines e answers ls s
           | Some (Some m) \<Rightarrow> pair_lines e answers ls (pair_message e answers m s))"

definition pair_data :: "pair_env \<Rightarrow> bool \<Rightarrow> string \<Rightarrow> pair_state \<Rightarrow> pair_state" where
  "pair_data e answers chunk s =
     (if ps_exit s \<noteq> None then s
      else let (ls, rest) = feed_line (ps_buf s) chunk in pair_lines e answers ls (s\<lparr>ps_buf := rest\<rparr>))"


text \<open>
  The target of \<^verbatim>\<open>runPairFromCode\<close>: \<^verbatim>\<open>CC_CLIENT_TCP_ADDR\<close> or the address of the code; host and port are split
  at the last colon. \<^verbatim>\<open>slice(0, -1)\<close>, which a missing colon leads to, drops the last character.
\<close>

definition pair_target :: "string option \<Rightarrow> string \<Rightarrow> string option" where
  "pair_target override addr = (case override of
     None \<Rightarrow> tcpTargetFromAddr addr
   | Some t \<Rightarrow> if t = [] then tcpTargetFromAddr addr else Some t)"

definition lastIndexOf :: "char \<Rightarrow> string \<Rightarrow> nat option" where
  "lastIndexOf c s = (if c \<in> set s then Some (length s - 1 - length (takeWhile (\<lambda>d. d \<noteq> c) (rev s))) else None)"

definition split_target :: "string \<Rightarrow> string \<times> jsnum" where
  "split_target t = (case lastIndexOf CHR '':'' t of
     None \<Rightarrow> (take (length t - 1) t, js_Number t)
   | Some i \<Rightarrow> (take i t, js_Number (drop (Suc i) t)))"

text \<open>\<^verbatim>\<open>connectToDaemon\<close>: the local socket, a host and port, or an exit with 1.\<close>

datatype connect_to = Local_socket string | Host_port string jsnum | Exit_usage

definition connectToDaemon :: "string option \<Rightarrow> string \<Rightarrow> connect_to" where
  "connectToDaemon tcpAddr sock = (case tcpAddr of
     None \<Rightarrow> Local_socket sock
   | Some t \<Rightarrow> if t = [] then Local_socket sock
       else case lastIndexOf CHR '':'' t of
         None \<Rightarrow> Exit_usage
       | Some i \<Rightarrow> Host_port (take i t) (js_Number (drop (Suc i) t)))"

text \<open>
  \<^verbatim>\<open>beginPairLocal\<close> always asks the local daemon for a secret; what it hands to \<^verbatim>\<open>render\<close> is the payload, its
  code, and the target.
\<close>

type_synonym pair_info = "PairPayload \<times> string \<times> string option"

record local_state =
  lc_buf :: string
  lc_info :: "pair_info option"
  lc_exit :: "nat option"

fun local_message :: "pair_env \<Rightarrow> UnauthServerMessage \<Rightarrow> local_state \<Rightarrow> local_state" where
  "local_message e (Pair_qr qr expiresAt) s = (case pe_qr e qr of
      None \<Rightarrow> s\<lparr>lc_exit := Some 1\<rparr>
    | Some p \<Rightarrow> s\<lparr>lc_info := Some (p, encodePairCode qr, tcpTargetFromAddr (pp_addr p)), lc_exit := Some 0\<rparr>)"
| "local_message e Pair_failed s = s\<lparr>lc_exit := Some 1\<rparr>"
| "local_message e _ s = s"

fun local_lines :: "pair_env \<Rightarrow> string list \<Rightarrow> local_state \<Rightarrow> local_state" where
  "local_lines e [] s = s"
| "local_lines e (l # ls) s =
     (if lc_exit s \<noteq> None then s
      else if blank l then local_lines e ls s
      else case pe_line e l of
             None \<Rightarrow> s\<lparr>lc_exit := Some 1\<rparr>
           | Some None \<Rightarrow> local_lines e ls s
           | Some (Some m) \<Rightarrow> local_lines e ls (local_message e m s))"

definition beginPairLocal :: "pair_env \<Rightarrow> string \<Rightarrow> local_state \<Rightarrow> local_state" where
  "beginPairLocal e chunk s =
     (if lc_exit s \<noteq> None then s
      else let (ls, rest) = feed_line (lc_buf s) chunk in local_lines e ls (s\<lparr>lc_buf := rest\<rparr>))"

text \<open>What \<^verbatim>\<open>cc pair-code\<close> prints, and where.\<close>

definition quoted :: "string \<Rightarrow> string" where
  "quoted s = [CHR 0x27] @ s @ [CHR 0x27]"

definition runPairCode :: "pair_info \<Rightarrow> out_line list" where
  "runPairCode info = (case info of (qr, code, target) \<Rightarrow>
     [Log (nl @ ''Pairing code (one use, valid ~3 minutes):'' @ nl), Log (''  '' @ code @ nl)] @
     (case target of
        Some t \<Rightarrow> [Log (''On the SECOND machine, run:'' @ nl), Log (''  CC_PAIR_CODE='' @ quoted code @ '' cc pair'' @ nl),
           Log (''Then reach the daemon from there with:  CC_CLIENT_TCP_ADDR='' @ t @ '' cc <command>'' @ nl)]
      | None \<Rightarrow> [Err (''WARNING: the daemon advertises '' @ pp_addr qr @ '', not a tcp:// address, so a second '' @
           ''machine cannot reach it. Set CC_CLIENT_TCP_PORT on the daemon to enable remote pairing.'')]))"

section \<open>The app\<close>

record MobileDeviceRecord =
  md_deviceId :: string
  md_devicePrivateKey :: string
  md_devicePublicKey :: string
  md_daemonPublicKey :: string
  md_daemonAddress :: string

text \<open>The regular expression \<^verbatim>\<open>/^wss?:\/\/.+/\<close>.\<close>

definition wsUrlFromAddr :: "string \<Rightarrow> string option" where
  "wsUrlFromAddr addr =
     (let after = (if take 5 addr = ''ws://'' then drop 5 addr else if take 6 addr = ''wss://'' then drop 6 addr else [])
      in case after of [] \<Rightarrow> None | c # _ \<Rightarrow> if c \<in> {CHR 0x0A, CHR 0x0D} then None else Some addr)"

record PairingAttempt =
  at_target :: "string option"
  at_privateKey :: "byte list"
  at_publicKey :: "byte list"
  at_completePair :: UnauthClientMessage

definition startPairing :: "(string \<Rightarrow> string \<Rightarrow> byte list) \<Rightarrow> byte list \<times> byte list \<Rightarrow> PairPayload \<Rightarrow> string \<Rightarrow> PairingAttempt" where
  "startPairing hmac keys payload deviceName =
     (let devicePublicKeyB64 = spkiPublicKeyB64 (snd keys);
          pf = rn_pairingProof hmac (pp_s payload) devicePublicKeyB64 (pp_pk payload)
      in \<lparr>at_target = wsUrlFromAddr (pp_addr payload), at_privateKey = fst keys, at_publicKey = snd keys,
          at_completePair = Complete_pair devicePublicKeyB64 (Some deviceName) pf\<rparr>)"

fun complete_key :: "UnauthClientMessage \<Rightarrow> string" where
  "complete_key (Complete_pair pk name pf) = pk"
| "complete_key _ = []"

text \<open>\<open>Inl\<close> is the error of a daemon that advertises no WebSocket address (an empty target is falsy, too).\<close>

definition deviceRecordFromPaired :: "string \<Rightarrow> PairingAttempt \<Rightarrow> PairPayload \<Rightarrow> unit + MobileDeviceRecord" where
  "deviceRecordFromPaired deviceId attempt payload =
     (case at_target attempt of
        None \<Rightarrow> Inl ()
      | Some t \<Rightarrow> Inr \<lparr>md_deviceId = deviceId, md_devicePrivateKey = toBase64 (at_privateKey attempt),
          md_devicePublicKey = complete_key (at_completePair attempt), md_daemonPublicKey = pp_pk payload,
          md_daemonAddress = t\<rparr>)"

text \<open>The primitives the two adapters bind; nonces are numbered.\<close>

record primitives =
  pm_ecdh :: "byte list \<Rightarrow> byte list \<Rightarrow> byte list"
  pm_hkdf :: "byte list \<Rightarrow> byte list \<Rightarrow> string \<Rightarrow> nat \<Rightarrow> byte list"
  pm_aead :: aead
  pm_gcm :: rn_gcm
  pm_nonce :: "nat \<Rightarrow> byte list"
  pm_commands :: "ClientCommand json_codec"
  pm_events :: "ServerEvent json_codec"

definition createSessionCrypto :: "primitives \<Rightarrow> byte list \<Rightarrow> byte list \<Rightarrow> byte list SessionCrypto" where
  "createSessionCrypto pm devicePrivateKeyRaw daemonPublicKeyRaw =
     \<lparr>sc_deriveKey = \<lambda>salt. rn_deriveSessionKey (pm_ecdh pm) (pm_hkdf pm) devicePrivateKeyRaw daemonPublicKeyRaw (fromBase64 salt),
      sc_seal = \<lambda>n key seq cmd dir. rn_seal (pm_gcm pm) (pm_commands pm) (pm_nonce pm n) key seq cmd dir,
      sc_open = \<lambda>key f dir. rn_open (pm_gcm pm) (pm_events pm) key f dir\<rparr>"

definition sessionCryptoFromRecord :: "primitives \<Rightarrow> MobileDeviceRecord \<Rightarrow> byte list SessionCrypto" where
  "sessionCryptoFromRecord pm r = createSessionCrypto pm (fromBase64 (md_devicePrivateKey r)) (rawPublicKeyFromB64 (md_daemonPublicKey r))"

definition node_deriveSessionKey :: "primitives \<Rightarrow> byte list \<Rightarrow> byte list \<Rightarrow> byte list \<Rightarrow> byte list" where
  "node_deriveSessionKey pm privateKey peerPublicKey salt = pm_hkdf pm (pm_ecdh pm privateKey peerPublicKey) salt ''app.claudecode/v1'' 32"

text \<open>The adapter of the CLI; keys are in DER, \<open>importPrivate\<close> is an argument.\<close>

definition sessionCryptoFor :: "primitives \<Rightarrow> (string \<Rightarrow> byte list) \<Rightarrow> (string \<Rightarrow> byte list) \<Rightarrow> DeviceRecord \<Rightarrow> byte list SessionCrypto" where
  "sessionCryptoFor pm importPrivate dec64 device =
     (let priv = importPrivate (dr_devicePrivateKey device); daemonPub = rawPublicKeyFromB64 (dr_daemonPublicKey device)
      in \<lparr>sc_deriveKey = \<lambda>salt. node_deriveSessionKey pm priv daemonPub (dec64 salt),
          sc_seal = \<lambda>n key seq cmd dir. node_seal (pm_aead pm) (pm_commands pm) (pm_nonce pm n) key seq cmd dir,
          sc_open = \<lambda>key f dir. node_open (pm_aead pm) (pm_events pm) dec64 key f dir\<rparr>)"

section \<open>Pairing from end to end\<close>

lemma public_raw: "length raw = 32 \<Longrightarrow> rawPublicKeyFromB64 (spkiPublicKeyB64 raw) = raw"
  using public_key_roundtrip [of raw raw] by simp

lemma completePairing_proof:
  assumes "beginPairing address secret now i = ((p, expiry), i1)" "later \<le> expiry"
  shows "completePairing hmac pk name (pairingProof hmac (pp_s p) pk (pp_pk p)) fid later i1 =
    (Inr \<lparr>pd_deviceId = fid, pd_name = name, pd_publicKey = pk, pd_pairedAt = later\<rparr>,
     persist (i1\<lparr>id_pending := None, id_devices := id_devices i1 @ [\<lparr>pd_deviceId = fid, pd_name = name, pd_publicKey = pk, pd_pairedAt = later\<rparr>]\<rparr>))"
  and "pp_pk p = id_publicKey i" "pp_s p = secret" "pp_addr p = address"
  using assms by (auto simp: beginPairing_def completePairing_def constantTimeEqual_def Let_def)


definition example_identity :: Identity where
  "example_identity = \<lparr>id_privateKey = ''k'', id_publicKey = ''D'', id_devices = [], id_pending = None, id_stored = []\<rparr>"

definition example_pair_env :: pair_env where
  "example_pair_env = \<lparr>pe_hmac = \<lambda>k m. toBase64 (text_bytes (k @ m)), pe_who = ''host/cli'', pe_private = ''p'', pe_public = ''P'',
     pe_line = \<lambda>_. None, pe_qr = \<lambda>_. Some \<lparr>pp_v = 1, pp_addr = ''ws://h:1'', pp_pk = ''D'', pp_s = ''s''\<rparr>\<rparr>"


definition pinned :: "pair_env \<Rightarrow> string \<Rightarrow> pair_state \<Rightarrow> bool" where
  "pinned e k s \<longleftrightarrow> (case ps_saved s of
      None \<Rightarrow> ps_exit s \<noteq> Some 0
    | Some r \<Rightarrow> ps_exit s = Some 0 \<and> dr_daemonPublicKey r = k \<and> dr_devicePublicKey r = pe_public e)"

lemma pair_lines_pinned:
  "ps_saved s = None \<Longrightarrow> ps_exit s = None \<Longrightarrow> ps_daemonPub s = k \<Longrightarrow> pinned e k (pair_lines e False ls s)"
proof (induction ls arbitrary: s)
  case (Cons l ls)
  have stop: "pair_lines e False ls t = t" if "ps_exit t \<noteq> None" for t using that by (cases ls) simp_all
  show ?case
  proof (cases "blank l \<or> pe_line e l = None \<or> pe_line e l = Some None")
    case True
    with Cons show ?thesis by (cases "blank l") (auto, simp add: pinned_def)
  next
    case False
    then obtain m where m: "\<not> blank l" "pe_line e l = Some (Some m)" by (auto simp: not_None_eq)
    with Cons stop show ?thesis by (cases m) (simp_all add: savePairedDevice_def pinned_def)
  qed
qed (simp add: pinned_def)

text \<open>
  A machine that redeems a pairing code stores the daemon key of the code, whatever the peer it reached
  over the network answers: the first lines it is sent either end the program without a record or leave
  a record with exactly that key, and only the latter reports success.
\<close>

theorem code_pairing_pins_key:
  "let s = pair_data e False chunk (runPairFromCode e p) in
     (ps_exit s = Some 0 \<longleftrightarrow> ps_saved s \<noteq> None)
     \<and> (\<forall>r. ps_saved s = Some r \<longrightarrow> dr_daemonPublicKey r = pp_pk p \<and> dr_devicePublicKey r = pe_public e)"
proof -
  obtain ls rest where f: "feed_line [] chunk = (ls, rest)" by fastforce
  have "ps_saved ((runPairFromCode e p)\<lparr>ps_buf := rest\<rparr>) = None" "ps_exit ((runPairFromCode e p)\<lparr>ps_buf := rest\<rparr>) = None"
    "ps_daemonPub ((runPairFromCode e p)\<lparr>ps_buf := rest\<rparr>) = pp_pk p" by (simp_all add: runPairFromCode_def)
  from pair_lines_pinned [OF this, of e ls] f show ?thesis
    by (auto simp: pair_data_def Let_def runPairFromCode_def pinned_def split: option.splits)
qed

theorem code_pairing_pins_key_witness:
  "let e = example_pair_env\<lparr>pe_line := \<lambda>_. Some (Some (Paired ''d9'' ''evil''))\<rparr>;
       s = pair_data e False (''x'' @ [newline]) (runPairFromCode e \<lparr>pp_v = 1, pp_addr = ''a'', pp_pk = ''D'', pp_s = ''s''\<rparr>)
   in \<exists>r. ps_saved s = Some r \<and> dr_daemonPublicKey r = ''D''"
proof -
  let ?e = "example_pair_env\<lparr>pe_line := \<lambda>_. Some (Some (Paired ''d9'' ''evil''))\<rparr>"
  let ?p = "\<lparr>pp_v = 1, pp_addr = ''a'', pp_pk = ''D'', pp_s = ''s''\<rparr>"
  have "ps_exit (pair_data ?e False (''x'' @ [newline]) (runPairFromCode ?e ?p)) = Some 0"
    by (simp add: pair_data_def runPairFromCode_def feed_line_def line_loop.simps blank_def js_space_def)
  with code_pairing_pins_key [of ?e "''x'' @ [newline]" ?p] show ?thesis unfolding Let_def by auto
qed

text \<open>
  A paired phone and the daemon derive the same session key from a salt, as Diffie-Hellman promises
  it for their key pairs, although the app works on raw keys and the daemon on DER, and so does a paired
  CLI device.
\<close>

theorem session_keys_agree:
  assumes dh: "\<And>a b. pm_ecdh pm a (pub b) = pm_ecdh pm b (pub a)"
    and "length (pub daemon) = 32" "pp_pk p = spkiPublicKeyB64 (pub daemon)" "decode salt = fromBase64 salt"
    and "deviceRecordFromPaired fid (startPairing hm (dev, pub dev) p name) p = Inr r"
    and "importPrivate (dr_devicePrivateKey c) = dev" "dr_daemonPublicKey c = pp_pk p"
  shows "sc_deriveKey (sessionCryptoFromRecord pm r) salt = node_deriveSessionKey pm daemon (pub dev) (fromBase64 salt)
    \<and> sc_deriveKey (sessionCryptoFor pm importPrivate decode c) salt = node_deriveSessionKey pm daemon (pub dev) (fromBase64 salt)"
proof -
  have r: "md_devicePrivateKey r = toBase64 dev" "md_daemonPublicKey r = spkiPublicKeyB64 (pub daemon)"
    using assms(3,5) by (auto simp: deviceRecordFromPaired_def startPairing_def Let_def split: option.splits)
  then have "sc_deriveKey (sessionCryptoFromRecord pm r) salt = node_deriveSessionKey pm daemon (pub dev) (fromBase64 salt)"
    using public_raw [OF assms(2)] dh
    by (simp add: sessionCryptoFromRecord_def createSessionCrypto_def rn_deriveSessionKey_def node_deriveSessionKey_def INFO_def)
  moreover have "sc_deriveKey (sessionCryptoFor pm importPrivate decode c) salt = node_deriveSessionKey pm daemon (pub dev) (fromBase64 salt)"
    using public_raw [OF assms(2)] dh assms(3,4,6,7) by (simp add: sessionCryptoFor_def node_deriveSessionKey_def)
  ultimately show ?thesis by blast
qed

text \<open>A key agreement that adds its exponents byte by byte, so that it commutes.\<close>

definition example_primitives :: primitives where
  "example_primitives = \<lparr>pm_ecdh = \<lambda>a b. map2 (+) a b, pm_hkdf = \<lambda>k s i n. k @ s,
     pm_aead = \<lparr>ae_enc = \<lambda>k n a x. (x, []), ae_dec = \<lambda>k n a x t. Some x\<rparr>,
     pm_gcm = \<lparr>gcm_encrypt = \<lambda>k n a x. x, gcm_decrypt = \<lambda>k n a x. Some x\<rparr>, pm_nonce = \<lambda>_. [],
     pm_commands = \<lparr>jc_bytes = \<lambda>_. [], jc_parse = \<lambda>_. None\<rparr>, pm_events = \<lparr>jc_bytes = \<lambda>_. [], jc_parse = \<lambda>_. None\<rparr>\<rparr>"

theorem session_keys_agree_witness:
  "\<exists>r. deviceRecordFromPaired ''d9'' (startPairing (\<lambda>k m. []) (replicate 32 7, replicate 32 7)
        \<lparr>pp_v = 1, pp_addr = ''ws://h:1'', pp_pk = spkiPublicKeyB64 (replicate 32 9), pp_s = ''s''\<rparr> ''n'') \<lparr>pp_v = 1, pp_addr = ''ws://h:1'', pp_pk = spkiPublicKeyB64 (replicate 32 9), pp_s = ''s''\<rparr> = Inr r
     \<and> sc_deriveKey (sessionCryptoFromRecord example_primitives r) ''AAAA'' = node_deriveSessionKey example_primitives (replicate 32 9) (replicate 32 7) (fromBase64 ''AAAA'')"
proof -
  let ?p = "\<lparr>pp_v = 1, pp_addr = ''ws://h:1'', pp_pk = spkiPublicKeyB64 (replicate 32 9), pp_s = ''s''\<rparr>"
  have "wsUrlFromAddr ''ws://h:1'' = Some ''ws://h:1''" by code_simp
  then obtain r where r: "deviceRecordFromPaired ''d9'' (startPairing (\<lambda>k m. []) (replicate 32 7, id (replicate 32 7)) ?p ''n'') ?p = Inr r"
    by (simp add: deviceRecordFromPaired_def startPairing_def Let_def)
  have dh: "pm_ecdh example_primitives a (id b) = pm_ecdh example_primitives b (id a)" for a b
    by (simp add: example_primitives_def) (simp add: zip_commute [of a b] o_def case_prod_beta add.commute)
  have "length (id (replicate 32 9 :: byte list)) = 32" "pp_pk ?p = spkiPublicKeyB64 (id (replicate 32 9))" by simp_all
  from session_keys_agree [where importPrivate = "\<lambda>_. replicate 32 7" and salt = "''AAAA''" and decode = fromBase64
      and c = "\<lparr>dr_deviceId = [], dr_devicePrivateKey = [], dr_devicePublicKey = [], dr_daemonPublicKey = pp_pk ?p, dr_outSeq = None\<rparr>",
      OF dh this refl r refl] r
  show ?thesis by auto
qed
end
