(* ===== verification/CliCommand.thy ===== *)
theory CliCommand
  imports Session JsNumbers
begin

text \<open>
  The command line of the CLI, \<^verbatim>\<open>parseFlags\<close> and \<^verbatim>\<open>buildCommandPayload\<close> of \<^verbatim>\<open>packages/cli/src/cc.ts\<close>. The payload is the object
  the code builds; a field whose value is \<^verbatim>\<open>undefined\<close> is not written to the wire and is left out.
\<close>

section \<open>Flags\<close>

definition is_flag :: "string list \<Rightarrow> string \<Rightarrow> bool" where
  "is_flag flags a \<longleftrightarrow> take 2 a = ''--'' \<and> drop 2 a \<in> set flags"

text \<open>The loop; a flag takes the next argument, which is \<^verbatim>\<open>undefined\<close> at the end.\<close>

fun parseFlags :: "string list \<Rightarrow> string list \<Rightarrow> string list \<Rightarrow> (string, string option) jsmap \<Rightarrow>
    string list \<times> (string, string option) jsmap" where
  "parseFlags flags [] positionals opts = (positionals, opts)"
| "parseFlags flags [a] positionals opts =
     (if is_flag flags a then (positionals, js_set (drop 2 a) None opts) else (positionals @ [a], opts))"
| "parseFlags flags (a # b # args) positionals opts =
     (if is_flag flags a then parseFlags flags args positionals (js_set (drop 2 a) (Some b) opts)
      else parseFlags flags (b # args) (positionals @ [a]) opts)"

definition option_of :: "string \<Rightarrow> (string, string option) jsmap \<Rightarrow> string option" where
  "option_of f opts = Option.bind (map_of opts f) id"

section \<open>Payloads\<close>

fun defined_fields :: "(string \<times> json option) list \<Rightarrow> (string \<times> json) list" where
  "defined_fields [] = []"
| "defined_fields ((n, v) # fs) = (case v of None \<Rightarrow> defined_fields fs | Some x \<Rightarrow> (n, x) # defined_fields fs)"

definition js_obj :: "(string \<times> json option) list \<Rightarrow> json" where
  "js_obj fs = JObj (defined_fields fs)"

definition arg :: "nat \<Rightarrow> string list \<Rightarrow> string option" where
  "arg i rest = (if i < length rest then Some (rest ! i) else None)"

abbreviation str_field :: "string \<Rightarrow> string option \<Rightarrow> string \<times> json option" where
  "str_field n v \<equiv> (n, map_option JStr v)"

fun join_words :: "string list \<Rightarrow> string" where
  "join_words [] = []"
| "join_words [w] = w"
| "join_words (w # ws) = w @ '' '' @ join_words ws"

definition template :: "string option \<Rightarrow> string" where
  "template v = (case v of None \<Rightarrow> ''undefined'' | Some s \<Rightarrow> s)"

datatype payload_result = Payload "json option" | Usage_exit

definition spawn_payload :: "string list \<Rightarrow> json" where
  "spawn_payload rest =
     (let (positionals, opts) = parseFlags [''model'', ''mode'', ''effort''] rest [] []
      in js_obj [str_field ''type'' (Some ''spawn''), str_field ''cwd'' (arg 0 positionals), str_field ''label'' (arg 1 positionals),
           str_field ''model'' (option_of ''model'' opts), str_field ''permissionMode'' (option_of ''mode'' opts),
           str_field ''effort'' (option_of ''effort'' opts)])"

definition decide_payload :: "string \<Rightarrow> string \<Rightarrow> string list \<Rightarrow> json" where
  "decide_payload who verdict rest = js_obj [str_field ''type'' (Some ''decide''), str_field ''toolUseId'' (arg 0 rest),
     str_field ''decision'' (Some verdict), str_field ''reason'' (Some (join_words (drop 1 rest))), str_field ''by'' (Some who)]"

definition history_limit_arg :: "string list \<Rightarrow> json option" where
  "history_limit_arg rest = (case arg 0 rest of None \<Rightarrow> None | Some s \<Rightarrow> if s = [] then None else Some (JNum (js_Number s)))"

definition buildCommandPayload :: "string \<Rightarrow> string \<Rightarrow> string list \<Rightarrow> payload_result" where
  "buildCommandPayload who cmd rest =
     (if cmd = ''watch'' then Payload None
      else if cmd = ''history'' then Payload (Some (js_obj [str_field ''type'' (Some ''history''), (''limit'', history_limit_arg rest)]))
      else if cmd = ''spawn'' then Payload (Some (spawn_payload rest))
      else if cmd = ''send'' then Payload (Some (js_obj [str_field ''type'' (Some ''send''), str_field ''sessionId'' (arg 0 rest),
        str_field ''text'' (Some (join_words (drop 1 rest)))]))
      else if cmd = ''interrupt'' then Payload (Some (js_obj [str_field ''type'' (Some ''interrupt''), str_field ''sessionId'' (arg 0 rest)]))
      else if cmd = ''model'' then Payload (Some (js_obj [str_field ''type'' (Some ''set_model''), str_field ''sessionId'' (arg 0 rest),
        str_field ''model'' (arg 1 rest)]))
      else if cmd = ''mode'' then Payload (Some (js_obj [str_field ''type'' (Some ''set_permission_mode''), str_field ''sessionId'' (arg 0 rest),
        str_field ''mode'' (arg 1 rest)]))
      else if cmd = ''effort'' then Payload (Some (js_obj [str_field ''type'' (Some ''send''), str_field ''sessionId'' (arg 0 rest),
        str_field ''text'' (Some (''/effort '' @ template (arg 1 rest)))]))
      else if cmd = ''allow'' then Payload (Some (decide_payload who ''allow'' rest))
      else if cmd = ''deny'' then Payload (Some (decide_payload who ''deny'' rest))
      else if cmd = ''revoke'' then Payload (Some (js_obj [str_field ''type'' (Some ''revoke''), str_field ''deviceId'' (arg 0 rest)]))
      else Usage_exit)"

section \<open>The wire form of a command\<close>

fun verdict_text :: "verdict \<Rightarrow> string" where
  "verdict_text Allow = ''allow''"
| "verdict_text Deny = ''deny''"

fun platform_text :: "PushPlatform \<Rightarrow> string" where
  "platform_text Ios = ''ios''"
| "platform_text Android = ''android''"

fun command_json :: "ClientCommand \<Rightarrow> json" where
  "command_json List_cmd = js_obj [str_field ''type'' (Some ''list'')]"
| "command_json (History limit) = js_obj [str_field ''type'' (Some ''history''), (''limit'', map_option JNum limit)]"
| "command_json (Spawn r) = js_obj [str_field ''type'' (Some ''spawn''), str_field ''cwd'' (Some (sr_cwd r)), str_field ''label'' (sr_label r),
     (''disallowedTools'', map_option (\<lambda>ts. JArr (map JStr ts)) (sr_disallowedTools r)), str_field ''model'' (sr_model r),
     str_field ''permissionMode'' (map_option mode_text (sr_permissionMode r)), str_field ''effort'' (map_option effort_text (sr_effort r))]"
| "command_json (Send i t) = js_obj [str_field ''type'' (Some ''send''), str_field ''sessionId'' (Some i), str_field ''text'' (Some t)]"
| "command_json (Interrupt i) = js_obj [str_field ''type'' (Some ''interrupt''), str_field ''sessionId'' (Some i)]"
| "command_json (Set_model i m) = js_obj [str_field ''type'' (Some ''set_model''), str_field ''sessionId'' (Some i), str_field ''model'' (Some m)]"
| "command_json (Set_permission_mode i m) = js_obj [str_field ''type'' (Some ''set_permission_mode''), str_field ''sessionId'' (Some i),
     str_field ''mode'' (Some (mode_text m))]"
| "command_json (Decide i v r who) = js_obj [str_field ''type'' (Some ''decide''), str_field ''toolUseId'' (Some i),
     str_field ''decision'' (Some (verdict_text v)), str_field ''reason'' r, str_field ''by'' (Some who)]"
| "command_json (Revoke i) = js_obj [str_field ''type'' (Some ''revoke''), str_field ''deviceId'' (Some i)]"
| "command_json (Register_push t p) = js_obj [str_field ''type'' (Some ''register_push''), str_field ''token'' (Some t),
     str_field ''platform'' (Some (platform_text p))]"

section \<open>What an operator types\<close>

datatype cli_arg = Pos string | Opt string string

fun typed :: "cli_arg list \<Rightarrow> string list" where
  "typed [] = []"
| "typed (Pos s # as) = s # typed as"
| "typed (Opt f v # as) = (''--'' @ f) # v # typed as"

fun positions :: "cli_arg list \<Rightarrow> string list" where
  "positions [] = []"
| "positions (Pos s # as) = s # positions as"
| "positions (Opt f v # as) = positions as"

fun last_opt :: "string \<Rightarrow> cli_arg list \<Rightarrow> string option" where
  "last_opt g [] = None"
| "last_opt g (Pos s # as) = last_opt g as"
| "last_opt g (Opt f v # as) = (case last_opt g as of None \<Rightarrow> if f = g then Some v else None | Some w \<Rightarrow> Some w)"

definition well_typed :: "string list \<Rightarrow> cli_arg list \<Rightarrow> bool" where
  "well_typed flags as \<longleftrightarrow> list_all (\<lambda>a. case a of Pos s \<Rightarrow> \<not> is_flag flags s | Opt f v \<Rightarrow> f \<in> set flags) as"

lemma parseFlags_typed:
  assumes "well_typed flags as"
  shows "fst (parseFlags flags (typed as) ps os) = ps @ positions as"
    and "option_of g (snd (parseFlags flags (typed as) ps os)) = (case last_opt g as of None \<Rightarrow> option_of g os | Some v \<Rightarrow> Some v)"
proof -
  have "fst (parseFlags flags (typed as) ps os) = ps @ positions as
    \<and> option_of g (snd (parseFlags flags (typed as) ps os)) = (case last_opt g as of None \<Rightarrow> option_of g os | Some v \<Rightarrow> Some v)"
    using assms
  proof (induction "as" arbitrary: ps os)
    case (Cons a "as")
    show ?case
    proof (cases a)
      case (Pos s)
      with Cons.prems have n: "\<not> is_flag flags s" "well_typed flags as" by (simp_all add: well_typed_def)
      have "parseFlags flags (s # typed as) ps os = parseFlags flags (typed as) (ps @ [s]) os"
        using n(1) by (cases "typed as") simp_all
      with Cons.IH [OF n(2)] Pos show ?thesis by simp
    next
      case (Opt f v)
      with Cons.prems have n: "f \<in> set flags" "well_typed flags as" by (simp_all add: well_typed_def)
      then have "is_flag flags (''--'' @ f)" by (simp add: is_flag_def)
      then have "parseFlags flags (typed (a # as)) ps os = parseFlags flags (typed as) ps (js_set f (Some v) os)"
        by (simp add: Opt)
      with Cons.IH [OF n(2)] Opt show ?thesis by (auto simp: option_of_def split: option.split)
    qed
  qed simp
  then show "fst (parseFlags flags (typed as) ps os) = ps @ positions as"
    "option_of g (snd (parseFlags flags (typed as) ps os)) = (case last_opt g as of None \<Rightarrow> option_of g os | Some v \<Rightarrow> Some v)"
    by blast+
qed

text \<open>How to ask for a command; the flags of a spawn may stand anywhere and in any order.\<close>

fun asks_for :: "string \<Rightarrow> ClientCommand \<Rightarrow> string \<Rightarrow> string list \<Rightarrow> bool" where
  "asks_for who (History limit) cmd rest \<longleftrightarrow> cmd = ''history'' \<and>
     (case limit of None \<Rightarrow> rest = [] | Some n \<Rightarrow> \<exists>s. s \<noteq> [] \<and> rest = [s] \<and> js_Number s = n)"
| "asks_for who (Spawn r) cmd rest \<longleftrightarrow> cmd = ''spawn'' \<and> sr_disallowedTools r = None \<and>
     (\<exists>as. rest = typed as \<and> well_typed [''model'', ''mode'', ''effort''] as
        \<and> positions as = sr_cwd r # (case sr_label r of None \<Rightarrow> [] | Some l \<Rightarrow> [l])
        \<and> last_opt ''model'' as = sr_model r \<and> last_opt ''mode'' as = map_option mode_text (sr_permissionMode r)
        \<and> last_opt ''effort'' as = map_option effort_text (sr_effort r))"
| "asks_for who (Send i t) cmd rest \<longleftrightarrow> (\<exists>ws. cmd = ''send'' \<and> rest = i # ws \<and> t = join_words ws)
     \<or> (\<exists>l. cmd = ''effort'' \<and> rest = [i, l] \<and> t = ''/effort '' @ l)"
| "asks_for who (Interrupt i) cmd rest \<longleftrightarrow> cmd = ''interrupt'' \<and> rest = [i]"
| "asks_for who (Set_model i m) cmd rest \<longleftrightarrow> cmd = ''model'' \<and> rest = [i, m]"
| "asks_for who (Set_permission_mode i m) cmd rest \<longleftrightarrow> cmd = ''mode'' \<and> rest = [i, mode_text m]"
| "asks_for who (Decide i v r decider) cmd rest \<longleftrightarrow> cmd = verdict_text v \<and> decider = who \<and> (\<exists>ws. rest = i # ws \<and> r = Some (join_words ws))"
| "asks_for who (Revoke i) cmd rest \<longleftrightarrow> cmd = ''revoke'' \<and> rest = [i]"
| "asks_for who _ cmd rest \<longleftrightarrow> False"

lemma spawn_asked:
  assumes "asks_for who (Spawn r) cmd rest"
  shows "spawn_payload rest = command_json (Spawn r)"
proof -
  obtain as where a: "rest = typed as" "well_typed [''model'', ''mode'', ''effort''] as"
    "positions as = sr_cwd r # (case sr_label r of None \<Rightarrow> [] | Some l \<Rightarrow> [l])"
    "last_opt ''model'' as = sr_model r" "last_opt ''mode'' as = map_option mode_text (sr_permissionMode r)"
    "last_opt ''effort'' as = map_option effort_text (sr_effort r)" "sr_disallowedTools r = None"
    using assms by auto
  note p = parseFlags_typed [OF a(2), where ps = "[]" and os = "[]"]
  have "option_of g [] = None" for g by (simp add: option_of_def)
  then have o: "option_of g (snd (parseFlags [''model'', ''mode'', ''effort''] (typed as) [] [])) = last_opt g as" for g
    using p(2) [where g = g] by (simp split: option.split)
  have "arg 0 (positions as) = Some (sr_cwd r)" "arg 1 (positions as) = sr_label r"
    by (simp_all add: arg_def a(3) split: option.split)
  moreover obtain os where "parseFlags [''model'', ''mode'', ''effort''] (typed as) [] [] = (positions as, os)"
    using p(1) by (metis append_Nil prod.collapse)
  ultimately show ?thesis
    using o unfolding spawn_payload_def a(1) by (simp add: a(4-7) js_obj_def split: option.split)
qed

text \<open>
  What an operator types is what is sent: for every command that has a form on the command line, and
  every way of typing it, the payload is the wire form of exactly that command, decisions in the name of
  this host.
\<close>

theorem typed_command_is_sent:
  assumes "asks_for who c cmd rest"
  shows "buildCommandPayload who cmd rest = Payload (Some (command_json c))"
proof (cases c)
  case (Spawn r)
  with assms spawn_asked show ?thesis by (simp add: buildCommandPayload_def)
next
  case (Decide i v r w)
  with assms show ?thesis by (cases v) (auto simp: buildCommandPayload_def decide_payload_def arg_def)
next
  case (History limit)
  with assms show ?thesis
    by (auto simp: buildCommandPayload_def history_limit_arg_def arg_def split: option.splits)
next
  case (Send i t)
  with assms consider ws where "cmd = ''send''" "rest = i # ws" "t = join_words ws" | l where "cmd = ''effort''" "rest = [i, l]" "t = ''/effort '' @ l"
    by auto
  then show ?thesis by cases (simp_all add: Send buildCommandPayload_def arg_def template_def)
next
  case (Interrupt i)
  with assms have "cmd = ''interrupt''" "rest = [i]" by simp_all
  with Interrupt show ?thesis by (simp add: buildCommandPayload_def arg_def)
next
  case (Set_model i m)
  with assms have "cmd = ''model''" "rest = [i, m]" by simp_all
  with Set_model show ?thesis by (simp add: buildCommandPayload_def arg_def)
next
  case (Set_permission_mode i m)
  with assms have "cmd = ''mode''" "rest = [i, mode_text m]" by simp_all
  with Set_permission_mode show ?thesis by (simp add: buildCommandPayload_def arg_def)
next
  case (Revoke i)
  with assms have "cmd = ''revoke''" "rest = [i]" by simp_all
  with Revoke show ?thesis by (simp add: buildCommandPayload_def arg_def)
qed (use assms in simp_all)

theorem typed_command_is_sent_witness:
  "buildCommandPayload ''h'' ''spawn'' [''--mode'', ''plan'', ''/repo'', ''--model'', ''opus'', ''my label''] =
     Payload (Some (command_json (Spawn \<lparr>sr_cwd = ''/repo'', sr_label = Some ''my label'', sr_disallowedTools = None,
       sr_model = Some ''opus'', sr_permissionMode = Some Plan, sr_effort = None\<rparr>)))"
proof (rule typed_command_is_sent)
  let ?as = "[Opt ''mode'' ''plan'', Pos ''/repo'', Opt ''model'' ''opus'', Pos ''my label'']"
  have "[''--mode'', ''plan'', ''/repo'', ''--model'', ''opus'', ''my label''] = typed ?as"
    "well_typed [''model'', ''mode'', ''effort''] ?as"
    by (simp_all add: well_typed_def is_flag_def)
  then show "asks_for ''h'' (Spawn \<lparr>sr_cwd = ''/repo'', sr_label = Some ''my label'', sr_disallowedTools = None,
       sr_model = Some ''opus'', sr_permissionMode = Some Plan, sr_effort = None\<rparr>) ''spawn''
       [''--mode'', ''plan'', ''/repo'', ''--model'', ''opus'', ''my label'']"
    by (intro asks_for.simps(2) [THEN iffD2] conjI exI [of _ ?as]) simp_all
qed
end
