(* ===== verification/ExpoPush.thy ===== *)
theory ExpoPush
  imports Types
begin

text \<open>
  The push transport, \<^verbatim>\<open>packages/daemon/src/infrastructure/expoPush.ts\<close>. The parse of the endpoint (\<open>None\<close>: it
  throws; otherwise whether the protocol is \<^verbatim>\<open>http:\<close>, and the host) is an argument. A call of \<^verbatim>\<open>send\<close> either
  resolves at once or makes one request, whose events drive the rest.
\<close>

definition EXPO_MAX_BATCH :: nat where "EXPO_MAX_BATCH = 100"

datatype push_log =
    Dropping nat nat
  | Invalid_endpoint string
  | Relay_status string nat string
  | Send_failed string string

record push_request =
  rq_plain_http :: bool
  rq_host :: string
  rq_messages :: "json list"

definition push_message :: "string \<Rightarrow> json" where
  "push_message token = JObj [(''to'', JStr token), (''title'', JStr ''Approval needed''),
     (''body'', JStr ''A tool call is waiting for your decision.''), (''priority'', JStr ''high''),
     (''data'', JObj [(''kind'', JStr ''approval'')])]"

datatype send_outcome = Resolved | Requested push_request

definition expo_send :: "(string \<Rightarrow> (bool \<times> string) option) \<Rightarrow> string \<Rightarrow> string list \<Rightarrow> push_log list \<times> send_outcome" where
  "expo_send parse_url endpoint tokens =
     (if tokens = [] then ([], Resolved)
      else let logs = (if length tokens > EXPO_MAX_BATCH then [Dropping (length tokens) (length tokens - EXPO_MAX_BATCH)] else []);
               batch = (if length tokens > EXPO_MAX_BATCH then take EXPO_MAX_BATCH tokens else tokens);
               messages = map push_message batch
           in case parse_url endpoint of
                None \<Rightarrow> (logs @ [Invalid_endpoint endpoint], Resolved)
              | Some (plain, host) \<Rightarrow> (logs, Requested \<lparr>rq_plain_http = plain, rq_host = host, rq_messages = messages\<rparr>))"

text \<open>The events of the request: the head and the body of a response, its end, or an error.\<close>

datatype request_event = Response nat | Res_data string | Res_end | Req_error string

record request_state =
  rs_status :: nat
  rs_data :: string
  rs_resolved :: nat      \<comment> \<open>how often the promise was resolved; only the first counts\<close>
  rs_log :: "push_log list"

definition new_request :: request_state where
  "new_request = \<lparr>rs_status = 0, rs_data = [], rs_resolved = 0, rs_log = []\<rparr>"

fun request_step :: "string \<Rightarrow> request_event \<Rightarrow> request_state \<Rightarrow> request_state" where
  "request_step host (Response status) s = s\<lparr>rs_status := status, rs_data := []\<rparr>"
| "request_step host (Res_data c) s = (if length (rs_data s) < 2000 then s\<lparr>rs_data := rs_data s @ c\<rparr> else s)"
| "request_step host Res_end s = s\<lparr>rs_resolved := Suc (rs_resolved s),
     rs_log := rs_log s @ (if rs_status s \<ge> 300 then [Relay_status host (rs_status s) (take 200 (rs_data s))] else [])\<rparr>"
| "request_step host (Req_error msg) s = s\<lparr>rs_resolved := Suc (rs_resolved s), rs_log := rs_log s @ [Send_failed host msg]\<rparr>"

definition noopPushSender :: "string list \<Rightarrow> push_log list \<times> send_outcome" where
  "noopPushSender tokens = ([], Resolved)"

fun ends :: "request_event \<Rightarrow> bool" where
  "ends Res_end = True"
| "ends (Req_error _) = True"
| "ends _ = False"

lemma resolved_count:
  "rs_resolved (foldl (\<lambda>s x. request_step host x s) s es) = rs_resolved s + length (filter ends es)"
proof (induction es arbitrary: s)
  case (Cons x es)
  then show ?case by (cases x) simp_all
qed simp

lemma data_bounded:
  "length (rs_data s) < 2000 + n \<Longrightarrow> (\<And>c. Res_data c \<in> set es \<Longrightarrow> length c \<le> n) \<Longrightarrow>
     length (rs_data (foldl (\<lambda>s x. request_step host x s) s es)) < 2000 + n"
proof (induction es arbitrary: s)
  case (Cons x es)
  have "length (rs_data (request_step host x s)) < 2000 + n"
    using Cons.prems(1) Cons.prems(2) by (cases x) fastforce+
  with Cons show ?case by simp
qed simp

text \<open>
  The relay learns nothing but tokens: a request carries one message for each of the first hundred
  tokens, in order, that is the same for every approval, and what is dropped is logged with its number.
  Whatever the relay answers the call settles exactly when the response ends or the request fails, and
  the answer it keeps is bounded by 2000 characters and one chunk.
\<close>

theorem push_is_generic_and_fail_soft:
  "(case expo_send parse_url endpoint tokens of
      (logs, Resolved) \<Rightarrow> tokens = [] \<or> parse_url endpoint = None
    | (logs, Requested r) \<Rightarrow> rq_messages r = map push_message (take 100 tokens)
        \<and> (if length tokens \<le> 100 then logs = [] else logs = [Dropping (length tokens) (length tokens - 100)]))
   \<and> (rs_resolved (foldl (\<lambda>s x. request_step host x s) new_request es) > 0 \<longleftrightarrow> list_ex ends es)
   \<and> ((\<forall>c. Res_data c \<in> set es \<longrightarrow> length c \<le> n) \<longrightarrow>
        length (rs_data (foldl (\<lambda>s x. request_step host x s) new_request es)) < 2000 + n)"
proof -
  have "length (rs_data (foldl (\<lambda>s x. request_step host x s) new_request es)) < 2000 + n"
    if "\<forall>c. Res_data c \<in> set es \<longrightarrow> length c \<le> n"
    by (rule data_bounded) (use that in \<open>simp_all add: new_request_def\<close>)
  moreover have "rs_resolved (foldl (\<lambda>s x. request_step host x s) new_request es) > 0 \<longleftrightarrow> list_ex ends es"
    by (simp add: resolved_count new_request_def filter_empty_conv list_ex_iff)
  ultimately show ?thesis
    by (auto simp: expo_send_def EXPO_MAX_BATCH_def Let_def split: option.split)
qed

theorem push_is_generic_and_fail_soft_witness:
  "length (rs_data (foldl (\<lambda>s x. request_step ''h'' x s) new_request [Response 500, Res_data ''oops'', Res_end])) < 2000 + 4"
proof -
  have "\<forall>c. Res_data c \<in> set [Response 500, Res_data ''oops'', Res_end] \<longrightarrow> length c \<le> 4" by simp
  then show ?thesis using push_is_generic_and_fail_soft [where host = "''h''" and es = "[Response 500, Res_data ''oops'', Res_end]" and n = 4] by blast
qed
end
