(* ===== verification/QrField.thy ===== *)
theory QrField
  imports Prelude "HOL-Library.Word"
begin

unbundle bit_operations_syntax

text \<open>
  The field arithmetic and the error correction of the QR encoder, \<^verbatim>\<open>packages/cli/src/qr.ts\<close>. The elements of
  GF(256) are bytes; \<^verbatim>\<open>Uint8Array\<close> stores keep them there.
\<close>

type_synonym gf = "8 word"

section \<open>Tables\<close>

text \<open>\<^verbatim>\<open>x <<= 1; if (x & 0x100) x ^= 0x11d;\<close> on a byte: the bit that leaves it decides.\<close>

definition xtime :: "gf \<Rightarrow> gf" where
  "xtime x = (if bit x 7 then push_bit 1 x XOR 0x1d else push_bit 1 x)"

text \<open>The loop that fills the tables: position, current power, the powers so far and the logarithms.\<close>

fun table_loop :: "nat \<Rightarrow> nat \<Rightarrow> gf \<Rightarrow> gf list \<Rightarrow> (gf \<Rightarrow> nat) \<Rightarrow> gf list \<times> (gf \<Rightarrow> nat)" where
  "table_loop 0 i x es ls = (es, ls)"
| "table_loop (Suc n) i x es ls = table_loop n (Suc i) (xtime x) (es @ [x]) (ls(x := i))"

definition tables :: "gf list \<times> (gf \<Rightarrow> nat)" where
  "tables = (let (es, ls) = table_loop 255 0 1 [] (\<lambda>_. 0) in (es @ es @ take 2 es, ls))"

definition EXP :: "nat \<Rightarrow> gf" where "EXP i = fst tables ! i"

definition LOG :: "gf \<Rightarrow> nat" where "LOG x = snd tables x"

definition gfMul :: "gf \<Rightarrow> gf \<Rightarrow> gf" where
  "gfMul a b = (if a = 0 \<or> b = 0 then 0 else EXP (LOG a + LOG b))"

section \<open>Reed-Solomon\<close>

text \<open>One factor of the generator: the product of the polynomial with \<open>x + r\<close>, leading coefficient first.\<close>

definition times_factor :: "gf \<Rightarrow> gf list \<Rightarrow> gf list" where
  "times_factor r poly = map2 (XOR) (poly @ [0]) (0 # map (\<lambda>p. gfMul p r) poly)"

fun rsGenerator :: "nat \<Rightarrow> gf list" where
  "rsGenerator 0 = [1]"
| "rsGenerator (Suc i) = times_factor (EXP i) (rsGenerator i)"

text \<open>The division loop, one position per step; what is left of the dividend from this position on is the argument.\<close>

fun rs_loop :: "gf list \<Rightarrow> nat \<Rightarrow> gf list \<Rightarrow> gf list" where
  "rs_loop gen 0 res = res"
| "rs_loop gen (Suc n) [] = []"
| "rs_loop gen (Suc n) (coef # res) =
     rs_loop gen n (if coef \<noteq> 0 then tl (map2 (XOR) (coef # res) (map (\<lambda>g. gfMul g coef) gen @ replicate (Suc (length res) - length gen) 0)) else res)"

definition rsEncode :: "gf list \<Rightarrow> nat \<Rightarrow> gf list" where
  "rsEncode data ecLen = rs_loop (rsGenerator ecLen) (length data) (data @ replicate ecLen 0)"

section \<open>The tables are those of a field\<close>

definition pow_x :: "nat \<Rightarrow> gf" where "pow_x n = (xtime ^^ n) 1"

lemma bit_xtime:
  assumes "n < 8"
  shows "bit (xtime x) n \<longleftrightarrow> (0 < n \<and> bit x (n - 1)) \<noteq> (bit x 7 \<and> n \<in> {0, 2, 3, 4})"
proof -
  have "bit (0x1d :: gf) n \<longleftrightarrow> n \<in> {0, 2, 3, 4}"
    using assms by (auto simp: less_Suc_eq numeral_eq_Suc)
  moreover have "bit (push_bit 1 x) n \<longleftrightarrow> 0 < n \<and> bit x (n - 1)"
    using assms by (simp only: bit_simps) auto
  ultimately show ?thesis by (simp only: xtime_def bit_xor_iff split: if_split) auto
qed

lemma xtime_linear: "xtime (x XOR y) = xtime x XOR xtime y" "xtime 0 = 0"
proof -
  show "xtime (x XOR y) = xtime x XOR xtime y"
    by (rule bit_word_eqI) (auto simp: bit_xtime bit_xor_iff)
qed (simp add: xtime_def)

lemma xtime_inj: "xtime x = 0 \<Longrightarrow> x = 0"
proof (rule bit_word_eqI)
  fix n assume z: "xtime x = 0" and n: "n < LENGTH(8)"
  have b: "m < 8 \<Longrightarrow> (0 < m \<and> bit x (m - 1)) = (bit x 7 \<and> m \<in> {0, 2, 3, 4})" for m
    using bit_xtime [of m x] z by auto
  from b [of 0] have "\<not> bit x 7" by simp
  with b [of "Suc n"] n show "bit x n = bit 0 n" by (cases "n = 7") auto
qed

text \<open>The doubling on the eight bits of a byte.\<close>

fun double_bits :: "bool list \<Rightarrow> bool list" where
  "double_bits [a, b, c, d, e, f, g, h] = [h, a, b \<noteq> h, c \<noteq> h, d \<noteq> h, e, f, g]"
| "double_bits bs = bs"

definition byte_bits :: "gf \<Rightarrow> bool list" where
  "byte_bits x = map (bit x) [0..<8]"

lemma byte_bits_eq: "byte_bits x = byte_bits y \<Longrightarrow> x = y"
  by (rule bit_word_eqI) (auto simp: byte_bits_def)

lemma byte_bits_list: "byte_bits x = [bit x 0, bit x 1, bit x 2, bit x 3, bit x 4, bit x 5, bit x 6, bit x 7]"
  by (simp add: byte_bits_def upt_rec eval_nat_numeral)

lemma byte_bits_xtime: "byte_bits (xtime x) = double_bits (byte_bits x)"
  unfolding byte_bits_list by (simp add: bit_xtime)

lemma byte_bits_xor: "byte_bits (x XOR y) = map2 (\<noteq>) (byte_bits x) (byte_bits y)"
  by (simp add: byte_bits_list bit_xor_iff)

lemma double_bits8:
  "double_bits (double_bits (double_bits (double_bits (double_bits (double_bits (double_bits (double_bits [a, b, c, d, e, f, g, h]))))))) =
   map2 (\<noteq>) [a, b, c, d, e, f, g, h] (map2 (\<noteq>) (double_bits (double_bits [a, b, c, d, e, f, g, h]))
     (map2 (\<noteq>) (double_bits (double_bits (double_bits [a, b, c, d, e, f, g, h])))
       (double_bits (double_bits (double_bits (double_bits [a, b, c, d, e, f, g, h]))))))"
  by (cases a; cases b; cases c; cases d; cases e; cases f; cases g; cases h; simp)

lemma xtime8: "(xtime ^^ 8) x = x XOR (xtime ^^ 2) x XOR (xtime ^^ 3) x XOR (xtime ^^ 4) x"
proof -
  have p: "(xtime ^^ 8) x = xtime (xtime (xtime (xtime (xtime (xtime (xtime (xtime x)))))))" "(xtime ^^ 2) x = xtime (xtime x)"
    "(xtime ^^ 3) x = xtime (xtime (xtime x))" "(xtime ^^ 4) x = xtime (xtime (xtime (xtime x)))"
    by (simp_all add: eval_nat_numeral)
  show ?thesis unfolding p
    by (rule byte_bits_eq) (simp only: byte_bits_xor byte_bits_xtime byte_bits_list [of x] double_bits8)
qed

section \<open>Multiplication\<close>

text \<open>The reference: multiplication of polynomials over GF(2), reduced as it goes, bit by bit.\<close>

fun shift_mul :: "nat \<Rightarrow> gf \<Rightarrow> gf \<Rightarrow> gf" where
  "shift_mul 0 a b = 0"
| "shift_mul (Suc n) a b = (if bit b n then (xtime ^^ n) a else 0) XOR shift_mul n a b"

definition poly_mul :: "gf \<Rightarrow> gf \<Rightarrow> gf" where "poly_mul a b = shift_mul 8 a b"

lemma funpow_linear: "(xtime ^^ n) (x XOR y) = (xtime ^^ n) x XOR (xtime ^^ n) y" "(xtime ^^ n) 0 = 0"
  by (induction n) (simp_all add: xtime_linear)

lemma shift_mul_linear: "shift_mul n (a XOR b) c = shift_mul n a c XOR shift_mul n b c"
  by (induction n) (simp_all add: funpow_linear ac_simps)

lemma poly_mul_xtime: "poly_mul a (xtime b) = xtime (poly_mul a b)"
proof -
  have split: "(if c \<noteq> d then p else 0) = (if c then p else 0) XOR (if d then p else 0)"
    "xtime (if c then p else 0) = (if c then xtime p else 0)"
    "(if c then p XOR q else 0) = (if c then p else 0) XOR (if c then q else 0)" for c d and p q :: gf
    by (simp_all add: xtime_linear)
  have bits: "bit (xtime b) 7 = bit b 6" "bit (xtime b) 6 = bit b 5" "bit (xtime b) 5 = bit b 4" "bit (xtime b) 4 = (bit b 3 \<noteq> bit b 7)"
    "bit (xtime b) 3 = (bit b 2 \<noteq> bit b 7)" "bit (xtime b) 2 = (bit b 1 \<noteq> bit b 7)" "bit (xtime b) 1 = bit b 0" "bit (xtime b) 0 = bit b 7"
    by (simp_all add: bit_xtime)
  have e: "shift_mul 8 a c = (if bit c 7 then (xtime ^^ 7) a else 0) XOR (if bit c 6 then (xtime ^^ 6) a else 0) XOR
      (if bit c 5 then (xtime ^^ 5) a else 0) XOR (if bit c 4 then (xtime ^^ 4) a else 0) XOR
      (if bit c 3 then (xtime ^^ 3) a else 0) XOR (if bit c 2 then (xtime ^^ 2) a else 0) XOR
      (if bit c 1 then (xtime ^^ 1) a else 0) XOR (if bit c 0 then a else 0)" for c
    by (simp add: eval_nat_numeral)
  have f: "xtime ((xtime ^^ 7) a) = a XOR (xtime ^^ 2) a XOR (xtime ^^ 3) a XOR (xtime ^^ 4) a"
    using xtime8 [of a] by (simp add: eval_nat_numeral)
  have g: "xtime ((xtime ^^ 6) a) = (xtime ^^ 7) a" "xtime ((xtime ^^ 5) a) = (xtime ^^ 6) a" "xtime ((xtime ^^ 4) a) = (xtime ^^ 5) a"
    "xtime ((xtime ^^ 3) a) = (xtime ^^ 4) a" "xtime ((xtime ^^ 2) a) = (xtime ^^ 3) a" "xtime ((xtime ^^ 1) a) = (xtime ^^ 2) a"
    "xtime a = (xtime ^^ 1) a"
    by (simp_all add: eval_nat_numeral)
  show ?thesis
    unfolding poly_mul_def e xtime_linear(1) bits split f g by (simp only: ac_simps)
qed

lemma xtime_eq_iff: "xtime x = xtime y \<longleftrightarrow> x = y"
proof
  assume "xtime x = xtime y"
  then have "xtime (x XOR y) = 0" by (simp add: xtime_linear)
  then have "x XOR y = 0" by (rule xtime_inj)
  then show "x = y" by (metis xor.assoc xor.left_neutral xor_self_eq)
qed simp

lemma funpow_inj: "(xtime ^^ n) x = (xtime ^^ n) y \<longleftrightarrow> x = y"
  by (induction n) (simp_all add: xtime_eq_iff)

lemma pow_x_add: "pow_x (m + n) = (xtime ^^ m) (pow_x n)"
  by (simp add: pow_x_def funpow_add)

text \<open>The powers below 255, computed: none but the zeroth is one, and the next one is.\<close>

fun first_return :: "nat \<Rightarrow> bool list \<Rightarrow> bool" where
  "first_return 0 bs \<longleftrightarrow> bs = [True, False, False, False, False, False, False, False]"
| "first_return (Suc n) bs \<longleftrightarrow> bs \<noteq> [True, False, False, False, False, False, False, False] \<and> first_return n (double_bits bs)"

lemma cycle: "first_return 254 [False, True, False, False, False, False, False, False]"
  by code_simp

lemma byte_bits_1: "byte_bits 1 = [True, False, False, False, False, False, False, False]"
  by (simp add: byte_bits_list)

lemma first_return_spec: "first_return n (byte_bits x) \<Longrightarrow> (xtime ^^ n) x = 1 \<and> (\<forall>k < n. (xtime ^^ k) x \<noteq> 1)"
proof (induction n arbitrary: x)
  case 0
  with byte_bits_1 byte_bits_eq [of x 1] show ?case by simp
next
  case (Suc n)
  then have x: "x \<noteq> 1" "first_return n (byte_bits (xtime x))"
    using byte_bits_1 by (auto simp only: first_return.simps byte_bits_xtime)
  note i = Suc.IH [OF x(2)]
  then have "(xtime ^^ k) x \<noteq> 1" if "k < Suc n" for k
    using that x(1) by (cases k) (simp_all add: funpow_swap1)
  with i show ?case by (simp add: funpow_swap1)
qed

lemma pow_x_Suc: "pow_x (Suc n) = (xtime ^^ n) (xtime 1)"
  by (simp add: pow_x_def funpow_swap1)

lemma pow_x_cycle: "pow_x 255 = 1" "0 < k \<Longrightarrow> k < 255 \<Longrightarrow> pow_x k \<noteq> 1"
proof -
  have "byte_bits (xtime 1) = [False, True, False, False, False, False, False, False]"
    unfolding byte_bits_xtime byte_bits_1 by simp
  with cycle first_return_spec [of 254 "xtime 1"]
  have c: "(xtime ^^ 254) (xtime 1) = 1" "\<And>k. k < 254 \<Longrightarrow> (xtime ^^ k) (xtime 1) \<noteq> 1" by auto
  have "pow_x (Suc 254) = 1" unfolding pow_x_Suc by (rule c(1))
  then show "pow_x 255 = 1" by simp
  assume "0 < k" "k < 255"
  then obtain j where j: "k = Suc j" "j < 254" by (cases k) simp_all
  show "pow_x k \<noteq> 1" unfolding j(1) pow_x_Suc by (rule c(2) [OF j(2)])
qed

lemma pow_x_nonzero: "pow_x n \<noteq> 0"
proof (induction n)
  case (Suc n)
  then show ?case using xtime_inj by (auto simp: pow_x_def)
qed (simp add: pow_x_def)

lemma pow_x_inj: "i < 255 \<Longrightarrow> j < 255 \<Longrightarrow> pow_x i = pow_x j \<Longrightarrow> i = j"
proof (rule ccontr)
  assume ij: "i < 255" "j < 255" "pow_x i = pow_x j" "i \<noteq> j"
  have *: "False" if "a < b" "b < 255" "pow_x a = pow_x b" for a b
  proof -
    have "pow_x b = (xtime ^^ a) (pow_x (b - a))" using pow_x_add [of a "b - a"] that(1) by simp
    with that(3) have "(xtime ^^ a) (pow_x (b - a)) = (xtime ^^ a) 1" by (simp add: pow_x_def)
    then have "pow_x (b - a) = 1" by (simp only: funpow_inj)
    moreover have "0 < b - a" "b - a < 255" using that(1,2) by simp_all
    ultimately show False using pow_x_cycle(2) by blast
  qed
  show False using * [of i j] * [of j i] ij by (cases "i < j") auto
qed

lemma pow_x_mod: "pow_x (n mod 255) = pow_x n"
proof -
  have "pow_x (255 * q + r) = pow_x r" for q r
  proof (induction q)
    case (Suc q)
    have "pow_x (255 * Suc q + r) = (xtime ^^ (255 * q + r)) (pow_x 255)"
      using pow_x_add [of "255 * q + r" 255] by (simp add: algebra_simps)
    with Suc show ?case by (simp add: pow_x_cycle(1)) (simp add: pow_x_def)
  qed simp
  from this [of "n div 255" "n mod 255"] show ?thesis by simp
qed

lemma pow_x_onto: "x \<noteq> 0 \<Longrightarrow> \<exists>k < 255. x = pow_x k"
proof -
  assume x: "x \<noteq> 0"
  have "inj_on pow_x {..<255}" using pow_x_inj by (auto simp: inj_on_def)
  then have "card (pow_x ` {..<255}) = 255" by (simp add: card_image)
  moreover have "card (UNIV - {0 :: gf}) = 255" by (simp add: card_Diff_singleton card_word)
  moreover have "pow_x ` {..<255} \<subseteq> UNIV - {0}" using pow_x_nonzero by auto
  ultimately have "pow_x ` {..<255} = UNIV - {0}" by (intro card_subset_eq) simp_all
  with x have "x \<in> pow_x ` {..<255}" by simp
  then show ?thesis by auto
qed

lemma table_loop_powers:
  "fst (table_loop n i x es ls) = es @ map (\<lambda>k. (xtime ^^ k) x) [0..<n]"
proof (induction n arbitrary: i x es ls)
  case (Suc n)
  have "map (\<lambda>k. (xtime ^^ k) x) [0..<Suc n] = x # map (\<lambda>k. (xtime ^^ k) (xtime x)) [0..<n]"
    by (subst upt_conv_Cons) (simp_all add: map_Suc_upt [symmetric] o_def funpow_swap1 del: upt_Suc map_Suc_upt)
  with Suc show ?case by (simp del: upt_Suc)
qed simp

lemma table_loop_keeps: "\<forall>k < n. y \<noteq> (xtime ^^ k) x \<Longrightarrow> snd (table_loop n i x es ls) y = ls y"
proof (induction n arbitrary: i x es ls)
  case (Suc n)
  have "\<forall>k < n. y \<noteq> (xtime ^^ k) (xtime x)"
  proof (intro allI impI)
    fix k assume "k < n"
    with Suc.prems have "y \<noteq> (xtime ^^ Suc k) x" by blast
    then show "y \<noteq> (xtime ^^ k) (xtime x)" by (simp add: funpow_swap1)
  qed
  moreover have "y \<noteq> x" using Suc.prems by (auto dest: spec [of _ 0])
  ultimately show ?case using Suc.IH by simp
qed simp

lemma table_loop_logs:
  "\<lbrakk>\<forall>j < n. \<forall>k < n. (xtime ^^ j) x = (xtime ^^ k) x \<longrightarrow> j = k; k < n\<rbrakk> \<Longrightarrow> snd (table_loop n i x es ls) ((xtime ^^ k) x) = i + k"
proof (induction n arbitrary: i x es ls k)
  case (Suc n)
  have sw: "(xtime ^^ j) (xtime x) = (xtime ^^ Suc j) x" for j by (simp add: funpow_swap1)
  show ?case
  proof (cases k)
    case 0
    have "\<forall>j < n. x \<noteq> (xtime ^^ j) (xtime x)"
    proof (intro allI impI notI)
      fix j assume "j < n" "x = (xtime ^^ j) (xtime x)"
      with Suc.prems(1) [rule_format, of 0 "Suc j"] show False by (simp add: sw)
    qed
    with 0 show ?thesis by (simp add: table_loop_keeps)
  next
    case (Suc j)
    have "\<forall>a < n. \<forall>b < n. (xtime ^^ a) (xtime x) = (xtime ^^ b) (xtime x) \<longrightarrow> a = b"
      using Suc.prems(1) unfolding sw by (metis Suc_less_eq nat.inject)
    from Suc.IH [OF this, of j] Suc Suc.prems(2) show ?thesis by (simp add: sw [symmetric] del: funpow.simps)
  qed
qed simp

lemma EXP_pow_x: "i < 512 \<Longrightarrow> EXP i = pow_x i"
proof -
  assume i: "i < 512"
  have t: "fst tables = map pow_x [0..<255] @ map pow_x [0..<255] @ take 2 (map pow_x [0..<255])"
    unfolding tables_def pow_x_def [abs_def] by (simp add: table_loop_powers split_beta Let_def)
  have "EXP i = pow_x (i mod 255)"
  proof (cases "i < 255")
    case True
    then show ?thesis unfolding EXP_def t by (simp add: nth_append)
  next
    case False
    show ?thesis
    proof (cases "i < 510")
      case True
      with False have "i mod 255 = i - 255" "i - 255 < 255" by (simp_all add: mod_if)
      with True False show ?thesis unfolding EXP_def t by (simp add: nth_append)
    next
      case no: False
      with i have "i mod 255 = i - 510" "i - 510 < 2" "\<not> i < 255" "\<not> i - 255 < 255" by (simp_all add: mod_if)
      with no show ?thesis unfolding EXP_def t by (simp add: nth_append)
    qed
  qed
  then show ?thesis by (simp add: pow_x_mod)
qed

lemma LOG_pow_x: "k < 255 \<Longrightarrow> LOG (pow_x k) = k"
proof -
  assume k: "k < 255"
  have "\<forall>j < 255. \<forall>k < 255. (xtime ^^ j) 1 = (xtime ^^ k) 1 \<longrightarrow> j = k" using pow_x_inj unfolding pow_x_def by blast
  from table_loop_logs [OF this k] show ?thesis unfolding LOG_def tables_def by (simp add: split_beta Let_def pow_x_def)
qed

lemma gfMul_pow_x: "gfMul (pow_x i) (pow_x j) = pow_x (i + j)"
proof -
  have "gfMul (pow_x (i mod 255)) (pow_x (j mod 255)) = EXP (i mod 255 + j mod 255)"
    by (simp add: gfMul_def pow_x_nonzero LOG_pow_x del: One_nat_def)
  also have "\<dots> = pow_x (i mod 255 + j mod 255)"
  proof (rule EXP_pow_x)
    have "i mod 255 < 255" "j mod 255 < 255" by simp_all
    then show "i mod 255 + j mod 255 < 512" by linarith
  qed
  also have "\<dots> = pow_x (i + j)" using pow_x_mod [of "i + j"] pow_x_mod [of "i mod 255 + j mod 255"] by (simp add: mod_add_eq)
  finally show ?thesis by (simp add: pow_x_mod)
qed

lemma poly_mul_pow_x: "poly_mul a (pow_x n) = (xtime ^^ n) a"
proof (induction n)
  case 0
  have "bit (1 :: gf) k \<longleftrightarrow> k = 0" for k by (simp add: bit_1_iff)
  then show ?case by (simp add: poly_mul_def pow_x_def eval_nat_numeral)
next
  case (Suc n)
  then show ?case using poly_mul_xtime [of a "pow_x n"] by (simp add: pow_x_def)
qed

lemma poly_mul_zero: "poly_mul 0 b = 0" "poly_mul a 0 = 0"
  by (simp_all add: poly_mul_def eval_nat_numeral funpow_linear xtime_linear)

lemma gfMul_poly_mul: "gfMul a b = poly_mul a b"
proof (cases "a = 0 \<or> b = 0")
  case True
  then show ?thesis by (auto simp: gfMul_def poly_mul_zero)
next
  case False
  then obtain i j where "a = pow_x i" "b = pow_x j" using pow_x_onto by blast
  then show ?thesis using pow_x_add [of j i] by (simp add: gfMul_pow_x poly_mul_pow_x add.commute)
qed

text \<open>
  C29: The logarithm tables multiply correctly: for all 65536 pairs, \<^verbatim>\<open>gfMul\<close> is the product of the bytes as
  polynomials over GF(2), reduced by the primitive polynomial 0x11d.
\<close>

theorem gfMul_is_polynomial_product: "gfMul a b = poly_mul a b"
  by (rule gfMul_poly_mul)

section \<open>Polynomials over a ring of characteristic two\<close>

text \<open>What the error correction relies on, and what follows for polynomials with the leading coefficient first.\<close>

locale char2_ring =
  fixes add mul :: "'a \<Rightarrow> 'a \<Rightarrow> 'a" and zero one :: 'a
  assumes add_assoc: "add (add a b) c = add a (add b c)" and add_comm: "add a b = add b a"
    and add_zero: "add a zero = a" and add_self: "add a a = zero"
    and mul_assoc: "mul (mul a b) c = mul a (mul b c)" and mul_comm: "mul a b = mul b a"
    and mul_one: "mul a one = a" and mul_zero: "mul a zero = zero"
    and distrib: "mul (add a b) c = add (mul a c) (mul b c)"
begin

definition horner :: "'a \<Rightarrow> 'a \<Rightarrow> 'a list \<Rightarrow> 'a" where
  "horner z = foldl (\<lambda>acc c. add (mul acc z) c)"

abbreviation ev :: "'a list \<Rightarrow> 'a \<Rightarrow> 'a" where "ev xs z \<equiv> horner z zero xs"

lemma horner_simps [simp]: "horner z a [] = a" "horner z a (x # xs) = horner z (add (mul a z) x) xs"
  "horner z a (xs @ ys) = horner z (horner z a xs) ys"
  by (simp_all add: horner_def)

lemma zero_left [simp]: "add zero a = a" "mul zero a = zero"
  using add_zero add_comm mul_zero mul_comm by metis+

lemma add_left_comm: "add a (add b c) = add b (add a c)"
  using add_assoc add_comm by metis

lemma mul_left_comm: "mul a (mul b c) = mul b (mul a c)"
  using mul_assoc mul_comm by metis

lemma horner_add:
  "length xs = length ys \<Longrightarrow> horner z (add a b) (map2 add xs ys) = add (horner z a xs) (horner z b ys)"
proof (induction xs ys arbitrary: a b rule: list_induct2)
  case (Cons x xs y ys)
  have "add (mul (add a b) z) (add x y) = add (add (mul a z) x) (add (mul b z) y)"
    by (simp add: distrib add_assoc add_left_comm)
  then show ?case using Cons.IH [of "add (mul a z) x" "add (mul b z) y"] by simp
qed simp

lemma horner_scale: "horner z (mul a s) (map (\<lambda>x. mul x s) xs) = mul (horner z a xs) s"
proof (induction xs arbitrary: a)
  case (Cons x xs)
  have "add (mul (mul a s) z) (mul x s) = mul (add (mul a z) x) s"
    by (simp add: distrib mul_assoc mul_comm [of s z])
  with Cons show ?case by simp
qed simp

lemma ev_add: "length xs = length ys \<Longrightarrow> ev (map2 add xs ys) z = add (ev xs z) (ev ys z)"
  using horner_add [of xs ys z zero zero] by (simp add: add_zero)

lemma ev_scale: "ev (map (\<lambda>x. mul x s) xs) z = mul (ev xs z) s"
  using horner_scale [of z zero s xs] by simp

lemma horner_zeros: "horner z zero (replicate n zero) = zero"
  by (induction n) (simp_all add: add_zero)

lemma ev_leading_zeros: "ev (replicate n zero @ xs) z = ev xs z"
  by (simp add: horner_zeros)

lemma ev_trailing_zeros: "ev xs z = zero \<Longrightarrow> ev (xs @ replicate n zero) z = zero"
  by (simp add: horner_zeros)

text \<open>Multiplication by a linear factor, and a root of it.\<close>

lemma ev_factor:
  "ev (map2 add (poly @ [zero]) (zero # map (\<lambda>p. mul p r) poly)) z = mul (ev poly z) (add z r)"
proof -
  have "ev (map2 add (poly @ [zero]) (zero # map (\<lambda>p. mul p r) poly)) z = add (ev (poly @ [zero]) z) (ev (zero # map (\<lambda>p. mul p r) poly) z)"
    by (rule ev_add) simp
  also have "\<dots> = add (mul (ev poly z) z) (mul (ev poly z) r)" by (simp add: add_zero ev_scale)
  finally show ?thesis using distrib [of z r "ev poly z"] by (simp add: mul_comm)
qed

lemma factor_root: "ev (map2 add (poly @ [zero]) (zero # map (\<lambda>p. mul p r) poly)) r = zero"
  by (simp only: ev_factor add_self mul_zero)

lemma factor_keeps_root:
  "ev poly z = zero \<Longrightarrow> ev (map2 add (poly @ [zero]) (zero # map (\<lambda>p. mul p r) poly)) z = zero"
  by (simp only: ev_factor zero_left)

text \<open>Subtracting a multiple of the divisor changes nothing at its roots and clears the leading coefficient.\<close>

lemma division_step:
  assumes "ev gen z = zero" "gen = one # gs" "length gs \<le> length res"
  shows "ev (tl (map2 add (coef # res) (map (\<lambda>g. mul g coef) gen @ replicate (Suc (length res) - length gen) zero))) z = ev (coef # res) z"
proof -
  let ?m = "map (\<lambda>g. mul g coef) gen @ replicate (Suc (length res) - length gen) zero"
  have "ev ?m z = zero" using assms(1) by (intro ev_trailing_zeros) (simp add: ev_scale)
  moreover have "length (coef # res) = length ?m" using assms(2,3) by simp
  ultimately have e: "ev (map2 add (coef # res) ?m) z = ev (coef # res) z" using ev_add by (simp add: add_zero)
  have "mul one coef = coef" using mul_one mul_comm by metis
  then have "map2 add (coef # res) ?m = zero # tl (map2 add (coef # res) ?m)" using assms(2) by (simp add: add_self)
  then have "ev (map2 add (coef # res) ?m) z = ev (tl (map2 add (coef # res) ?m)) z" by (metis add_zero horner_simps(2) zero_left(2))
  with e show ?thesis by simp
qed

text \<open>Two remainders that agree: the concatenation with the remainder is zero at the point.\<close>

lemma codeword_zero:
  assumes "ev (data @ replicate (length ec) zero) z = ev ec z"
  shows "ev (data @ ec) z = zero"
proof -
  have "data @ ec = map2 add (data @ replicate (length ec) zero) (replicate (length data) zero @ ec)"
    by (rule nth_equalityI) (auto simp: nth_append add_zero)
  then have "ev (data @ ec) z = add (ev (data @ replicate (length ec) zero) z) (ev (replicate (length data) zero @ ec) z)"
    using ev_add [of "data @ replicate (length ec) zero" "replicate (length data) zero @ ec" z] by simp
  then show ?thesis by (simp only: assms ev_leading_zeros add_self)
qed

end

section \<open>The error correction\<close>

interpretation gf256: char2_ring "(XOR)" gfMul "0 :: gf" 1
proof
  fix a b c :: gf
  have one: "1 = pow_x 0" by (simp add: pow_x_def)
  have nz: "x = 0 \<or> (\<exists>i. x = pow_x i)" for x :: gf using pow_x_onto by blast
  have z: "gfMul 0 x = 0" "gfMul x 0 = 0" for x by (simp_all add: gfMul_def)
  show "gfMul (gfMul a b) c = gfMul a (gfMul b c)" "gfMul a b = gfMul b a" "gfMul a 1 = a"
    using nz [of a] nz [of b] nz [of c] unfolding one by (auto simp: z gfMul_pow_x ac_simps)
  show "gfMul a 0 = 0" by (rule z)
  show "gfMul (a XOR b) c = gfMul a c XOR gfMul b c"
    unfolding gfMul_poly_mul poly_mul_def by (rule shift_mul_linear)
qed (simp_all add: ac_simps)

definition poly_value :: "gf list \<Rightarrow> gf \<Rightarrow> gf" where
  "poly_value p z = foldl (\<lambda>acc c. gfMul acc z XOR c) 0 p"

lemma poly_value_ev: "poly_value p z = gf256.ev p z"
  by (simp add: poly_value_def gf256.horner_def)

lemma generator_form: "\<exists>gs. rsGenerator n = 1 # gs \<and> length gs = n"
proof (induction n)
  case (Suc n)
  then obtain gs where "rsGenerator n = 1 # gs" "length gs = n" by blast
  then show ?case by (simp add: times_factor_def)
qed simp

lemma generator_roots: "i < n \<Longrightarrow> gf256.ev (rsGenerator n) (EXP i) = 0"
proof (induction n)
  case (Suc n)
  show ?case
  proof (cases "i = n")
    case True
    then show ?thesis unfolding rsGenerator.simps times_factor_def by (simp only: gf256.factor_root)
  next
    case False
    with Suc have "gf256.ev (rsGenerator n) (EXP i) = 0" by simp
    then show ?thesis unfolding rsGenerator.simps times_factor_def by (rule gf256.factor_keeps_root)
  qed
qed simp

lemma rs_loop_length:
  assumes "gen = 1 # gs"
  shows "n + length gs \<le> length res \<Longrightarrow> length (rs_loop gen n res) = length res - n"
proof (induction n arbitrary: res)
  case (Suc n)
  then obtain coef rest where "res = coef # rest" by (cases res) simp_all
  then show ?case using Suc assms by (simp add: min_def)
qed simp

lemma rs_loop_ev:
  assumes "gf256.ev gen z = 0" "gen = 1 # gs"
  shows "n + length gs \<le> length res \<Longrightarrow>
    gf256.ev (rs_loop gen n res) z = gf256.ev res z \<and> length (rs_loop gen n res) = length res - n"
proof (induction n arbitrary: res)
  case (Suc n)
  then obtain coef rest where r: "res = coef # rest" by (cases res) simp_all
  let ?t = "if coef \<noteq> 0 then tl (map2 (XOR) (coef # rest) (map (\<lambda>g. gfMul g coef) gen @ replicate (Suc (length rest) - length gen) 0)) else rest"
  have len: "length ?t = length rest" using Suc.prems r assms(2) by simp
  have "gf256.ev ?t z = gf256.ev res z"
  proof (cases "coef = 0")
    case True
    then show ?thesis by (simp add: r)
  next
    case False
    have "length gs \<le> length rest" using Suc.prems r by simp
    from gf256.division_step [OF assms this] False show ?thesis unfolding r by simp
  qed
  moreover have "rs_loop gen (Suc n) res = rs_loop gen n ?t" by (simp add: r)
  ultimately show ?case using Suc.IH [of ?t] Suc.prems len r by simp
qed simp

lemma rs_codeword:
  "length (rsEncode data ecLen) = ecLen \<and> (\<forall>i < ecLen. poly_value (data @ rsEncode data ecLen) (EXP i) = 0)"
proof -
  obtain gs where g: "rsGenerator ecLen = 1 # gs" "length gs = ecLen" using generator_form by blast
  have len: "length data + length gs \<le> length (data @ replicate ecLen 0)" using g by simp
  have l: "length (rsEncode data ecLen) = ecLen" using rs_loop_length [OF g(1) len] unfolding rsEncode_def by simp
  have "gf256.ev (rsEncode data ecLen) (EXP i) = gf256.ev (data @ replicate ecLen 0) (EXP i)" if "i < ecLen" for i
    using rs_loop_ev [OF generator_roots [OF that] g(1) len] unfolding rsEncode_def by blast
  with l show ?thesis unfolding poly_value_ev by (metis gf256.codeword_zero)
qed

text \<open>
  A block with its error-correction codewords is a codeword of the Reed-Solomon code: as a polynomial it
  vanishes at the first \<open>ecLen\<close> powers of the generator, which is what a decoder's syndromes test, and
  there are exactly \<open>ecLen\<close> codewords.
\<close>

theorem rsEncode_is_codeword:
  "length (rsEncode data ecLen) = ecLen \<and> (\<forall>i < ecLen. poly_value (data @ rsEncode data ecLen) (EXP i) = 0)"
  by (rule rs_codeword)

theorem rsEncode_is_codeword_witness:
  "poly_value ([32, 91, 11] @ rsEncode [32, 91, 11] 2) (EXP 1) = 0"
  using rsEncode_is_codeword [of "[32, 91, 11]" 2] by simp

end
