(* ===== verification/QrCode.thy ===== *)
theory QrCode
  imports QrField
begin

unbundle bit_operations_syntax

text \<open>
  From the bytes of the payload to the codewords of the symbol, \<^verbatim>\<open>packages/cli/src/qr.ts\<close>: the level-M
  tables, the choice of the version, the bit stream, its padding, the blocks with their error correction,
  and the interleaving. \<^verbatim>\<open>readCodewords\<close> is the reference: it undoes the interleaving, tests the syndromes
  of every block and parses the byte segment.
\<close>

section \<open>Tables\<close>

text \<open>\<^verbatim>\<open>EC_M\<close> and \<^verbatim>\<open>ALIGN\<close>, indexed by the version, 1 to 15; nothing reads them at another index.\<close>

definition EC_M :: "nat \<Rightarrow> nat \<times> (nat \<times> nat) list" where
  "EC_M v = [(10, [(1, 16)]), (16, [(1, 28)]), (26, [(1, 44)]), (18, [(2, 32)]), (24, [(2, 43)]),
     (16, [(4, 27)]), (18, [(4, 31)]), (22, [(2, 38), (2, 39)]), (22, [(3, 36), (2, 37)]),
     (26, [(4, 43), (1, 44)]), (30, [(1, 50), (4, 51)]), (22, [(6, 36), (2, 37)]),
     (22, [(8, 37), (1, 38)]), (24, [(4, 40), (5, 41)]), (24, [(5, 41), (5, 42)])] ! (v - 1)"

definition dataCodewords :: "nat \<Rightarrow> nat" where
  "dataCodewords v = foldl (\<lambda>s (n, d). s + n * d) 0 (snd (EC_M v))"

definition countBits :: "nat \<Rightarrow> nat" where
  "countBits v = (if v \<le> 9 then 8 else 16)"

datatype qr_error = PayloadTooLarge nat

definition fits :: "nat \<Rightarrow> nat \<Rightarrow> bool" where
  "fits byteLen v = (4 + countBits v + byteLen * 8 \<le> dataCodewords v * 8)"

fun pick_loop :: "nat \<Rightarrow> nat list \<Rightarrow> qr_error + nat" where
  "pick_loop byteLen [] = Inl (PayloadTooLarge byteLen)"
| "pick_loop byteLen (v # vs) = (if fits byteLen v then Inr v else pick_loop byteLen vs)"

definition pickVersion :: "nat \<Rightarrow> qr_error + nat" where
  "pickVersion byteLen = pick_loop byteLen [1..<16]"

section \<open>The bit stream\<close>

text \<open>\<^verbatim>\<open>BitBuffer.put\<close>: the low \<open>len\<close> bits, most significant first.\<close>

definition bb_put :: "nat \<Rightarrow> nat \<Rightarrow> nat list \<Rightarrow> nat list" where
  "bb_put k len bits = bits @ map (\<lambda>i. drop_bit i k AND 1) (rev [0..<len])"

fun terminator :: "nat \<Rightarrow> nat \<Rightarrow> nat list \<Rightarrow> nat list" where
  "terminator 0 cap bits = bits"
| "terminator (Suc n) cap bits = (if length bits < cap then terminator n cap (bits @ [0]) else bits)"

lemma byte_boundary_closer:
  assumes "n mod 8 \<noteq> 0"
  shows "(8 - Suc n mod 8) mod 8 < (8 - n mod 8) mod (8::nat)"
proof (cases "Suc (n mod 8) = 8")
  case True
  moreover from this have "n mod 8 = 7" by simp
  ultimately show ?thesis by (simp add: mod_Suc)
next
  case False
  moreover have "n mod 8 < 8" by simp
  ultimately have "Suc n mod 8 = Suc (n mod 8)" "Suc (n mod 8) < 8" by (auto simp: mod_Suc)
  then show ?thesis using assms by simp
qed

function byte_boundary :: "nat list \<Rightarrow> nat list" where
  "byte_boundary bits = (if length bits mod 8 \<noteq> 0 then byte_boundary (bits @ [0]) else bits)"
  by auto

termination byte_boundary
  by (relation "measure (\<lambda>bits. (8 - length bits mod 8) mod 8)")
    (simp, simp only: in_measure length_append list.size add_0_right add_Suc_right, rule byte_boundary_closer)

declare byte_boundary.simps [simp del]

fun pack :: "nat list \<Rightarrow> gf list" where
  "pack [] = []"
| "pack (b # bs) = word_of_nat (foldl (\<lambda>acc x. push_bit 1 acc OR x) 0 (take 8 (b # bs))) # pack (drop 8 (b # bs))"

function pad_codewords :: "nat \<Rightarrow> nat \<Rightarrow> gf list \<Rightarrow> gf list" where
  "pad_codewords totalData i cw = (if length cw < totalData then pad_codewords totalData (Suc i) (cw @ [[0xec, 0x11] ! (i mod 2)]) else cw)"
  by auto

termination pad_codewords
  by (relation "measure (\<lambda>(totalData, i, cw). totalData - length cw)") auto

declare pad_codewords.simps [simp del]

definition segment_bits :: "gf list \<Rightarrow> nat \<Rightarrow> nat list" where
  "segment_bits bytes version =
     foldl (\<lambda>bits b. bb_put (unat b) 8 bits) (bb_put (length bytes) (countBits version) (bb_put 4 4 [])) bytes"

definition data_codewords :: "gf list \<Rightarrow> nat \<Rightarrow> gf list" where
  "data_codewords bytes version =
     (let totalData = dataCodewords version;
          bits = byte_boundary (terminator 4 (totalData * 8) (segment_bits bytes version))
      in pad_codewords totalData 0 (pack bits))"

section \<open>Blocks\<close>

record block =
  bdata :: "gf list"
  bec :: "gf list"

fun group_blocks :: "nat \<Rightarrow> gf list \<Rightarrow> nat \<Rightarrow> nat \<Rightarrow> nat \<times> block list \<Rightarrow> nat \<times> block list" where
  "group_blocks ecLen dataCw dpb 0 (pos, blocks) = (pos, blocks)"
| "group_blocks ecLen dataCw dpb (Suc n) (pos, blocks) =
     (let d = take dpb (drop pos dataCw)
      in group_blocks ecLen dataCw dpb n (pos + dpb, blocks @ [\<lparr>bdata = d, bec = rsEncode d ecLen\<rparr>]))"

definition make_blocks :: "nat \<Rightarrow> (nat \<times> nat) list \<Rightarrow> gf list \<Rightarrow> block list" where
  "make_blocks ecLen groups dataCw =
     snd (foldl (\<lambda>st (n, dpb). group_blocks ecLen dataCw dpb n st) (0, []) groups)"

definition interleave :: "nat \<Rightarrow> 'a list list \<Rightarrow> 'a list" where
  "interleave n bs = concat (map (\<lambda>i. concat (map (\<lambda>b. if i < length b then [b ! i] else []) bs)) [0..<n])"

definition makeCodewords :: "gf list \<Rightarrow> nat \<Rightarrow> gf list" where
  "makeCodewords bytes version =
     (let (ecLen, groups) = EC_M version;
          blocks = make_blocks ecLen groups (data_codewords bytes version);
          maxData = foldl max 0 (map (length \<circ> bdata) blocks)
      in interleave maxData (map bdata blocks) @ concat (map (\<lambda>i. map (\<lambda>b. bec b ! i) blocks) [0..<ecLen]))"

section \<open>The choice of the version\<close>

lemma versions: "v \<in> {1..15} \<longleftrightarrow> v = 1 \<or> v = 2 \<or> v = 3 \<or> v = 4 \<or> v = 5 \<or> v = 6 \<or> v = 7 \<or> v = 8 \<or> v = 9
    \<or> v = 10 \<or> v = 11 \<or> v = 12 \<or> v = 13 \<or> v = 14 \<or> v = (15::nat)"
  by (simp add: atLeastAtMost_iff) presburger

definition qr_capacity :: "nat \<Rightarrow> nat" where
  "qr_capacity v = [14, 26, 42, 62, 84, 106, 122, 152, 180, 213, 251, 287, 331, 362, 412] ! (v - 1)"

lemma all_versions: "(\<forall>v \<in> {1..15::nat}. P v) \<longleftrightarrow> P 1 \<and> P 2 \<and> P 3 \<and> P 4 \<and> P 5 \<and> P 6 \<and> P 7 \<and> P 8 \<and> P 9
    \<and> P 10 \<and> P 11 \<and> P 12 \<and> P 13 \<and> P 14 \<and> P 15"
  unfolding Ball_def versions by blast

lemma fits_capacity: "v \<in> {1..15} \<Longrightarrow> fits n v \<longleftrightarrow> n \<le> qr_capacity v"
  unfolding versions fits_def countBits_def dataCodewords_def EC_M_def qr_capacity_def by (elim disjE) (simp, presburger)+

lemma pick_loop_Inr:
  "pick_loop n [a..<b] = Inr v \<longleftrightarrow> a \<le> v \<and> v < b \<and> fits n v \<and> (\<forall>u \<in> {a..<v}. \<not> fits n u)"
proof (induction "b - a" arbitrary: a)
  case (Suc k)
  then have u: "[a..<b] = a # [Suc a..<b]" by (simp add: upt_conv_Cons)
  have IH: "pick_loop n [Suc a..<b] = Inr v \<longleftrightarrow> Suc a \<le> v \<and> v < b \<and> fits n v \<and> (\<forall>u \<in> {Suc a..<v}. \<not> fits n u)"
    using Suc by simp
  show ?case
  proof (cases "fits n a")
    case True
    then show ?thesis using Suc.hyps(2) by (auto simp: u)
  next
    case False
    then have "(\<forall>u \<in> {a..<v}. \<not> fits n u) \<longleftrightarrow> (\<forall>u \<in> {Suc a..<v}. \<not> fits n u)"
      by (metis Suc_leI atLeastLessThan_iff nat_less_le Suc_leD)
    with False IH show ?thesis by (auto simp: u) (metis Suc_leI nat_less_le)
  qed
qed auto

lemma pick_loop_Inl: "pick_loop n vs = Inl e \<longleftrightarrow> e = PayloadTooLarge n \<and> (\<forall>v \<in> set vs. \<not> fits n v)"
  by (induction vs) auto

lemma pickVersion_ok:
  "pickVersion n = Inr v \<longleftrightarrow> v \<in> {1..15} \<and> n \<le> qr_capacity v \<and> (\<forall>u \<in> {1..<v}. qr_capacity u < n)"
  unfolding pickVersion_def pick_loop_Inr by (auto simp: fits_capacity not_le)

lemma pickVersion_error: "pickVersion n = Inl e \<longleftrightarrow> e = PayloadTooLarge n \<and> 412 < n"
proof -
  have "(\<forall>v \<in> {1..15}. qr_capacity v < n) \<longleftrightarrow> 412 < n"
    unfolding all_versions qr_capacity_def by auto
  moreover have "set [1..<16] = {1..15::nat}" by auto
  ultimately show ?thesis unfolding pickVersion_def pick_loop_Inl by (metis fits_capacity not_le)
qed

text \<open>
  The version chosen is the smallest of 1 to 15 whose level-M capacity, as the standard tabulates it
  (14 bytes to 412 bytes), holds the payload; it fails, with the length, exactly above 412 bytes.
\<close>

theorem pickVersion_least:
  "(pickVersion n = Inr v \<longleftrightarrow> v \<in> {1..15} \<and> n \<le> qr_capacity v \<and> (\<forall>u \<in> {1..<v}. qr_capacity u < n))
   \<and> (pickVersion n = Inl e \<longleftrightarrow> e = PayloadTooLarge n \<and> 412 < n)"
  using pickVersion_ok pickVersion_error by simp

theorem pickVersion_least_witness: "pickVersion 26 = Inr 2 \<and> pickVersion 413 = Inl (PayloadTooLarge 413)"
  using pickVersion_least [of 26 2 "PayloadTooLarge 26"] pickVersion_least [of 413 1 "PayloadTooLarge 413"]
  by (simp add: qr_capacity_def)

section \<open>The bits of the segment\<close>

definition byte_bits :: "gf \<Rightarrow> nat list" where
  "byte_bits b = bb_put (unat b) 8 []"

definition bits_value :: "nat list \<Rightarrow> nat" where
  "bits_value bits = foldl (\<lambda>acc x. 2 * acc + x) 0 bits"

lemma bits_value_snoc [simp]: "bits_value (xs @ [x]) = 2 * bits_value xs + x"
  by (simp add: bits_value_def)

lemma bb_put_append: "bb_put k len bits = bits @ bb_put k len []"
  by (simp add: bb_put_def)

lemma length_bb_put [simp]: "length (bb_put k len bits) = length bits + len"
  by (simp add: bb_put_def)

lemma bits_small: "x \<in> set (bb_put k len []) \<Longrightarrow> x < 2"
  by (auto simp: bb_put_def and_one_eq)

lemma bb_put_Suc: "bb_put k (Suc len) [] = bb_put (k div 2) len [] @ [k mod 2]"
proof -
  have "rev [0..<Suc len] = map Suc (rev [0..<len]) @ [0]" by (simp add: upt_conv_Cons rev_map flip: map_Suc_upt del: upt_Suc)
  then show ?thesis by (simp add: bb_put_def drop_bit_Suc and_one_eq del: upt_Suc)
qed

lemma bits_value_put: "bits_value (bb_put k len []) = k mod 2 ^ len"
proof (induction len arbitrary: k)
  case (Suc len)
  then show ?case by (simp add: bb_put_Suc mod_mult2_eq)
qed (simp add: bb_put_def bits_value_def)

lemma foldl_or_value: "\<forall>x \<in> set bits. x < 2 \<Longrightarrow> foldl (\<lambda>acc x. push_bit 1 acc OR x) 0 bits = bits_value bits"
proof (induction bits rule: rev_induct)
  case (snoc x xs)
  then have "x = 0 \<or> x = 1" by auto
  with snoc show ?case by (auto simp: push_bit_eq_mult or_one_eq or_Suc_0_eq)
qed (simp add: bits_value_def)

lemma put_bits_value:
  "\<forall>x \<in> set bits. x < 2 \<Longrightarrow> bb_put (bits_value bits) (length bits) [] = bits"
proof (induction bits rule: rev_induct)
  case (snoc x xs)
  then have "(2 * bits_value xs + x) div 2 = bits_value xs" "(2 * bits_value xs + x) mod 2 = x" by auto
  with snoc show ?case by (simp add: bb_put_Suc)
qed (simp add: bb_put_def)

lemma bits_value_less: "\<forall>x \<in> set bits. x < 2 \<Longrightarrow> bits_value bits < 2 ^ length bits"
proof (induction bits rule: rev_induct)
  case (snoc x xs)
  then have "x < 2" "bits_value xs < 2 ^ length xs" by simp_all
  then show ?case by simp
qed (simp add: bits_value_def)

lemma pack_step: "bits \<noteq> [] \<Longrightarrow> \<forall>x \<in> set bits. x < 2 \<Longrightarrow> pack bits = word_of_nat (bits_value (take 8 bits)) # pack (drop 8 bits)"
proof (cases bits)
  case (Cons b bs)
  assume "\<forall>x \<in> set bits. x < 2"
  then have "\<forall>x \<in> set (take 8 bits). x < 2" by (meson in_set_takeD)
  then show ?thesis using foldl_or_value [of "take 8 bits"] by (simp only: Cons pack.simps)
qed simp

lemma unpack_pack:
  "8 dvd length bits \<Longrightarrow> \<forall>x \<in> set bits. x < 2 \<Longrightarrow>
    concat (map byte_bits (pack bits)) = bits \<and> length (pack bits) = length bits div 8"
proof (induction "length bits" arbitrary: bits rule: less_induct)
  case less
  show ?case
  proof (cases "bits = []")
    case False
    with less.prems(1) have len: "8 \<le> length bits" by (auto intro: dvd_imp_le)
    have sm: "\<forall>x \<in> set (take 8 bits). x < 2" "\<forall>x \<in> set (drop 8 bits). x < 2"
      using less.prems(2) by (meson in_set_takeD in_set_dropD)+
    have t: "length (take 8 bits) = 8" using len by simp
    have v: "bits_value (take 8 bits) < 2 ^ 8" using bits_value_less [OF sm(1)] unfolding t .
    have b: "byte_bits (word_of_nat (bits_value (take 8 bits))) = take 8 bits"
      using put_bits_value [OF sm(1)] v unfolding t by (simp add: byte_bits_def unat_of_nat)
    have d: "8 dvd length (drop 8 bits)" using less.prems(1) len by simp
    have l: "length (drop 8 bits) < length bits" using len by simp
    have "length bits div 8 = Suc ((length bits - 8) div 8)" using len by (simp add: le_div_geq)
    then show ?thesis using less.hyps [OF l d sm(2)] by (simp add: pack_step [OF False less.prems(2)] b)
  qed simp
qed

lemma segment_bits_form:
  "segment_bits bytes v = bb_put 4 4 [] @ bb_put (length bytes) (countBits v) [] @ concat (map byte_bits bytes)"
proof -
  have "foldl (\<lambda>bits b. bb_put (unat b) 8 bits) acc bytes = acc @ concat (map byte_bits bytes)" for acc
  proof (induction bytes arbitrary: acc)
    case (Cons b bytes)
    then show ?case using bb_put_append [of "unat b" 8 acc] by (simp add: byte_bits_def)
  qed simp
  then show ?thesis using bb_put_append [of "length bytes" "countBits v" "bb_put 4 4 []"] by (simp add: segment_bits_def)
qed

lemma length_byte_bits [simp]: "length (byte_bits b) = 8"
  by (simp add: byte_bits_def)

lemma length_concat_byte_bits: "length (concat (map byte_bits bytes)) = 8 * length bytes"
  by (induction bytes) simp_all

lemma segment_bits_small: "\<forall>x \<in> set (segment_bits bytes v). x < 2"
  unfolding segment_bits_form by (auto simp: byte_bits_def intro: bits_small)

lemma length_segment_bits: "length (segment_bits bytes v) = 4 + countBits v + length bytes * 8"
  by (simp add: segment_bits_form length_concat_byte_bits)

text \<open>Terminator and byte boundary append zeros and stay within the capacity, which is a number of bytes.\<close>

lemma terminator_form: "length bits \<le> cap \<Longrightarrow>
    \<exists>n. terminator k cap bits = bits @ replicate n 0 \<and> length (terminator k cap bits) \<le> cap"
proof (induction k arbitrary: bits)
  case 0
  then show ?case by (intro exI [of _ 0]) simp
next
  case (Suc k)
  show ?case
  proof (cases "length bits < cap")
    case True
    then obtain n where "terminator k cap (bits @ [0]) = (bits @ [0]) @ replicate n 0" "length (terminator k cap (bits @ [0])) \<le> cap"
      using Suc.IH [of "bits @ [0]"] by auto
    then show ?thesis using True by (intro exI [of _ "Suc n"]) simp
  next
    case False
    then show ?thesis using Suc.prems by (intro exI [of _ 0]) simp
  qed
qed

lemma byte_boundary_form: "length bits \<le> 8 * m \<Longrightarrow>
    \<exists>n. byte_boundary bits = bits @ replicate n 0 \<and> 8 dvd length (byte_boundary bits) \<and> length (byte_boundary bits) \<le> 8 * m"
proof (induction bits rule: byte_boundary.induct)
  case (1 bits)
  show ?case
  proof (cases "length bits mod 8 = 0")
    case True
    then show ?thesis using 1(2) by (intro exI [of _ 0]) (simp add: byte_boundary.simps [of bits] dvd_eq_mod_eq_0)
  next
    case False
    then have "length bits \<noteq> 8 * m" by auto
    then have "length (bits @ [0]) \<le> 8 * m" using 1(2) by simp
    then obtain n where "byte_boundary (bits @ [0]) = (bits @ [0]) @ replicate n 0"
      "8 dvd length (byte_boundary (bits @ [0]))" "length (byte_boundary (bits @ [0])) \<le> 8 * m"
      using 1(1) [OF False] by blast
    then show ?thesis using False by (intro exI [of _ "Suc n"]) (simp add: byte_boundary.simps [of bits])
  qed
qed

lemma pad_codewords_form: "\<exists>ps. pad_codewords m i cw = cw @ ps \<and> length (pad_codewords m i cw) = max m (length cw)"
proof (induction m i cw rule: pad_codewords.induct)
  case (1 m i cw)
  show ?case
  proof (cases "length cw < m")
    case True
    then obtain ps where "pad_codewords m (Suc i) (cw @ [[0xec, 0x11] ! (i mod 2)]) = (cw @ [[0xec, 0x11] ! (i mod 2)]) @ ps"
      "length (pad_codewords m (Suc i) (cw @ [[0xec, 0x11] ! (i mod 2)])) = max m (length (cw @ [[0xec, 0x11] ! (i mod 2)]))"
      using 1 by blast
    then show ?thesis using True by (subst (1 2) pad_codewords.simps) simp
  next
    case False
    then show ?thesis by (subst (1 2) pad_codewords.simps) simp
  qed
qed

lemma data_codewords_form:
  assumes "fits (length bytes) v"
  shows "\<exists>rest. concat (map byte_bits (data_codewords bytes v)) = segment_bits bytes v @ rest"
    and "length (data_codewords bytes v) = dataCodewords v"
proof -
  let ?s = "segment_bits bytes v" and ?t = "dataCodewords v"
  have "length ?s \<le> ?t * 8" using assms by (simp add: length_segment_bits fits_def)
  from terminator_form [OF this, of 4] obtain n where t: "terminator 4 (?t * 8) ?s = ?s @ replicate n 0"
    "length (terminator 4 (?t * 8) ?s) \<le> 8 * ?t" by (auto simp: mult.commute)
  let ?b = "byte_boundary (terminator 4 (?t * 8) ?s)"
  from byte_boundary_form [OF t(2)] obtain m where b: "?b = ?s @ replicate n 0 @ replicate m 0" "8 dvd length ?b" "length ?b \<le> 8 * ?t"
    unfolding t(1) by auto
  have "\<forall>x \<in> set ?b. x < 2" using segment_bits_small unfolding b(1) by auto
  note u = unpack_pack [OF b(2) this]
  obtain ps where p: "pad_codewords ?t 0 (pack ?b) = pack ?b @ ps"
    "length (pad_codewords ?t 0 (pack ?b)) = max ?t (length (pack ?b))" using pad_codewords_form by blast
  have "length ?b div 8 \<le> ?t" using b(3) by (metis div_le_mono nonzero_mult_div_cancel_left zero_neq_numeral)
  then show "length (data_codewords bytes v) = ?t" using p(2) u by (simp add: data_codewords_def Let_def max_def)
  have "concat (map byte_bits (data_codewords bytes v)) = ?b @ concat (map byte_bits ps)"
    using p(1) u by (simp add: data_codewords_def Let_def)
  then show "\<exists>rest. concat (map byte_bits (data_codewords bytes v)) = ?s @ rest" unfolding b(1) by auto
qed

section \<open>The blocks and their order\<close>

abbreviation block_sizes :: "(nat \<times> nat) list \<Rightarrow> nat list" where
  "block_sizes groups \<equiv> concat (map (\<lambda>(n, d). replicate n d) groups)"

fun cut :: "nat list \<Rightarrow> 'a list \<Rightarrow> 'a list list" where
  "cut [] xs = []"
| "cut (n # ns) xs = take n xs # cut ns (drop n xs)"

lemma cut_append: "cut (ms @ ns) xs = cut ms xs @ cut ns (drop (sum_list ms) xs)"
  by (induction ms arbitrary: xs) (simp_all add: add.commute)

lemma concat_cut: "sum_list ns = length xs \<Longrightarrow> concat (cut ns xs) = xs"
  by (induction ns arbitrary: xs) simp_all

lemma length_cut: "sum_list ns \<le> length xs \<Longrightarrow> map length (cut ns xs) = ns"
  by (induction ns arbitrary: xs) simp_all

abbreviation mk_block :: "nat \<Rightarrow> gf list \<Rightarrow> block" where
  "mk_block ecLen d \<equiv> \<lparr>bdata = d, bec = rsEncode d ecLen\<rparr>"

lemma group_blocks_form:
  "group_blocks ecLen cw dpb n (pos, bs) = (pos + n * dpb, bs @ map (mk_block ecLen) (cut (replicate n dpb) (drop pos cw)))"
  by (induction n arbitrary: pos bs) (simp_all add: Let_def add.commute)

lemma make_blocks_form: "make_blocks ecLen groups cw = map (mk_block ecLen) (cut (block_sizes groups) cw)"
proof -
  have "foldl (\<lambda>st (n, dpb). group_blocks ecLen cw dpb n st) (pos, bs) groups =
    (pos + sum_list (block_sizes groups), bs @ map (mk_block ecLen) (cut (block_sizes groups) (drop pos cw)))" for pos bs
  proof (induction groups arbitrary: pos bs)
    case (Cons g groups)
    obtain n d where "g = (n, d)" by (cases g)
    then show ?case using Cons by (simp add: group_blocks_form cut_append sum_list_replicate add.commute add.left_commute)
  qed simp
  from this [of 0 "[]"] show ?thesis by (simp add: make_blocks_def)
qed

lemma sum_block_sizes: "dataCodewords v = sum_list (block_sizes (snd (EC_M v)))"
proof -
  have "foldl (\<lambda>s (n, d). s + n * d) a gs = a + sum_list (block_sizes gs)" for a and gs :: "(nat \<times> nat) list"
    by (induction gs arbitrary: a) (auto simp: sum_list_replicate)
  then show ?thesis by (simp add: dataCodewords_def)
qed

text \<open>The reference for the order: deal the codewords back, column by column, to blocks of known sizes.\<close>

fun deal_column :: "nat \<Rightarrow> (nat \<times> 'a list) list \<Rightarrow> 'a list \<Rightarrow> (nat \<times> 'a list) list \<times> 'a list" where
  "deal_column i [] xs = ([], xs)"
| "deal_column i ((n, ys) # bs) xs =
     (if i < n \<and> xs \<noteq> [] then (let (bs', r) = deal_column i bs (tl xs) in ((n, ys @ [hd xs]) # bs', r))
      else (let (bs', r) = deal_column i bs xs in ((n, ys) # bs', r)))"

definition deal :: "nat list \<Rightarrow> 'a list \<Rightarrow> 'a list list \<times> 'a list" where
  "deal sizes xs =
     (let (bs, r) = foldl (\<lambda>(bs, r) i. deal_column i bs r) (map (\<lambda>n. (n, [])) sizes, xs) [0..<foldl max 0 sizes]
      in (map snd bs, r))"

lemma deal_column_inverts:
  "deal_column i (map (\<lambda>b. (length b, take i b)) bs) (concat (map (\<lambda>b. if i < length b then [b ! i] else []) bs) @ rest)
   = (map (\<lambda>b. (length b, take (Suc i) b)) bs, rest)"
  by (induction bs) (auto simp: take_Suc_conv_app_nth)

lemma deal_columns_invert:
  "foldl (\<lambda>(bs, r) i. deal_column i bs r) (map (\<lambda>b. (length b, [])) bs, interleave n bs @ rest) [0..<n]
   = (map (\<lambda>b. (length b, take n b)) bs, rest)"
proof (induction n arbitrary: rest)
  case (Suc n)
  have "interleave (Suc n) bs @ rest = interleave n bs @ (concat (map (\<lambda>b. if n < length b then [b ! n] else []) bs) @ rest)"
    by (simp add: interleave_def)
  then show ?case using Suc by (simp add: deal_column_inverts)
qed (simp add: interleave_def)

lemma foldl_max_ge: "x \<in> set xs \<or> x \<le> a \<Longrightarrow> x \<le> foldl max a (xs :: nat list)"
  by (induction xs arbitrary: a) (auto simp: le_max_iff_disj)

lemma deal_inverts: "deal (map length bs) (interleave (foldl max 0 (map length bs)) bs @ rest) = (bs, rest)"
proof -
  have "length b \<le> foldl max 0 (map length bs)" if "b \<in> set bs" for b using that by (intro foldl_max_ge) simp
  then have "map (\<lambda>b. take (foldl max 0 (map length bs)) b) bs = bs" by (intro map_idI) simp
  then show ?thesis using deal_columns_invert [of bs "foldl max 0 (map length bs)" rest]
    by (simp add: deal_def comp_def)
qed

section \<open>Reading the codewords back\<close>

text \<open>The reference reader of the codewords; \<^verbatim>\<open>None\<close> is a damaged block or another mode than bytes.\<close>

definition parse_segment :: "nat \<Rightarrow> nat list \<Rightarrow> gf list option" where
  "parse_segment v bits =
     (if bits_value (take 4 bits) \<noteq> 4 then None
      else (let n = bits_value (take (countBits v) (drop 4 bits)); rest = drop (4 + countBits v) bits
            in Some (map (word_of_nat \<circ> bits_value) (cut (replicate n 8) rest))))"

definition undamaged :: "nat \<Rightarrow> gf list \<Rightarrow> gf list \<Rightarrow> bool" where
  "undamaged ecLen d e = (length e = ecLen \<and> (\<forall>i \<in> set [0..<ecLen]. poly_value (d @ e) (EXP i) = 0))"

definition readCodewords :: "nat \<Rightarrow> gf list \<Rightarrow> gf list option" where
  "readCodewords v cw =
     (let (ecLen, groups) = EC_M v; sizes = block_sizes groups;
          (ds, r) = deal sizes cw; (es, _) = deal (replicate (length sizes) ecLen) r
      in if list_all2 (undamaged ecLen) ds es then parse_segment v (concat (map byte_bits (concat ds))) else None)"

lemma bits_value_byte_bits: "word_of_nat (bits_value (byte_bits b)) = b"
  by (simp add: byte_bits_def bits_value_put unsigned_less [of b, simplified])

lemma cut_byte_bits: "cut (replicate (length bytes) 8) (concat (map byte_bits bytes) @ rest) = map byte_bits bytes"
  by (induction bytes) simp_all

lemma parse_segment_bits:
  assumes "length bytes < 2 ^ countBits v"
  shows "parse_segment v (segment_bits bytes v @ rest) = Some bytes"
proof -
  have "bits_value (bb_put 4 4 []) = 4" by (simp add: bits_value_put)
  moreover have "bits_value (bb_put (length bytes) (countBits v) []) = length bytes" using assms by (simp add: bits_value_put)
  ultimately show ?thesis
    by (simp add: parse_segment_def segment_bits_form Let_def cut_byte_bits bits_value_byte_bits comp_def)
qed

lemma rsEncode_ok: "undamaged ecLen d (rsEncode d ecLen)"
  using rs_codeword [of d ecLen] by (simp add: undamaged_def)

lemma ec_columns:
  assumes "\<forall>e \<in> set es. length e = n"
  shows "concat (map (\<lambda>i. map (\<lambda>e. e ! i) es) [0..<n]) = interleave (foldl max 0 (map length es)) es"
proof (cases es)
  case (Cons e es')
  have "map length es = replicate (length es) n" using assms by (simp add: map_replicate_const [symmetric] cong: map_cong)
  moreover have "foldl max n (replicate k n) = n" for k by (induction k) simp_all
  ultimately have "foldl max 0 (map length es) = n" by (simp add: Cons)
  moreover have "concat (map (\<lambda>b. if i < length b then [b ! i] else []) es) = map (\<lambda>e. e ! i) es" if "i < n" for i
    using assms that by (induction es) auto
  ultimately show ?thesis unfolding interleave_def by (auto intro!: arg_cong [where f = concat] map_cong)
qed (simp add: interleave_def)

lemma makeCodewords_form:
  assumes "EC_M v = (ecLen, groups)" "ds = cut (block_sizes groups) (data_codewords bytes v)" "es = map (\<lambda>d. rsEncode d ecLen) ds"
  shows "makeCodewords bytes v = interleave (foldl max 0 (map length ds)) ds @ interleave (foldl max 0 (map length es)) es"
proof -
  have "\<forall>e \<in> set es. length e = ecLen" using rs_codeword unfolding assms(3) by auto
  from ec_columns [OF this] show ?thesis
    unfolding makeCodewords_def assms(1) prod.case Let_def make_blocks_form assms(2) [symmetric]
    by (simp add: comp_def assms(3))
qed

lemma read_makeCodewords:
  assumes "fits (length bytes) v" "length bytes < 2 ^ countBits v"
  shows "readCodewords v (makeCodewords bytes v) = Some bytes"
proof -
  obtain ecLen groups where e: "EC_M v = (ecLen, groups)" by (cases "EC_M v")
  define ds es where "ds = cut (block_sizes groups) (data_codewords bytes v)" and "es = map (\<lambda>d. rsEncode d ecLen) ds"
  have len: "length (data_codewords bytes v) = sum_list (block_sizes groups)"
    using data_codewords_form(2) [OF assms(1)] sum_block_sizes [of v] e by simp
  have ds: "map length ds = block_sizes groups" "concat ds = data_codewords bytes v"
    unfolding ds_def using len by (simp_all add: length_cut concat_cut)
  have es: "map length es = replicate (length (block_sizes groups)) ecLen"
    unfolding ds(1) [symmetric] es_def using rs_codeword by (simp add: comp_def map_replicate_const)
  note m = makeCodewords_form [OF e ds_def es_def]
  have "deal (block_sizes groups) (makeCodewords bytes v) = (ds, interleave (foldl max 0 (map length es)) es)"
    unfolding m ds(1) [symmetric] by (rule deal_inverts)
  moreover have "deal (replicate (length (block_sizes groups)) ecLen) (interleave (foldl max 0 (map length es)) es) = (es, [])"
    unfolding es [symmetric] using deal_inverts [of es "[]"] by simp
  moreover have "list_all2 (undamaged ecLen) ds es" unfolding es_def by (simp add: list_all2_conv_all_nth rsEncode_ok)
  ultimately have "readCodewords v (makeCodewords bytes v) = parse_segment v (concat (map byte_bits (data_codewords bytes v)))"
    unfolding readCodewords_def e by (simp add: Let_def ds(2))
  moreover obtain rest where "concat (map byte_bits (data_codewords bytes v)) = segment_bits bytes v @ rest"
    using data_codewords_form(1) [OF assms(1)] by blast
  ultimately show ?thesis using parse_segment_bits [OF assms(2)] by simp
qed

lemma pickVersion_fits:
  assumes "pickVersion n = Inr v"
  shows "v \<in> {1..15}" "fits n v" "n < 2 ^ countBits v"
proof -
  show v: "v \<in> {1..15}" "fits n v" using assms unfolding pickVersion_def pick_loop_Inr by auto
  then have "n \<le> qr_capacity v" using fits_capacity by blast
  moreover have "\<forall>v \<in> {1..15}. qr_capacity v < 2 ^ countBits v" unfolding all_versions by (simp add: qr_capacity_def countBits_def)
  ultimately show "n < 2 ^ countBits v" using v(1) by (meson le_less_trans)
qed

text \<open>
  The codewords are those of the payload: for every payload that fits a version, the reference reader
  (blocks dealt back, every syndrome zero, byte mode, character count) finds exactly the payload in what
  \<^verbatim>\<open>makeCodewords\<close> makes for the version \<^verbatim>\<open>pickVersion\<close> picks.
\<close>

theorem codewords_roundtrip:
  "pickVersion (length bytes) = Inr v \<Longrightarrow> readCodewords v (makeCodewords bytes v) = Some bytes"
  by (intro read_makeCodewords pickVersion_fits)

theorem codewords_roundtrip_witness:
  "readCodewords 1 (makeCodewords [0x41, 0x42] 1) = Some [0x41, 0x42]"
  by (rule codewords_roundtrip) code_simp

end
