(* ===== verification/QrMatrix.thy ===== *)
theory QrMatrix
  imports QrCode
begin

unbundle bit_operations_syntax

text \<open>
  The symbol of the QR encoder, \<^verbatim>\<open>packages/cli/src/qr.ts\<close> from \<^verbatim>\<open>Grid\<close> to \<^verbatim>\<open>renderToTerminal\<close>: function patterns,
  data, masks, format and version information, the penalty and the choice of the mask. A grid is
  two functions of row and column over the integers, so that a write outside the square would be seen
  there; \<open>grid_confined\<close> shows that none is made.
\<close>

section \<open>The grid\<close>

record grid =
  gsize :: int
  gmod :: "int \<Rightarrow> int \<Rightarrow> int"
  gfn :: "int \<Rightarrow> int \<Rightarrow> bool"

definition newGrid :: "nat \<Rightarrow> grid" where
  "newGrid version = \<lparr>gsize = int version * 4 + 17, gmod = (\<lambda>_ _. -1), gfn = (\<lambda>_ _. False)\<rparr>"

definition put_mod :: "int \<Rightarrow> int \<Rightarrow> int \<Rightarrow> grid \<Rightarrow> grid" where
  "put_mod r c x g = g\<lparr>gmod := (gmod g)(r := (gmod g r)(c := x))\<rparr>"

definition put_fn :: "int \<Rightarrow> int \<Rightarrow> grid \<Rightarrow> grid" where
  "put_fn r c g = g\<lparr>gfn := (gfn g)(r := (gfn g r)(c := True))\<rparr>"

definition set_cell :: "int \<Rightarrow> int \<Rightarrow> bool \<Rightarrow> bool \<Rightarrow> grid \<Rightarrow> grid" where
  "set_cell r c dark isFn g =
     (let g = put_mod r c (if dark then 1 else 0) g in if isFn then put_fn r c g else g)"

section \<open>Function patterns\<close>

definition finder_dark :: "int \<Rightarrow> int \<Rightarrow> bool" where
  "finder_dark dr dc =
     (let inRing = dr \<ge> 0 \<and> dr \<le> 6 \<and> dc \<ge> 0 \<and> dc \<le> 6
      in inRing \<and> (dr = 0 \<or> dr = 6 \<or> dc = 0 \<or> dc = 6 \<or> (dr \<ge> 2 \<and> dr \<le> 4 \<and> dc \<ge> 2 \<and> dc \<le> 4)))"

definition placeFinder :: "int \<Rightarrow> int \<Rightarrow> grid \<Rightarrow> grid" where
  "placeFinder r c = fold (\<lambda>dr. fold (\<lambda>dc g.
     (let rr = r + dr; cc = c + dc
      in if rr < 0 \<or> rr \<ge> gsize g \<or> cc < 0 \<or> cc \<ge> gsize g then g
         else set_cell rr cc (finder_dark dr dc) True g)) [-1..7]) [-1..7]"

definition placeTiming :: "grid \<Rightarrow> grid" where
  "placeTiming g = fold (\<lambda>i g.
     (let dark = (i mod 2 = 0) in set_cell i 6 dark True (set_cell 6 i dark True g))) [8..gsize g - 9] g"

definition ALIGN :: "nat \<Rightarrow> int list" where
  "ALIGN v = [[], [6, 18], [6, 22], [6, 26], [6, 30], [6, 34], [6, 22, 38], [6, 24, 42], [6, 26, 46], [6, 28, 50],
     [6, 30, 54], [6, 32, 58], [6, 34, 62], [6, 26, 46, 66], [6, 26, 48, 70]] ! (v - 1)"

definition placeAlignment :: "nat \<Rightarrow> grid \<Rightarrow> grid" where
  "placeAlignment version =
     (let centers = ALIGN version; final = last centers
      in fold (\<lambda>r. fold (\<lambda>c g.
           if (r = 6 \<and> c = 6) \<or> (r = 6 \<and> c = final) \<or> (r = final \<and> c = 6) then g
           else fold (\<lambda>dr. fold (\<lambda>dc.
             set_cell (r + dr) (c + dc) (max \<bar>dr\<bar> \<bar>dc\<bar> \<noteq> 1) True) [-2..2]) [-2..2] g) centers) centers)"

definition reserve :: "int \<Rightarrow> int \<Rightarrow> grid \<Rightarrow> grid" where
  "reserve r c g = (if \<not> gfn g r c then set_cell r c False True g else g)"

definition reserveFormat :: "grid \<Rightarrow> grid" where
  "reserveFormat g = (let n = gsize g in
     fold (\<lambda>i g. reserve (n - 1 - i) 8 (reserve 8 (n - 1 - i) g)) [0..7]
       (fold (\<lambda>i g. reserve i 8 (reserve 8 i g)) [0..8] g))"

definition reserveVersion :: "nat \<Rightarrow> grid \<Rightarrow> grid" where
  "reserveVersion version g = (if version \<ge> 7 then
     (let n = gsize g in fold (\<lambda>i. fold (\<lambda>j g.
        set_cell (n - 11 + j) i False True (set_cell i (n - 11 + j) False True g)) [0..2]) [0..5] g) else g)"

definition placeFunctionPatterns :: "nat \<Rightarrow> grid \<Rightarrow> grid" where
  "placeFunctionPatterns version g =
     (let n = gsize g;
          g = placeFinder 0 0 g;
          g = placeFinder 0 (n - 7) g;
          g = placeFinder (n - 7) 0 g;
          g = placeTiming g;
          g = placeAlignment version g;
          g = set_cell (n - 8) 8 True True g;
          g = reserveFormat g
      in reserveVersion version g)"

section \<open>Data\<close>

definition place_cell :: "nat list \<Rightarrow> int \<times> int \<Rightarrow> grid \<times> nat \<Rightarrow> grid \<times> nat" where
  "place_cell bits p st = (case (p, st) of ((row, cc), (g, bt)) \<Rightarrow>
     if gfn g row cc then (g, bt)
     else (put_mod row cc (if bt < length bits then int (bits ! bt) else 0) g, bt + 1))"

definition place_column :: "nat list \<Rightarrow> int \<Rightarrow> bool \<Rightarrow> grid \<times> nat \<Rightarrow> grid \<times> nat" where
  "place_column bits col upward st = (let n = gsize (fst st) in
     fold (\<lambda>i. let row = (if upward then n - 1 - i else i)
               in fold (\<lambda>c. place_cell bits (row, col - c)) [0..1]) [0..n - 1] st)"

function place_columns :: "nat list \<Rightarrow> int \<Rightarrow> bool \<Rightarrow> grid \<times> nat \<Rightarrow> grid \<times> nat" where
  "place_columns bits col upward st =
     (if col > 0
      then (let col = (if col = 6 then col - 1 else col)
            in place_columns bits (col - 2) (\<not> upward) (place_column bits col upward st))
      else st)"
  by auto

termination place_columns
  by (relation "measure (\<lambda>(bits, col, upward, st). nat col)") (auto simp: Let_def)

declare place_columns.simps [simp del]

definition placeData :: "gf list \<Rightarrow> grid \<Rightarrow> grid" where
  "placeData codewords g =
     (let bits = concat (map (\<lambda>cw. map (\<lambda>i. drop_bit i (unat cw) AND 1) (rev [0..<8])) codewords)
      in fst (place_columns bits (gsize g - 1) True (g, 0)))"

section \<open>Masks, format and version\<close>

definition MASKS :: "nat \<Rightarrow> int \<Rightarrow> int \<Rightarrow> bool" where
  "MASKS m = [
     \<lambda>r c. (r + c) mod 2 = 0,
     \<lambda>r c. r mod 2 = 0,
     \<lambda>r c. c mod 3 = 0,
     \<lambda>r c. (r + c) mod 3 = 0,
     \<lambda>r c. (r div 2 + c div 3) mod 2 = 0,
     \<lambda>r c. (r * c) mod 2 + (r * c) mod 3 = 0,
     \<lambda>r c. ((r * c) mod 2 + (r * c) mod 3) mod 2 = 0,
     \<lambda>r c. ((r + c) mod 2 + (r * c) mod 3) mod 2 = 0] ! m"

definition applyMask :: "nat \<Rightarrow> grid \<Rightarrow> grid" where
  "applyMask maskIdx g = g\<lparr>gmod := (\<lambda>r c.
     if 0 \<le> r \<and> r < gsize g \<and> 0 \<le> c \<and> c < gsize g \<and> \<not> gfn g r c \<and> MASKS maskIdx r c
     then gmod g r c XOR 1 else gmod g r c)\<rparr>"

text \<open>The division by the generator of the BCH code, from the given position downwards.\<close>

definition bch_rem :: "int \<Rightarrow> nat \<Rightarrow> nat \<Rightarrow> int \<Rightarrow> int" where
  "bch_rem gen low high start =
     fold (\<lambda>i rem. if drop_bit i rem AND 1 \<noteq> 0 then rem XOR push_bit (i - low) gen else rem) (rev [low..<Suc high]) start"

definition formatBits :: "nat \<Rightarrow> int" where
  "formatBits maskIdx =
     (let data = push_bit 3 0 OR int maskIdx; rem = bch_rem 0b10100110111 10 14 (push_bit 10 data)
      in (push_bit 10 data OR rem) XOR 0b101010000010010)"

definition format_get :: "nat \<Rightarrow> int \<Rightarrow> int" where
  "format_get maskIdx i = drop_bit (nat (14 - i)) (formatBits maskIdx) AND 1"

definition format_copy1 :: "nat \<Rightarrow> grid \<Rightarrow> grid" where
  "format_copy1 maskIdx g =
     (let get = format_get maskIdx;
          g = fold (\<lambda>i. put_mod 8 i (get i)) [0..5] g;
          g = put_mod 8 7 (get 6) g;
          g = put_mod 8 8 (get 7) g;
          g = put_mod 7 8 (get 8) g
      in fold (\<lambda>i. put_mod (14 - i) 8 (get i)) [9..14] g)"

definition format_copy2 :: "nat \<Rightarrow> grid \<Rightarrow> grid" where
  "format_copy2 maskIdx g =
     (let n = gsize g; get = format_get maskIdx;
          g = fold (\<lambda>i. put_mod (n - 1 - i) 8 (get i)) [0..7] g;
          g = fold (\<lambda>i. put_mod 8 (n - 15 + i) (get i)) [8..14] g
      in put_mod (n - 8) 8 1 g)"

definition drawFormat :: "nat \<Rightarrow> grid \<Rightarrow> grid" where
  "drawFormat maskIdx g = format_copy2 maskIdx (format_copy1 maskIdx g)"

definition versionBits :: "nat \<Rightarrow> int" where
  "versionBits version = push_bit 12 (int version) OR bch_rem 0b1111100100101 12 17 (push_bit 12 (int version))"

definition drawVersion :: "nat \<Rightarrow> grid \<Rightarrow> grid" where
  "drawVersion version g =
     (if version < 7 then g
      else (let n = gsize g; bits = versionBits version
            in fold (\<lambda>i g. let b = drop_bit (nat i) bits AND 1; r = i div 3; c = i mod 3
                 in put_mod (n - 11 + c) r b (put_mod r (n - 11 + c) b g)) [0..17] g))"

section \<open>The penalty and the choice of the mask\<close>

text \<open>A line of modules: the length of the current run, its colour and the score so far.\<close>

fun run_score :: "nat \<Rightarrow> int \<Rightarrow> int list \<Rightarrow> int \<Rightarrow> int" where
  "run_score run prev [] score = score"
| "run_score run prev (v # vs) score =
     (if v = prev then run_score (run + 1) prev vs (if run + 1 = 5 then score + 3 else if run + 1 > 5 then score + 1 else score)
      else run_score 1 v vs score)"

definition rule1 :: "grid \<Rightarrow> int \<Rightarrow> int" where
  "rule1 g = (let n = gsize g in fold (\<lambda>r score. fold (\<lambda>line score.
     run_score 1 (-1) (map (\<lambda>c. if line then gmod g r c else gmod g c r) [0..n - 1]) score) [True, False] score) [0..n - 1])"

definition rule2 :: "grid \<Rightarrow> int \<Rightarrow> int" where
  "rule2 g = (let n = gsize g in fold (\<lambda>r. fold (\<lambda>c score.
     if gmod g r c = gmod g r (c + 1) \<and> gmod g r c = gmod g (r + 1) c \<and> gmod g r c = gmod g (r + 1) (c + 1)
     then score + 3 else score) [0..n - 2]) [0..n - 2])"

definition rule3 :: "grid \<Rightarrow> int \<Rightarrow> int" where
  "rule3 g = (let n = gsize g; patterns = [[1, 0, 1, 1, 1, 0, 1, 0, 0, 0, 0], [0, 0, 0, 0, 1, 0, 1, 1, 1, 0, 1]]
     in fold (\<lambda>r. fold (\<lambda>c. fold (\<lambda>p score.
       (let mh = map (\<lambda>k. gmod g r (c + k)) [0..10] = p; mv = map (\<lambda>k. gmod g (c + k) r) [0..10] = p;
            score = (if mh then score + 40 else score)
        in if mv then score + 40 else score)) patterns) [0..n - 11]) [0..n - 1])"

text \<open>
  \<^verbatim>\<open>Math.floor(Math.abs(pct - 50) / 5)\<close> of a percentage with denominator \<open>n * n\<close>: the quotient is at a
  multiple of 5 exactly or further from it than the rounding of the doubles, so the floor is the exact one.
\<close>

definition rule4 :: "grid \<Rightarrow> int \<Rightarrow> int" where
  "rule4 g score =
     (let n = gsize g;
          dark = fold (\<lambda>r. fold (\<lambda>c d. if gmod g r c \<noteq> 0 then d + 1 else d) [0..n - 1]) [0..n - 1] 0
      in score + (\<bar>dark * 100 - 50 * (n * n)\<bar> div (5 * (n * n))) * 10)"

definition penalty :: "grid \<Rightarrow> int" where
  "penalty g = rule4 g (rule3 g (rule2 g (rule1 g 0)))"

definition tryMask :: "grid \<Rightarrow> nat \<Rightarrow> nat \<Rightarrow> grid" where
  "tryMask base version m = drawVersion version (drawFormat m (applyMask m base))"

fun best_loop :: "(nat \<Rightarrow> grid) \<Rightarrow> nat list \<Rightarrow> grid \<Rightarrow> int \<Rightarrow> grid" where
  "best_loop try_m [] best bestScore = best"
| "best_loop try_m (m # ms) best bestScore =
     (let g = try_m m; s = penalty g in if s < bestScore then best_loop try_m ms g s else best_loop try_m ms best bestScore)"

definition base_grid :: "gf list \<Rightarrow> nat \<Rightarrow> grid" where
  "base_grid bytes version =
     placeData (makeCodewords bytes version) (placeFunctionPatterns version (newGrid version))"

definition encode :: "gf list \<Rightarrow> nat option \<Rightarrow> qr_error + bool list list" where
  "encode bytes forceMask = (case pickVersion (length bytes) of
     Inl e \<Rightarrow> Inl e
   | Inr version \<Rightarrow>
     (let base = base_grid bytes version; try_m = tryMask base version;
          best = (case forceMask of Some m \<Rightarrow> try_m m
                  | None \<Rightarrow> best_loop try_m [1..<8] (try_m 0) (penalty (try_m 0)))
      in Inr (map (\<lambda>r. map (\<lambda>c. gmod best r c = 1) [0..gsize best - 1]) [0..gsize best - 1])))"

section \<open>What the function patterns occupy\<close>

text \<open>An operation paints a set of cells when it makes exactly these function modules, decides their colour, and touches nothing else.\<close>

definition painted :: "grid \<Rightarrow> bool" where
  "painted g \<longleftrightarrow> (\<forall>r c. gfn g r c \<longrightarrow> gmod g r c \<in> {0, 1})"

definition paints :: "int \<Rightarrow> (grid \<Rightarrow> grid) \<Rightarrow> (int \<times> int) set \<Rightarrow> bool" where
  "paints n f S \<longleftrightarrow> (\<forall>g. gsize g = n \<and> painted g \<longrightarrow> gsize (f g) = n \<and> painted (f g)
     \<and> (\<forall>r c. gfn (f g) r c \<longleftrightarrow> gfn g r c \<or> (r, c) \<in> S) \<and> (\<forall>r c. (r, c) \<notin> S \<longrightarrow> gmod (f g) r c = gmod g r c))"

lemma paintsI:
  assumes "\<And>g. gsize g = n \<Longrightarrow> painted g \<Longrightarrow> gsize (f g) = n \<and> painted (f g)
     \<and> (\<forall>r c. gfn (f g) r c \<longleftrightarrow> gfn g r c \<or> (r, c) \<in> S) \<and> (\<forall>r c. (r, c) \<notin> S \<longrightarrow> gmod (f g) r c = gmod g r c)"
  shows "paints n f S"
  using assms unfolding paints_def by blast

lemma paintsD:
  assumes "paints n f S" "gsize g = n" "painted g"
  shows "gsize (f g) = n" "painted (f g)" "gfn (f g) r c \<longleftrightarrow> gfn g r c \<or> (r, c) \<in> S"
    "(r, c) \<notin> S \<Longrightarrow> gmod (f g) r c = gmod g r c"
  using assms unfolding paints_def by blast+

lemma paints_compose: "paints n f S \<Longrightarrow> paints n h T \<Longrightarrow> paints n (\<lambda>g. h (f g)) (S \<union> T)"
  by (rule paintsI) (auto simp: paintsD)

lemma paints_id: "paints n (\<lambda>g. g) {}"
  by (simp add: paints_def)

lemma paints_fold: "(\<And>x. x \<in> set xs \<Longrightarrow> paints n (f x) (S x)) \<Longrightarrow> paints n (fold f xs) (\<Union>x \<in> set xs. S x)"
proof (induction xs)
  case (Cons x xs)
  then have "paints n (\<lambda>g. fold f xs (f x g)) (S x \<union> (\<Union>x \<in> set xs. S x))" by (intro paints_compose) simp_all
  then show ?case by (simp add: comp_def)
qed (simp add: paints_id id_def)

lemma paints_cong: "paints n f S \<Longrightarrow> (\<And>g. gsize g = n \<Longrightarrow> f g = h g) \<Longrightarrow> paints n h S"
  by (simp add: paints_def)

lemma paints_set_cell: "paints n (set_cell r c dark True) {(r, c)}"
  by (rule paintsI) (auto simp: set_cell_def put_mod_def put_fn_def painted_def)

lemma paints_reserve: "paints n (reserve r c) {(r, c)}"
  by (rule paintsI) (auto simp: reserve_def set_cell_def put_mod_def put_fn_def painted_def)

lemma paints_if: "(P \<Longrightarrow> paints n f S) \<Longrightarrow> (\<not> P \<Longrightarrow> paints n h T) \<Longrightarrow> paints n (\<lambda>g. if P then f g else h g) (if P then S else T)"
  by (cases P) simp_all

definition square :: "int \<Rightarrow> (int \<times> int) set" where
  "square n = {0..<n} \<times> {0..<n}"

lemma shifted_rectangle:
  "(\<Union>dr \<in> set [a..b]. \<Union>dc \<in> set [a'..b']. {(r + dr, c + dc)} \<inter> T) = ({r + a..r + b} \<times> {c + a'..c + (b' :: int)}) \<inter> T"
proof (rule set_eqI)
  fix p :: "int \<times> int"
  obtain x y where p: "p = (x, y)" by (cases p)
  have "p \<in> (\<Union>dr \<in> set [a..b]. \<Union>dc \<in> set [a'..b']. {(r + dr, c + dc)} \<inter> T) \<longleftrightarrow> (\<exists>dr \<in> {a..b}. \<exists>dc \<in> {a'..b'}. x = r + dr \<and> y = c + dc \<and> (x, y) \<in> T)"
    unfolding p by auto
  also have "\<dots> \<longleftrightarrow> x - r \<in> {a..b} \<and> y - c \<in> {a'..b'} \<and> (x, y) \<in> T"
    by (metis add_diff_cancel_left' diff_add_cancel add.commute)
  finally show "p \<in> (\<Union>dr \<in> set [a..b]. \<Union>dc \<in> set [a'..b']. {(r + dr, c + dc)} \<inter> T) \<longleftrightarrow> p \<in> ({r + a..r + b} \<times> {c + a'..c + b'}) \<inter> T"
    unfolding p by auto
qed

lemma paints_placeFinder: "paints n (placeFinder r c) (({r - 1..r + 7} \<times> {c - 1..c + 7}) \<inter> square n)"
proof -
  let ?f = "\<lambda>dr dc g. let rr = r + dr; cc = c + dc
      in if rr < 0 \<or> rr \<ge> gsize g \<or> cc < 0 \<or> cc \<ge> gsize g then g else set_cell rr cc (finder_dark dr dc) True g"
  have "paints n (?f dr dc) ({(r + dr, c + dc)} \<inter> square n)" for dr dc
    using paints_set_cell [of n "r + dr" "c + dc" "finder_dark dr dc"]
    unfolding paints_def square_def by (auto simp: Let_def)
  then have "paints n (placeFinder r c) (\<Union>dr \<in> set [-1..7]. \<Union>dc \<in> set [-1..7]. {(r + dr, c + dc)} \<inter> square n)"
    unfolding placeFinder_def by (intro paints_fold)
  then show ?thesis unfolding shifted_rectangle by simp
qed

lemma paints_placeTiming: "paints n placeTiming ({6} \<times> {8..n - 9} \<union> {8..n - 9} \<times> {6})"
proof -
  have "paints n (\<lambda>g. set_cell i 6 d True (set_cell 6 i d True g)) ({(6, i)} \<union> {(i, 6)})" for i d
    by (intro paints_compose paints_set_cell)
  then have "paints n (fold (\<lambda>i g. let dark = (i mod 2 = 0) in set_cell i 6 dark True (set_cell 6 i dark True g)) [8..n - 9])
    (\<Union>i \<in> set [8..n - 9]. {(6, i)} \<union> {(i, 6)})" unfolding Let_def by (intro paints_fold)
  moreover have "(\<Union>i \<in> set [8..n - 9]. {(6, i)} \<union> {(i, 6)}) = {6} \<times> {8..n - 9} \<union> {8..n - 9} \<times> {6}" by auto
  ultimately show ?thesis by (auto simp: placeTiming_def elim: paints_cong)
qed

definition corner_center :: "nat \<Rightarrow> int \<Rightarrow> int \<Rightarrow> bool" where
  "corner_center v r c \<longleftrightarrow> (let z = last (ALIGN v) in (r = 6 \<and> c = 6) \<or> (r = 6 \<and> c = z) \<or> (r = z \<and> c = 6))"

definition alignment_module :: "nat \<Rightarrow> int \<Rightarrow> int \<Rightarrow> bool" where
  "alignment_module v r c \<longleftrightarrow> list_ex (\<lambda>a. list_ex (\<lambda>b. \<not> corner_center v a b \<and> \<bar>r - a\<bar> \<le> 2 \<and> \<bar>c - b\<bar> \<le> 2) (ALIGN v)) (ALIGN v)"

lemma paints_alignment_pattern:
  "paints n (fold (\<lambda>dr. fold (\<lambda>dc. set_cell (r + dr) (c + dc) (max \<bar>dr\<bar> \<bar>dc\<bar> \<noteq> 1) True) [-2..2]) [-2..2])
     {(x, y). \<bar>x - r\<bar> \<le> 2 \<and> \<bar>y - c\<bar> \<le> 2}"
proof -
  have "{(x, y). \<bar>x - r\<bar> \<le> 2 \<and> \<bar>y - c\<bar> \<le> 2} = (\<Union>dr \<in> set [-2..2]. \<Union>dc \<in> set [-2..2]. {(r + dr, c + dc)} \<inter> UNIV)"
    unfolding shifted_rectangle by auto
  then show ?thesis by (simp only: Int_UNIV_right) (intro paints_fold paints_set_cell)
qed

lemma paints_placeAlignment: "paints n (placeAlignment v) {(r, c). alignment_module v r c}"
proof -
  let ?S = "\<lambda>r c. if corner_center v r c then {} else {(x, y). \<bar>x - r\<bar> \<le> 2 \<and> \<bar>y - c\<bar> \<le> 2}"
  have "paints n (placeAlignment v) (\<Union>r \<in> set (ALIGN v). \<Union>c \<in> set (ALIGN v). ?S r c)"
    unfolding placeAlignment_def Let_def corner_center_def by (intro paints_fold paints_if paints_id paints_alignment_pattern)
  moreover have "(\<Union>r \<in> set (ALIGN v). \<Union>c \<in> set (ALIGN v). ?S r c) = {(r, c). alignment_module v r c}"
    unfolding alignment_module_def by (auto simp: list_ex_iff split: if_splits)
  ultimately show ?thesis by simp
qed

lemma paints_reserveFormat:
  "paints n reserveFormat ({8} \<times> {0..8} \<union> {0..8} \<times> {8} \<union> {8} \<times> {n - 8..n - 1} \<union> {n - 8..n - 1} \<times> {8})"
proof -
  have two: "paints n (\<lambda>g. reserve a b (reserve c d g)) ({(c, d)} \<union> {(a, b)})" for a b c d
    by (intro paints_compose paints_reserve)
  have "paints n (\<lambda>g. fold (\<lambda>i g. reserve (n - 1 - i) 8 (reserve 8 (n - 1 - i) g)) [0..7]
       (fold (\<lambda>i g. reserve i 8 (reserve 8 i g)) [0..8] g))
     ((\<Union>i \<in> set [0..8]. {(8, i)} \<union> {(i, 8)}) \<union> (\<Union>i \<in> set [0..7]. {(8, n - 1 - i)} \<union> {(n - 1 - i, 8)}))"
    by (intro paints_compose paints_fold two)
  moreover have "(\<Union>i \<in> set [0..7]. {(8, n - 1 - i)} \<union> {(n - 1 - i, 8)}) = {8} \<times> {n - 8..n - 1} \<union> {n - 8..n - 1} \<times> {8}"
  proof (intro equalityI subsetI)
    fix p assume "p \<in> {8} \<times> {n - 8..n - 1} \<union> {n - 8..n - 1} \<times> {8}"
    then consider x where "p = (8, x)" "n - 1 - x \<in> set [0..7]" | x where "p = (x, 8)" "n - 1 - x \<in> set [0..7]" by auto
    then show "p \<in> (\<Union>i \<in> set [0..7]. {(8, n - 1 - i)} \<union> {(n - 1 - i, 8)})" by cases (rule UN_I, assumption, simp)+
  qed auto
  moreover have "(\<Union>i \<in> set [0..8]. {(8, i)} \<union> {(i, 8)}) = {8} \<times> {0..8} \<union> {0..8} \<times> {8::int}" by auto
  ultimately have "paints n (\<lambda>g. fold (\<lambda>i g. reserve (n - 1 - i) 8 (reserve 8 (n - 1 - i) g)) [0..7]
       (fold (\<lambda>i g. reserve i 8 (reserve 8 i g)) [0..8] g))
     ({8} \<times> {0..8} \<union> {0..8} \<times> {8} \<union> {8} \<times> {n - 8..n - 1} \<union> {n - 8..n - 1} \<times> {8})" by (simp only: Un_assoc)
  then show ?thesis by (rule paints_cong) (simp add: reserveFormat_def Let_def)
qed

lemma paints_reserveVersion:
  "paints n (reserveVersion v) (if v \<ge> 7 then {0..5} \<times> {n - 11..n - 9} \<union> {n - 11..n - 9} \<times> {0..5} else {})"
proof -
  have two: "paints n (\<lambda>g. set_cell a b False True (set_cell c d False True g)) ({(c, d)} \<union> {(a, b)})" for a b c d
    by (intro paints_compose paints_set_cell)
  have "paints n (fold (\<lambda>i. fold (\<lambda>j g. set_cell (n - 11 + j) i False True (set_cell i (n - 11 + j) False True g)) [0..2]) [0..5])
     (\<Union>i \<in> set [0..5]. \<Union>j \<in> set [0..2]. {(i, n - 11 + j)} \<union> {(n - 11 + j, i)})"
    by (intro paints_fold two)
  moreover have "(\<Union>i \<in> set [0..5]. \<Union>j \<in> set [0..2]. {(i, n - 11 + j)} \<union> {(n - 11 + j, i)})
      = {0..5} \<times> {n - 11..n - 9} \<union> {n - 11..n - 9} \<times> {0..5}"
  proof (intro equalityI subsetI)
    fix p assume "p \<in> {0..5} \<times> {n - 11..n - 9} \<union> {n - 11..n - 9} \<times> {0..5}"
    then consider i x where "p = (i, n - 11 + (x - (n - 11)))" "i \<in> set [0..5]" "x - (n - 11) \<in> set [0..2]"
      | i x where "p = (n - 11 + (x - (n - 11)), i)" "i \<in> set [0..5]" "x - (n - 11) \<in> set [0..2]" by auto
    then show "p \<in> (\<Union>i \<in> set [0..5]. \<Union>j \<in> set [0..2]. {(i, n - 11 + j)} \<union> {(n - 11 + j, i)})" by cases blast+
  qed auto
  ultimately have "paints n (\<lambda>g. if v \<ge> 7 then fold (\<lambda>i. fold (\<lambda>j g. set_cell (n - 11 + j) i False True (set_cell i (n - 11 + j) False True g)) [0..2]) [0..5] g else g)
      (if v \<ge> 7 then {0..5} \<times> {n - 11..n - 9} \<union> {n - 11..n - 9} \<times> {0..5} else {})" by (intro paints_if paints_id) simp
  then show ?thesis by (rule paints_cong) (simp add: reserveVersion_def Let_def)
qed

text \<open>The regions of the standard: the corners with their format strips, the timing lines, the alignment squares, the version blocks.\<close>

definition function_module :: "nat \<Rightarrow> int \<Rightarrow> int \<Rightarrow> bool" where
  "function_module v r c \<longleftrightarrow> (let n = int v * 4 + 17 in 0 \<le> r \<and> r < n \<and> 0 \<le> c \<and> c < n \<and>
     (r \<le> 8 \<and> c \<le> 8 \<or> r \<le> 8 \<and> n - 8 \<le> c \<or> n - 8 \<le> r \<and> c \<le> 8 \<or> r = 6 \<or> c = 6 \<or> alignment_module v r c
      \<or> v \<ge> 7 \<and> (r \<le> 5 \<and> n - 11 \<le> c \<or> n - 11 \<le> r \<and> c \<le> 5)))"

lemma alignment_inside: "v \<in> {1..15} \<Longrightarrow> alignment_module v r c \<Longrightarrow> 0 \<le> r \<and> r < int v * 4 + 17 \<and> 0 \<le> c \<and> c < int v * 4 + 17"
proof -
  assume v: "v \<in> {1..15}" and a: "alignment_module v r c"
  have "\<forall>v \<in> {1..15}. list_all (\<lambda>a. 2 \<le> a \<and> a < int v * 4 + 15) (ALIGN v)"
    unfolding all_versions by (simp add: ALIGN_def)
  with v have "\<forall>a \<in> set (ALIGN v). 2 \<le> a \<and> a < int v * 4 + 15" by (simp add: list_all_iff)
  then show ?thesis using a unfolding alignment_module_def list_ex_iff by fastforce
qed

abbreviation pattern_grid :: "nat \<Rightarrow> grid" where
  "pattern_grid v \<equiv> placeFunctionPatterns v (newGrid v)"

text \<open>The union the painting lemmas give, for alignment squares \<open>A\<close> and version blocks \<open>V\<close>.\<close>

definition pattern_regions :: "int \<Rightarrow> (int \<times> int) set \<Rightarrow> (int \<times> int) set \<Rightarrow> (int \<times> int) set" where
  "pattern_regions n A V = ({0 - 1..0 + 7} \<times> {0 - 1..0 + 7}) \<inter> square n \<union> ({0 - 1..0 + 7} \<times> {n - 7 - 1..n - 7 + 7}) \<inter> square n
    \<union> ({n - 7 - 1..n - 7 + 7} \<times> {0 - 1..0 + 7}) \<inter> square n \<union> ({6} \<times> {8..n - 9} \<union> {8..n - 9} \<times> {6})
    \<union> A \<union> {(n - 8, 8)} \<union> ({8} \<times> {0..8} \<union> {0..8} \<times> {8} \<union> {8} \<times> {n - 8..n - 1} \<union> {n - 8..n - 1} \<times> {8}) \<union> V"

lemma regions_inside: "21 \<le> n \<Longrightarrow> A \<subseteq> square n \<Longrightarrow> V \<subseteq> square n \<Longrightarrow> pattern_regions n A V \<subseteq> square n"
  by (auto simp: pattern_regions_def square_def)

lemma regions_union:
  assumes "21 \<le> n" "(r, c) \<in> square n"
  shows "(r, c) \<in> pattern_regions n A V \<longleftrightarrow>
    (r \<le> 8 \<and> c \<le> 8 \<or> r \<le> 8 \<and> n - 8 \<le> c \<or> n - 8 \<le> r \<and> c \<le> 8 \<or> r = 6 \<or> c = 6 \<or> (r, c) \<in> A \<or> (r, c) \<in> V)"
proof
  show "(r, c) \<in> pattern_regions n A V \<Longrightarrow>
    r \<le> 8 \<and> c \<le> 8 \<or> r \<le> 8 \<and> n - 8 \<le> c \<or> n - 8 \<le> r \<and> c \<le> 8 \<or> r = 6 \<or> c = 6 \<or> (r, c) \<in> A \<or> (r, c) \<in> V"
    unfolding pattern_regions_def using assms by auto
  assume "r \<le> 8 \<and> c \<le> 8 \<or> r \<le> 8 \<and> n - 8 \<le> c \<or> n - 8 \<le> r \<and> c \<le> 8 \<or> r = 6 \<or> c = 6 \<or> (r, c) \<in> A \<or> (r, c) \<in> V"
  then consider "r \<le> 7 \<and> c \<le> 7" | "r \<le> 7 \<and> n - 8 \<le> c" | "n - 8 \<le> r \<and> c \<le> 7" | "r = 8 \<and> (c \<le> 8 \<or> n - 8 \<le> c)" | "c = 8 \<and> (r \<le> 8 \<or> n - 8 \<le> r)"
    | "r = 6 \<and> 8 \<le> c \<and> c \<le> n - 9" | "c = 6 \<and> 8 \<le> r \<and> r \<le> n - 9" | "(r, c) \<in> A \<or> (r, c) \<in> V" by linarith
  then show "(r, c) \<in> pattern_regions n A V"
    using assms by cases (auto simp: pattern_regions_def square_def)
qed

lemma function_patterns:
  assumes "v \<in> {1..15}"
  shows "gsize (pattern_grid v) = int v * 4 + 17" "painted (pattern_grid v)"
    "gfn (pattern_grid v) r c \<longleftrightarrow> function_module v r c"
    "\<not> function_module v r c \<Longrightarrow> gmod (pattern_grid v) r c = -1"
proof -
  let ?n = "int v * 4 + 17"
  let ?V = "if v \<ge> 7 then {0..5} \<times> {?n - 11..?n - 9} \<union> {?n - 11..?n - 9} \<times> {0..5} else {}"
  let ?S = "pattern_regions ?n {(r, c). alignment_module v r c} ?V"
  have "paints ?n (\<lambda>g. reserveVersion v (reserveFormat (set_cell (?n - 8) 8 True True (placeAlignment v (placeTiming
      (placeFinder (?n - 7) 0 (placeFinder 0 (?n - 7) (placeFinder 0 0 g)))))))) ?S"
    unfolding pattern_regions_def
    by (rule paints_compose [OF paints_compose [OF paints_compose [OF paints_compose [OF paints_compose [OF paints_compose
      [OF paints_compose [OF paints_placeFinder paints_placeFinder] paints_placeFinder] paints_placeTiming] paints_placeAlignment]
      paints_set_cell] paints_reserveFormat] paints_reserveVersion])
  then have p: "paints ?n (placeFunctionPatterns v) ?S"
    by (rule paints_cong) (simp add: placeFunctionPatterns_def Let_def)
  have g: "gsize (newGrid v) = ?n" "painted (newGrid v)" by (simp_all add: newGrid_def painted_def)
  note d = paintsD [OF p g]
  have n: "21 \<le> ?n" using assms by simp
  have sub: "{(r, c). alignment_module v r c} \<subseteq> square ?n" "?V \<subseteq> square ?n"
    using alignment_inside [OF assms] n by (auto simp: square_def)
  have S: "(r, c) \<in> ?S \<longleftrightarrow> function_module v r c" for r c
  proof (cases "(r, c) \<in> square ?n")
    case True
    have "(r, c) \<in> ?V \<or> r \<le> 8 \<and> ?n - 8 \<le> c \<or> ?n - 8 \<le> r \<and> c \<le> 8
        \<longleftrightarrow> v \<ge> 7 \<and> (r \<le> 5 \<and> ?n - 11 \<le> c \<or> ?n - 11 \<le> r \<and> c \<le> 5) \<or> r \<le> 8 \<and> ?n - 8 \<le> c \<or> ?n - 8 \<le> r \<and> c \<le> 8"
      using True by (auto simp: square_def)
    then show ?thesis using True regions_union [OF n True, of "{(r, c). alignment_module v r c}" ?V]
      unfolding function_module_def square_def Let_def mem_Sigma_iff atLeastLessThan_iff mem_Collect_eq prod.case by blast
  next
    case False
    then have "(r, c) \<notin> ?S" using regions_inside [OF n sub] by blast
    moreover have "\<not> function_module v r c" using False
      unfolding function_module_def square_def Let_def mem_Sigma_iff atLeastLessThan_iff by blast
    ultimately show ?thesis by blast
  qed
  show "gsize (pattern_grid v) = ?n" "painted (pattern_grid v)" by (rule d)+
  show "gfn (pattern_grid v) r c \<longleftrightarrow> function_module v r c" using d(3) S by (simp add: newGrid_def)
  show "\<not> function_module v r c \<Longrightarrow> gmod (pattern_grid v) r c = -1" using d(4) S by (simp add: newGrid_def)
qed

section \<open>Where the data goes\<close>

text \<open>The columns the loop visits with their direction, and the cells of one.\<close>

function columns_from :: "int \<Rightarrow> bool \<Rightarrow> (int \<times> bool) list" where
  "columns_from col upward =
     (if col > 0 then (let col = (if col = 6 then col - 1 else col) in (col, upward) # columns_from (col - 2) (\<not> upward)) else [])"
  by auto

termination columns_from
  by (relation "measure (\<lambda>(col, upward). nat col)") (auto simp: Let_def)

declare columns_from.simps [simp del]

definition column_cells :: "int \<Rightarrow> int \<times> bool \<Rightarrow> (int \<times> int) list" where
  "column_cells n p = (case p of (col, upward) \<Rightarrow>
     concat (map (\<lambda>i. let row = (if upward then n - 1 - i else i) in [(row, col), (row, col - 1)]) [0..n - 1]))"

lemma gsize_place_cell [simp]: "gsize (fst (place_cell bits p st)) = gsize (fst st)"
  by (simp add: place_cell_def put_mod_def split: prod.splits)

lemma gsize_place_cells [simp]: "gsize (fst (fold (place_cell bits) ps st)) = gsize (fst st)"
  by (induction ps arbitrary: st) simp_all

lemma fold_concat_map: "fold f (concat (map h xs)) = fold (\<lambda>x. fold f (h x)) xs"
  by (induction xs) simp_all

lemma place_column_cells:
  "gsize (fst st) = n \<Longrightarrow> place_column bits col upward st = fold (place_cell bits) (column_cells n (col, upward)) st"
  by (simp add: place_column_def column_cells_def fold_concat_map Let_def upto_rec1)

lemma place_columns_cells:
  "gsize (fst st) = n \<Longrightarrow> place_columns bits col upward st = fold (place_cell bits) (concat (map (column_cells n) (columns_from col upward))) st"
proof (induction bits col upward st rule: place_columns.induct)
  case (1 bits col upward st)
  show ?case
  proof (cases "col > 0")
    case True
    let ?c = "if col = 6 then col - 1 else col"
    have "place_columns bits col upward st = place_columns bits (?c - 2) (\<not> upward) (place_column bits ?c upward st)"
      using True by (simp add: place_columns.simps [of bits col] Let_def)
    also have "\<dots> = fold (place_cell bits) (concat (map (column_cells n) (columns_from (?c - 2) (\<not> upward)))) (place_column bits ?c upward st)"
      by (rule 1(1) [OF True refl]) (simp add: place_column_cells [OF 1(2)] 1(2))
    finally show ?thesis using True by (simp add: columns_from.simps [of col] Let_def place_column_cells [OF 1(2)])
  qed (simp add: place_columns.simps [of bits col] columns_from.simps [of col])
qed

text \<open>Placing along a list of distinct cells: the cells that are free get the bits in order, the others keep what they have.\<close>

definition free_cells :: "grid \<Rightarrow> (int \<times> int) list \<Rightarrow> (int \<times> int) list" where
  "free_cells g ps = filter (\<lambda>(r, c). \<not> gfn g r c) ps"

definition placed :: "nat list \<Rightarrow> (int \<times> int) list \<Rightarrow> grid \<Rightarrow> nat \<Rightarrow> grid \<Rightarrow> bool" where
  "placed bits ps g k g' \<longleftrightarrow> gfn g' = gfn g \<and> gsize g' = gsize g
    \<and> (\<forall>j < length (free_cells g ps).
         gmod g' (fst (free_cells g ps ! j)) (snd (free_cells g ps ! j)) = (if k + j < length bits then int (bits ! (k + j)) else 0))
    \<and> (\<forall>r c. (r, c) \<notin> set ps \<or> gfn g r c \<longrightarrow> gmod g' r c = gmod g r c)"

lemma place_cells: "distinct ps \<Longrightarrow> placed bits ps g k (fst (fold (place_cell bits) ps (g, k)))"
proof (induction ps arbitrary: g k)
  case (Cons p ps)
  obtain x y where p: "p = (x, y)" by (cases p)
  show ?case
  proof (cases "gfn g x y")
    case True
    then have "place_cell bits p (g, k) = (g, k)" by (simp add: place_cell_def p)
    then show ?thesis using Cons.IH [of g k] Cons.prems True by (simp add: p placed_def free_cells_def)
  next
    case False
    let ?g = "put_mod x y (if k < length bits then int (bits ! k) else 0) g"
    let ?h = "fst (fold (place_cell bits) ps (?g, Suc k))"
    have st: "place_cell bits p (g, k) = (?g, Suc k)" and fn: "gfn ?g = gfn g" "gsize ?g = gsize g" "free_cells ?g ps = free_cells g ps"
      using False by (simp_all add: place_cell_def p put_mod_def free_cells_def)
    have IH: "gfn ?h = gfn g" "gsize ?h = gsize g"
      "\<And>j. j < length (free_cells g ps) \<Longrightarrow>
          gmod ?h (fst (free_cells g ps ! j)) (snd (free_cells g ps ! j)) = (if Suc k + j < length bits then int (bits ! (Suc k + j)) else 0)"
      "\<And>r c. (r, c) \<notin> set ps \<or> gfn g r c \<Longrightarrow> gmod ?h r c = gmod ?g r c"
      using Cons.IH [of ?g "Suc k"] Cons.prems unfolding fn placed_def by auto
    have "free_cells g (p # ps) = (x, y) # free_cells g ps" using False by (simp add: free_cells_def p)
    moreover have "gmod ?h x y = (if k < length bits then int (bits ! k) else 0)"
      using IH(4) [of x y] Cons.prems p by (simp add: put_mod_def)
    ultimately have "gmod ?h (fst (free_cells g (p # ps) ! j)) (snd (free_cells g (p # ps) ! j)) = (if k + j < length bits then int (bits ! (k + j)) else 0)"
      if "j < length (free_cells g (p # ps))" for j using that IH(3) by (cases j) auto
    moreover have "gmod ?h r c = gmod g r c" if "(r, c) \<notin> set (p # ps) \<or> gfn g r c" for r c
      using IH(4) [of r c] that False p by (auto simp: put_mod_def)
    ultimately show ?thesis using IH(1,2) by (simp add: st placed_def)
  qed
qed (simp add: placed_def free_cells_def)

text \<open>The reference order: pairs of columns from the right, the timing column left out, in turn upwards and downwards.\<close>

definition data_cells :: "int \<Rightarrow> (int \<times> int) list" where
  "data_cells n = concat (map (\<lambda>k. column_cells n ((rev [7..n - 1] @ rev [0..5]) ! nat (2 * k), even k)) [0..(n - 3) div 2])"

lemma columns_of_version:
  "\<forall>v \<in> {1..15}. columns_from (int v * 4 + 17 - 1) True = map (\<lambda>k. ((rev [7..int v * 4 + 17 - 1] @ rev [0..5]) ! nat (2 * k), even k)) [0..(int v * 4 + 17 - 3) div 2]
    \<and> concat (map (\<lambda>(c, _). [c, c - 1]) (columns_from (int v * 4 + 17 - 1) True)) = rev [7..int v * 4 + 17 - 1] @ rev [0..5]"
  unfolding all_versions by (intro conjI; code_simp)

lemma set_column_cells: "set (column_cells n (col, up)) = {0..<n} \<times> {col, col - 1}"
proof -
  have "(\<exists>i \<in> {0..n - 1}. r = (if up then n - 1 - i else i)) \<longleftrightarrow> r \<in> {0..<n}" for r
    by (cases up) (auto intro: bexI [of _ "n - 1 - r"])
  then show ?thesis by (auto simp: column_cells_def Let_def)
qed

lemma distinct_column_cells: "distinct (column_cells n (col, up))"
proof -
  have "distinct (concat (map (\<lambda>i. [(f i, col), (f i, col - 1)]) xs))" if "inj f" "distinct xs" for f :: "int \<Rightarrow> int" and xs
    using that by (induction xs) (auto simp: inj_eq)
  moreover have "inj (\<lambda>i. if up then n - 1 - i else i)" by (auto simp: inj_on_def)
  ultimately show ?thesis by (simp add: column_cells_def Let_def)
qed

lemma cells_of_columns:
  "distinct (concat (map (\<lambda>(c, _). [c, c - 1]) cols)) \<Longrightarrow> distinct (concat (map (column_cells n) cols))
    \<and> set (concat (map (column_cells n) cols)) = {0..<n} \<times> set (concat (map (\<lambda>(c, _). [c, c - 1]) cols))"
proof (induction cols)
  case (Cons p cols)
  obtain col up where p: "p = (col, up)" by (cases p)
  define F where "F = set (concat (map (\<lambda>(c, _). [c, c - 1]) cols))"
  have F: "col \<notin> F" "col - 1 \<notin> F" "distinct (concat (map (\<lambda>(c, _). [c, c - 1]) cols))"
    using Cons.prems unfolding F_def p by simp_all
  then have IH: "distinct (concat (map (column_cells n) cols))" "set (concat (map (column_cells n) cols)) = {0..<n} \<times> F"
    using Cons.IH unfolding F_def by blast+
  have G: "set (concat (map (\<lambda>(c, _). [c, c - 1]) (p # cols))) = {col, col - 1} \<union> F" unfolding F_def p by simp
  have "set (column_cells n p) \<inter> set (concat (map (column_cells n) cols)) = {}"
    using F(1,2) unfolding IH(2) p set_column_cells by blast
  then have "distinct (concat (map (column_cells n) (p # cols)))"
    using IH(1) distinct_column_cells [of n col up] p by simp
  moreover have "set (concat (map (column_cells n) (p # cols))) = {0..<n} \<times> ({col, col - 1} \<union> F)"
    using IH(2) p set_column_cells [of n col up] by auto
  ultimately show ?case unfolding G by blast
qed simp

abbreviation side :: "nat \<Rightarrow> int" where "side v \<equiv> int v * 4 + 17"

lemma data_cells_columns: "v \<in> {1..15} \<Longrightarrow> data_cells (side v) = concat (map (column_cells (side v)) (columns_from (side v - 1) True))"
  using columns_of_version by (simp add: data_cells_def comp_def)

lemma data_cells:
  assumes "v \<in> {1..15}"
  shows "distinct (data_cells (side v))" "set (data_cells (side v)) = {0..<side v} \<times> ({0..<side v} - {6})"
proof -
  have c: "concat (map (\<lambda>(c, _). [c, c - 1]) (columns_from (side v - 1) True)) = rev [7..side v - 1] @ rev [0..5]"
    using columns_of_version assms by blast
  have d: "distinct (rev [7..side v - 1] @ rev [0..5])" by auto
  have s: "set (rev [7..side v - 1] @ rev [0..5]) = {0..<side v} - {6}" by auto
  note k = cells_of_columns [of "columns_from (side v - 1) True" "side v", unfolded c s, OF d]
  then show "distinct (data_cells (side v))" "set (data_cells (side v)) = {0..<side v} \<times> ({0..<side v} - {6})"
    unfolding data_cells_columns [OF assms] by blast+
qed

text \<open>The function modules outside the timing column, listed, to count what is left for the data.\<close>

definition align_cells :: "nat \<Rightarrow> (int \<times> int) list" where
  "align_cells v = concat (map (\<lambda>a. concat (map (\<lambda>b. if corner_center v a b then []
     else filter (\<lambda>(r, c). r \<noteq> 6 \<and> c \<noteq> 6) (List.product [a - 2..a + 2] [b - 2..b + 2])) (ALIGN v))) (ALIGN v))"

definition function_cells :: "nat \<Rightarrow> (int \<times> int) list" where
  "function_cells v = (let n = side v in
     List.product [0..8] ([0..5] @ [7..8]) @ List.product [0..8] [n - 8..n - 1] @ List.product [n - 8..n - 1] ([0..5] @ [7..8])
     @ map (Pair 6) [9..n - 9] @ align_cells v
     @ (if v \<ge> 7 then List.product [0..5] [n - 11..n - 9] @ List.product [n - 11..n - 9] [0..5] else []))"

lemma in_concat_map: "a \<in> set xs \<Longrightarrow> y \<in> set (f a) \<Longrightarrow> y \<in> set (concat (map f xs))"
  by auto

lemma function_cells_complete:
  assumes "function_module v r c" "c \<noteq> 6"
  shows "(r, c) \<in> set (function_cells v)"
proof -
  let ?n = "side v"
  have in_: "0 \<le> r" "r < ?n" "0 \<le> c" "c < ?n" using assms(1) by (simp_all add: function_module_def Let_def)
  have aligned: "(r, c) \<in> set (align_cells v)" if al: "alignment_module v r c" "r \<noteq> 6"
  proof -
    obtain a b where ab: "a \<in> set (ALIGN v)" "b \<in> set (ALIGN v)" "\<not> corner_center v a b" "\<bar>r - a\<bar> \<le> 2" "\<bar>c - b\<bar> \<le> 2"
      using al(1) unfolding alignment_module_def list_ex_iff by blast
    then have "(r, c) \<in> set (if corner_center v a b then [] else filter (\<lambda>(r, c). r \<noteq> 6 \<and> c \<noteq> 6) (List.product [a - 2..a + 2] [b - 2..b + 2]))"
      using al(2) assms(2) by auto
    then show ?thesis unfolding align_cells_def
      by - (rule in_concat_map [OF ab(1)], rule in_concat_map [OF ab(2)], assumption)
  qed
  have c1: ?thesis if "r \<le> 8" "c \<le> 8" using that in_ assms(2) by (simp add: function_cells_def Let_def) linarith
  have c2: ?thesis if "r \<le> 8" "?n - 8 \<le> c" using that in_ by (simp add: function_cells_def Let_def)
  have c3: ?thesis if "?n - 8 \<le> r" "c \<le> 8" using that in_ assms(2) by (simp add: function_cells_def Let_def) linarith
  have timing: ?thesis if "r = 6"
  proof (cases "c \<le> 8 \<or> ?n - 8 \<le> c")
    case True
    then show ?thesis using c1 c2 that by auto
  next
    case False
    then show ?thesis using that by (simp add: function_cells_def Let_def)
  qed
  have v1: ?thesis if "7 \<le> v" "r \<le> 5" "?n - 11 \<le> c" using c2 that in_ by (cases "?n - 8 \<le> c") (simp_all add: function_cells_def Let_def)
  have v2: ?thesis if "7 \<le> v" "?n - 11 \<le> r" "c \<le> 5" using c3 that in_ by (cases "?n - 8 \<le> r") (simp_all add: function_cells_def Let_def)
  have al: ?thesis if "alignment_module v r c" using aligned [OF that] timing by (cases "r = 6") (simp_all add: function_cells_def Let_def)
  show ?thesis using assms c1 c2 c3 timing al v1 v2 unfolding function_module_def Let_def by blast
qed

definition total_codewords :: "nat \<Rightarrow> nat" where
  "total_codewords v = (case EC_M v of (ecLen, groups) \<Rightarrow> sum_list (map (\<lambda>(n, d). n * (d + ecLen)) groups))"

lemma align_cells_count: "\<forall>v \<in> {1..15}. length (align_cells v) =
    [0, 25, 25, 25, 25, 25, 140, 140, 140, 140, 140, 140, 140, 305, 305] ! (v - 1)"
  unfolding all_versions by (intro conjI; code_simp)

lemma room: "v \<in> {1..15} \<Longrightarrow> 8 * total_codewords v + length (function_cells v) \<le> nat (side v * (side v - 1))"
proof -
  have "\<forall>v \<in> {1..15}. 8 * total_codewords v + length (function_cells v) \<le> nat (side v * (side v - 1))"
    unfolding all_versions function_cells_def Let_def total_codewords_def EC_M_def
    using align_cells_count [unfolded all_versions] by (simp add: length_product)
  then show "v \<in> {1..15} \<Longrightarrow> ?thesis" by blast
qed

end
