(* ===== verification/QrSymbol.thy ===== *)
theory QrSymbol
  imports QrMatrix
begin

unbundle bit_operations_syntax

text \<open>
  That the symbol of \<open>QrMatrix\<close> reads back: the base grid, the format and version information, the reference
  reader, the choice of the mask, and the second copy of the format information.
\<close>

section \<open>The base grid\<close>

lemma length_interleave: "length (interleave n bs) = sum_list (map (\<lambda>b. min n (length b)) bs)"
proof (induction n)
  case (Suc n)
  have "length (concat (map (\<lambda>b. if n < length b then [b ! n] else []) bs)) + sum_list (map (\<lambda>b. min n (length b)) bs)
      = sum_list (map (\<lambda>b. min (Suc n) (length b)) bs)"
    by (induction bs) auto
  with Suc show ?case by (simp add: interleave_def)
qed (simp add: interleave_def)

lemma length_interleave_full: "length (interleave (foldl max 0 (map length bs)) bs) = sum_list (map length bs)"
  unfolding length_interleave by (intro arg_cong [where f = sum_list] map_cong) (auto simp: min_absorb2 foldl_max_ge)

lemma length_makeCodewords:
  assumes "fits (length bytes) v"
  shows "length (makeCodewords bytes v) = total_codewords v"
proof -
  obtain ecLen groups where e: "EC_M v = (ecLen, groups)" by (cases "EC_M v")
  define ds es where "ds = cut (block_sizes groups) (data_codewords bytes v)" and "es = map (\<lambda>d. rsEncode d ecLen) ds"
  have len: "length (data_codewords bytes v) = sum_list (block_sizes groups)"
    using data_codewords_form(2) [OF assms(1)] sum_block_sizes [of v] e by simp
  have ds: "map length ds = block_sizes groups" unfolding ds_def using len by (simp add: length_cut)
  have es: "map length es = map (\<lambda>_. ecLen) (block_sizes groups)"
    unfolding ds [symmetric] es_def using rs_codeword by (simp add: comp_def)
  have "sum_list (block_sizes groups) + sum_list (map (\<lambda>_. ecLen) (block_sizes groups)) = sum_list (map (\<lambda>(n, d). n * (d + ecLen)) groups)"
    by (induction groups) (auto simp: sum_list_replicate sum_list_triv algebra_simps)
  then show ?thesis using length_interleave_full [of ds] length_interleave_full [of es]
    unfolding makeCodewords_form [OF e ds_def es_def] total_codewords_def e ds es by simp
qed

abbreviation codeword_bits :: "gf list \<Rightarrow> nat list" where
  "codeword_bits cw \<equiv> concat (map byte_bits cw)"

lemma placeData_form:
  assumes "v \<in> {1..15}"
  shows "placed (codeword_bits cw) (data_cells (side v)) (pattern_grid v) 0 (placeData cw (pattern_grid v))"
proof -
  have s: "gsize (pattern_grid v) = side v" using function_patterns(1) [OF assms] .
  have "placeData cw (pattern_grid v) = fst (fold (place_cell (codeword_bits cw)) (data_cells (side v)) (pattern_grid v, 0))"
    using place_columns_cells [of "(pattern_grid v, 0)" "side v" "codeword_bits cw" "side v - 1" True]
    by (simp add: placeData_def s Let_def data_cells_columns [OF assms] byte_bits_def [abs_def] bb_put_def)
  then show ?thesis using place_cells [OF data_cells(1) [OF assms]] by simp
qed

definition open_cells :: "nat \<Rightarrow> (int \<times> int) list" where
  "open_cells v = filter (\<lambda>(r, c). \<not> function_module v r c) (data_cells (side v))"

lemma open_cells_room:
  assumes "v \<in> {1..15}"
  shows "8 * total_codewords v \<le> length (open_cells v)"
proof -
  let ?D = "set (data_cells (side v))" and ?F = "set (function_cells v)"
  have "length (open_cells v) = card (set (open_cells v))"
    using data_cells(1) [OF assms] unfolding open_cells_def by (intro distinct_card [symmetric] distinct_filter)
  moreover have "?D - ?F \<subseteq> set (open_cells v)"
    using function_cells_complete data_cells(2) [OF assms] unfolding open_cells_def by auto
  then have "card (?D - ?F) \<le> card (set (open_cells v))" by (simp add: card_mono)
  moreover have "card ?D \<le> card (?D - ?F) + card ?F"
    by (metis List.finite_set card_Diff_subset_Int diff_le_self add.commute diff_card_le_card_Diff le_diff_conv)
  moreover have "card ?F \<le> length (function_cells v)" by (rule card_length)
  moreover have "card ?D = nat (side v * (side v - 1))"
    unfolding data_cells(2) [OF assms] using assms by (simp add: card_cartesian_product nat_mult_distrib card_Diff_singleton)
  ultimately show ?thesis using room [OF assms] by linarith
qed

lemma base_grid_form:
  assumes "v \<in> {1..15}" "fits (length bytes) v"
  shows "gsize (base_grid bytes v) = side v" "gfn (base_grid bytes v) r c \<longleftrightarrow> function_module v r c"
    "i < 8 * total_codewords v \<Longrightarrow> (open_cells v ! i) = (r, c) \<Longrightarrow> gmod (base_grid bytes v) r c = int (codeword_bits (makeCodewords bytes v) ! i)"
proof -
  let ?cw = "makeCodewords bytes v"
  note p = placeData_form [OF assms(1), of ?cw, folded base_grid_def, unfolded placed_def function_patterns(1) [OF assms(1)]]
  show "gsize (base_grid bytes v) = side v" "gfn (base_grid bytes v) r c \<longleftrightarrow> function_module v r c"
    using p function_patterns(3) [OF assms(1)] by simp_all
  have f: "free_cells (pattern_grid v) (data_cells (side v)) = open_cells v"
    by (simp add: free_cells_def open_cells_def function_patterns(3) [OF assms(1)])
  assume i: "i < 8 * total_codewords v" "open_cells v ! i = (r, c)"
  then have "i < length (open_cells v)" "i < length (codeword_bits ?cw)"
    using open_cells_room [OF assms(1)] by (simp_all add: length_concat_byte_bits length_makeCodewords [OF assms(2)])
  then show "gmod (base_grid bytes v) r c = int (codeword_bits ?cw ! i)"
    using p i(2) unfolding f by force
qed

section \<open>Format and version information\<close>

text \<open>An operation draws inside a set of cells when it changes no other module.\<close>

definition draws :: "int \<Rightarrow> (int \<times> int) set \<Rightarrow> (grid \<Rightarrow> grid) \<Rightarrow> bool" where
  "draws n S f \<longleftrightarrow> (\<forall>g. gsize g = n \<longrightarrow> gsize (f g) = n \<and> gfn (f g) = gfn g \<and> (\<forall>r c. (r, c) \<notin> S \<longrightarrow> gmod (f g) r c = gmod g r c))"

lemma draws_put_mod: "(r, c) \<in> S \<Longrightarrow> draws n S (put_mod r c x)"
  by (auto simp: draws_def put_mod_def)

lemma draws_compose: "draws n S f \<Longrightarrow> draws n S h \<Longrightarrow> draws n S (\<lambda>g. h (f g))"
  by (simp add: draws_def)

lemma draws_fold: "(\<And>x. x \<in> set xs \<Longrightarrow> draws n S (f x)) \<Longrightarrow> draws n S (fold f xs)"
  by (induction xs) (simp_all add: draws_def)

lemma draws_cong: "draws n S f \<Longrightarrow> (\<And>g. gsize g = n \<Longrightarrow> f g = h g) \<Longrightarrow> draws n S h"
  by (simp add: draws_def)

definition function_region :: "nat \<Rightarrow> (int \<times> int) set" where
  "function_region v = {(r, c). function_module v r c}"

lemma draws_mono: "draws n S f \<Longrightarrow> S \<subseteq> T \<Longrightarrow> draws n T f"
  by (auto simp: draws_def)

lemma draws_format_copy1: "draws n ({8} \<times> {0..8} \<union> {0..8} \<times> {8}) (format_copy1 m)" (is "draws _ ?S _")
proof -
  have low: "draws n ?S (put_mod 8 i x)" "draws n ?S (put_mod i 8 x)" if "0 \<le> i" "i \<le> 8" for i x
    using that by (intro draws_put_mod; simp)+
  have "draws n ?S (fold (\<lambda>i. put_mod 8 i (format_get m i)) [0..5])" "draws n ?S (fold (\<lambda>i. put_mod (14 - i) 8 (format_get m i)) [9..14])"
    by (rule draws_fold, (rule low; simp only: set_upto atLeastAtMost_iff; linarith))+
  note parts = draws_compose [OF draws_compose [OF draws_compose [OF draws_compose
    [OF this(1) low(1) [of 7 "format_get m 6"]] low(1) [of 8 "format_get m 7"]] low(2) [of 7 "format_get m 8"]] this(2)]
  have "draws n ?S (\<lambda>g. fold (\<lambda>i. put_mod (14 - i) 8 (format_get m i)) [9..14] (put_mod 7 8 (format_get m 8)
     (put_mod 8 8 (format_get m 7) (put_mod 8 7 (format_get m 6) (fold (\<lambda>i. put_mod 8 i (format_get m i)) [0..5] g)))))"
    by (rule parts) simp_all
  then show ?thesis by (rule draws_cong) (simp only: format_copy1_def Let_def)
qed

lemma draws_format_copy2: "draws n ({n - 8..n - 1} \<times> {8} \<union> {8} \<times> {n - 7..n - 1}) (format_copy2 m)" (is "draws _ ?S _")
proof -
  have rows: "draws n ?S (put_mod (n - 1 - i) 8 x)" if "0 \<le> i" "i \<le> 7" for i x using that by (intro draws_put_mod) simp
  have cols: "draws n ?S (put_mod 8 (n - 15 + i) x)" if "8 \<le> i" "i \<le> 14" for i x using that by (intro draws_put_mod) simp
  have "draws n ?S (fold (\<lambda>i. put_mod (n - 1 - i) 8 (format_get m i)) [0..7])" "draws n ?S (fold (\<lambda>i. put_mod 8 (n - 15 + i) (format_get m i)) [8..14])"
    by (rule draws_fold, (rule rows cols; simp only: set_upto atLeastAtMost_iff; linarith))+
  note parts = draws_compose [OF draws_compose [OF this] draws_put_mod [of "n - 8" 8 ?S n 1]]
  have "draws n ?S (\<lambda>g. put_mod (n - 8) 8 1 (fold (\<lambda>i. put_mod 8 (n - 15 + i) (format_get m i)) [8..14]
     (fold (\<lambda>i. put_mod (n - 1 - i) 8 (format_get m i)) [0..7] g)))"
    by (rule parts) simp
  then show ?thesis by (rule draws_cong) (simp only: format_copy2_def Let_def)
qed

lemma draws_drawFormat:
  assumes "v \<in> {1..15}"
  shows "draws (side v) (function_region v) (drawFormat m)"
proof -
  have "draws (side v) (function_region v) (format_copy1 m)" "draws (side v) (function_region v) (format_copy2 m)"
    using assms by (auto intro!: draws_mono [OF draws_format_copy1] draws_mono [OF draws_format_copy2]
        simp: function_region_def function_module_def Let_def)
  from draws_compose [OF this] show ?thesis by (simp add: drawFormat_def [abs_def])
qed

lemma draws_version_cells:
  assumes "v \<in> {1..15}"
  shows "draws (side v) ({(r, c). 7 \<le> v \<and> (0 \<le> r \<and> r \<le> 5 \<and> side v - 11 \<le> c \<and> c \<le> side v - 9 \<or> 0 \<le> c \<and> c \<le> 5 \<and> side v - 11 \<le> r \<and> r \<le> side v - 9)}) (drawVersion v)"
    (is "draws ?n ?S _")
proof (cases "v < 7")
  case True
  then show ?thesis by (simp add: drawVersion_def draws_def)
next
  case False
  let ?b = "\<lambda>i. drop_bit (nat i) (versionBits v) AND 1"
  have "(i div 3, ?n - 11 + i mod 3) \<in> ?S" "(?n - 11 + i mod 3, i div 3) \<in> ?S" if "0 \<le> i" "i \<le> 17" for i
  proof -
    have "0 \<le> i mod 3" "i mod 3 \<le> 2" "0 \<le> i div 3" "i div 3 \<le> 5" using that by presburger+
    then show "(i div 3, ?n - 11 + i mod 3) \<in> ?S" "(?n - 11 + i mod 3, i div 3) \<in> ?S" using False by simp_all
  qed
  then have "draws ?n ?S (\<lambda>g. put_mod (?n - 11 + i mod 3) (i div 3) (?b i) (put_mod (i div 3) (?n - 11 + i mod 3) (?b i) g))"
    if "i \<in> set [0..17]" for i
    using that unfolding set_upto atLeastAtMost_iff by (intro draws_compose [OF draws_put_mod draws_put_mod]) blast+
  then have "draws ?n ?S (fold (\<lambda>i g. put_mod (?n - 11 + i mod 3) (i div 3) (?b i) (put_mod (i div 3) (?n - 11 + i mod 3) (?b i) g)) [0..17])"
    by (rule draws_fold)
  then show ?thesis by (rule draws_cong) (simp only: drawVersion_def Let_def False if_False)
qed

lemma draws_drawVersion:
  assumes "v \<in> {1..15}"
  shows "draws (side v) (function_region v) (drawVersion v)"
  by (rule draws_mono [OF draws_version_cells [OF assms]]) (use assms in \<open>auto simp: function_region_def function_module_def Let_def\<close>)

lemma tryMask_form:
  assumes "v \<in> {1..15}" "gsize base = side v" "\<And>r c. gfn base r c \<longleftrightarrow> function_module v r c"
  shows "gsize (tryMask base v m) = side v" 
    "\<lbrakk>(r, c) \<in> square (side v); \<not> function_module v r c\<rbrakk> \<Longrightarrow>
      gmod (tryMask base v m) r c = (if MASKS m r c then gmod base r c XOR 1 else gmod base r c)"
proof -
  let ?a = "applyMask m base" 
  have a: "gsize ?a = side v" by (simp add: applyMask_def assms(2))
  have f: "gsize (drawFormat m ?a) = side v" "\<And>r c. \<not> function_module v r c \<Longrightarrow> gmod (drawFormat m ?a) r c = gmod ?a r c"
    using draws_drawFormat [OF assms(1), of m] a unfolding draws_def function_region_def by simp_all
  then have t: "gsize (tryMask base v m) = side v" "\<And>r c. \<not> function_module v r c \<Longrightarrow> gmod (tryMask base v m) r c = gmod ?a r c"
    using draws_drawVersion [OF assms(1)] unfolding draws_def function_region_def tryMask_def by simp_all
  show "gsize (tryMask base v m) = side v" by (rule t)
  assume "(r, c) \<in> square (side v)" "\<not> function_module v r c"
  then show "gmod (tryMask base v m) r c = (if MASKS m r c then gmod base r c XOR 1 else gmod base r c)"
    using t(2) by (simp add: applyMask_def assms(2,3) square_def)
qed

text \<open>The first copy of the format information: the cells of the standard, and what they hold.\<close>

definition format_copy :: "(int \<times> int) list" where
  "format_copy = [(8, 0), (8, 1), (8, 2), (8, 3), (8, 4), (8, 5), (8, 7), (8, 8), (7, 8), (5, 8), (4, 8), (3, 8), (2, 8), (1, 8), (0, 8)]"

lemma gmod_put_mod: "gmod (put_mod r c x g) r' c' = (if r' = r \<and> c' = c then x else gmod g r' c')"
  by (simp add: put_mod_def)

lemma format_copy1_drawn: "map (\<lambda>(r, c). gmod (format_copy1 m g) r c) format_copy = map (format_get m) [0..14]"
proof -
  have u: "[0..5] = [0, 1, 2, 3, 4, 5::int]" "[9..14] = [9, 10, 11, 12, 13, 14::int]"
    "[0..14] = [0, 1, 2, 3, 4, 5, 6, 7, 8, 9, 10, 11, 12, 13, 14::int]" by code_simp+
  show ?thesis unfolding format_copy1_def Let_def u format_copy_def by (simp add: gmod_put_mod)
qed

lemma formatBits_table: "map formatBits [0..<8] = [21522, 20773, 24188, 23371, 17913, 16590, 20375, 19104]"
  by code_simp

lemma formatBits_range: "m < 8 \<Longrightarrow> 0 \<le> formatBits m \<and> formatBits m < 2 ^ 15"
proof -
  assume "m < 8"
  then have "formatBits m \<in> set (map formatBits [0..<8])" by simp
  then show ?thesis unfolding formatBits_table by auto
qed

lemma format_get_bits: "m < 8 \<Longrightarrow> map (format_get m) [0..14] = map int (bb_put (nat (formatBits m)) 15 [])"
proof -
  assume "m < 8"
  then have "format_get m i = int (drop_bit (nat (14 - i)) (nat (formatBits m)) AND 1)" for i
    using formatBits_range by (simp add: format_get_def and_one_eq zmod_int of_nat_drop_bit)
  moreover have "rev [0..<15] = map (\<lambda>i. nat (14 - i)) [0..14]" by code_simp
  ultimately show ?thesis by (simp add: bb_put_def comp_def del: upt_rec_numeral upto_rec_numeral)
qed

text \<open>In the finished symbol the first copy is the format word: the second copy and the version blocks are elsewhere.\<close>

lemma format_copy_read:
  assumes "v \<in> {1..15}" "gsize base = side v" "m < 8"
  shows "map (\<lambda>(r, c). gmod (tryMask base v m) r c) format_copy = map int (bb_put (nat (formatBits m)) 15 [])"
proof -
  let ?a = "applyMask m base" and ?n = "side v"
  have a: "gsize (format_copy1 m ?a) = ?n"
    using draws_format_copy1 [of ?n m] assms(2) unfolding draws_def by (simp add: applyMask_def)
  have in_: "0 \<le> r \<and> r \<le> 8 \<and> 0 \<le> c \<and> c \<le> 8 \<and> (r = 8 \<or> c = 8)" if "(r, c) \<in> set format_copy" for r c
    using that by (auto simp: format_copy_def)
  have f: "gmod (drawFormat m ?a) r c = gmod (format_copy1 m ?a) r c" "gsize (drawFormat m ?a) = ?n" if "(r, c) \<in> set format_copy" for r c
    using in_ [OF that] assms(1) draws_format_copy2 [of ?n m] a unfolding draws_def drawFormat_def by auto
  have "gmod (drawVersion v h) r c = gmod h r c" if "gsize h = ?n" "(r, c) \<in> set format_copy" for h r c
    using draws_version_cells [OF assms(1)] that in_ [OF that(2)] assms(1) unfolding draws_def by auto
  then have "gmod (tryMask base v m) r c = gmod (format_copy1 m ?a) r c" if "(r, c) \<in> set format_copy" for r c
    using f [OF that] that unfolding tryMask_def by simp
  then have "map (\<lambda>(r, c). gmod (tryMask base v m) r c) format_copy = map (\<lambda>(r, c). gmod (format_copy1 m ?a) r c) format_copy"
    by (intro map_cong) auto
  then show ?thesis by (simp only: format_copy1_drawn format_get_bits [OF assms(3)])
qed

section \<open>Reading the symbol back\<close>

text \<open>
  The reference reader of a matrix: the version from the side, the mask from the first copy of the format
  information, the data modules in the order of the standard with the mask removed, then the codewords.
\<close>

definition qr_at :: "bool list list \<Rightarrow> int \<Rightarrow> int \<Rightarrow> bool" where
  "qr_at mtx r c = mtx ! nat r ! nat c"

definition read_mask :: "bool list list \<Rightarrow> nat option" where
  "read_mask mtx = List.find (\<lambda>m. formatBits m = int (bits_value (map (\<lambda>(r, c). of_bool (qr_at mtx r c)) format_copy))) [0..<8]"

definition readQR :: "bool list list \<Rightarrow> gf list option" where
  "readQR mtx =
     (let n = length mtx; v = (n - 17) div 4
      in if \<not> (1 \<le> v \<and> v \<le> 15 \<and> n = v * 4 + 17) then None
         else case read_mask mtx of None \<Rightarrow> None | Some m \<Rightarrow>
           readCodewords v (pack (take (8 * total_codewords v) (map (\<lambda>(r, c). of_bool (qr_at mtx r c \<noteq> MASKS m r c)) (open_cells v)))))"

abbreviation matrix_of :: "grid \<Rightarrow> bool list list" where
  "matrix_of g \<equiv> map (\<lambda>r. map (\<lambda>c. gmod g r c = 1) [0..gsize g - 1]) [0..gsize g - 1]"

lemma qr_at_matrix: "(r, c) \<in> square (gsize g) \<Longrightarrow> qr_at (matrix_of g) r c \<longleftrightarrow> gmod g r c = 1"
  by (simp add: qr_at_def square_def nth_upto)

lemma find_formatBits: "m < 8 \<Longrightarrow> List.find (\<lambda>k. formatBits k = formatBits m) [0..<8] = Some m"
proof -
  assume m: "m < 8"
  have "distinct (map formatBits [0..<8])" unfolding formatBits_table by simp
  then have inj: "k < 8 \<Longrightarrow> formatBits k = formatBits m \<longleftrightarrow> k = m" for k
    using m by (auto simp: distinct_map dest: inj_onD)
  have "List.find (\<lambda>k. formatBits k = formatBits m) [0..<8] = Some ([0..<8] ! m)"
    unfolding find_Some_iff using m inj by (intro exI [of _ m]) auto
  then show ?thesis using m by simp
qed

lemma bits_value_drawn:
  assumes "map f xs = map int (bb_put k len [])" "\<And>x. x \<in> set xs \<Longrightarrow> b x \<longleftrightarrow> f x = 1"
  shows "bits_value (map (\<lambda>x. of_bool (b x)) xs) = k mod 2 ^ len"
proof -
  have "map (\<lambda>x. of_bool (b x)) xs = map (\<lambda>y. of_bool (y = (1 :: int))) (map f xs)" using assms(2) by simp
  also have "\<dots> = map (\<lambda>y. of_bool (int y = (1 :: int))) (bb_put k len [])" unfolding assms(1) by (simp add: comp_def)
  also have "\<dots> = bb_put k len []" using bits_small [of _ k len] by (intro map_idI) (auto simp: less_2_cases_iff)
  finally show ?thesis by (simp add: bits_value_put)
qed

lemma pack_codeword_bits: "pack (codeword_bits cw) = cw"
proof (induction cw)
  case (Cons b cw)
  have "\<forall>x \<in> set (codeword_bits (b # cw)). x < 2" by (auto simp: byte_bits_def intro: bits_small)
  then have "pack (codeword_bits (b # cw)) = word_of_nat (bits_value (take 8 (codeword_bits (b # cw)))) # pack (drop 8 (codeword_bits (b # cw)))"
    using length_byte_bits [of b] by (intro pack_step) (auto simp del: length_byte_bits)
  moreover have "take 8 (codeword_bits (b # cw)) = byte_bits b" "drop 8 (codeword_bits (b # cw)) = codeword_bits cw" by simp_all
  ultimately show ?case using Cons by (simp only: bits_value_byte_bits)
qed simp

lemma xor_one_bit: "b < 2 \<Longrightarrow> (int b XOR 1 = 1) \<longleftrightarrow> b = 0"
  by (auto simp: less_2_cases_iff)

lemma open_cells_square: "v \<in> {1..15} \<Longrightarrow> (r, c) \<in> set (open_cells v) \<Longrightarrow> (r, c) \<in> square (side v) \<and> \<not> function_module v r c"
  using data_cells(2) [of v] by (auto simp: open_cells_def square_def)

lemma read_tryMask:
  assumes "v \<in> {1..15}" "fits (length bytes) v" "length bytes < 2 ^ countBits v" "m < 8"
  shows "readQR (matrix_of (tryMask (base_grid bytes v) v m)) = Some bytes"
proof -
  let ?base = "base_grid bytes v" and ?n = "side v"
  let ?g = "tryMask ?base v m" and ?cw = "makeCodewords bytes v"
  note b = base_grid_form [OF assms(1,2)]
  note t = tryMask_form [OF assms(1) b(1,2)]
  have fm: "int (bits_value (map (\<lambda>(r, c). of_bool (qr_at (matrix_of ?g) r c)) format_copy)) = formatBits m"
  proof -
    have "bits_value (map (\<lambda>x. of_bool (case x of (r, c) \<Rightarrow> qr_at (matrix_of ?g) r c)) format_copy) = nat (formatBits m) mod 2 ^ 15"
      using assms(1) qr_at_matrix [of _ _ ?g]
      by (intro bits_value_drawn [OF format_copy_read [OF assms(1) b(1) assms(4)]]) (auto simp: format_copy_def square_def t(1))
    moreover have "nat (formatBits m) < 2 ^ 15" "0 \<le> formatBits m" using formatBits_range [OF assms(4)] by (simp_all add: nat_less_iff)
    ultimately show ?thesis by (simp add: case_prod_unfold)
  qed
  have m: "read_mask (matrix_of ?g) = Some m" unfolding read_mask_def fm by (rule find_formatBits [OF assms(4)])
  let ?read = "map (\<lambda>(r, c). of_bool (qr_at (matrix_of ?g) r c \<noteq> MASKS m r c)) (open_cells v)"
  have cell: "?read ! i = codeword_bits ?cw ! i" if "i < 8 * total_codewords v" for i
  proof -
    obtain r c where rc: "open_cells v ! i = (r, c)" by fastforce
    have il: "i < length (open_cells v)" using that open_cells_room [OF assms(1)] by simp
    then have sq: "(r, c) \<in> square ?n" "\<not> function_module v r c" using open_cells_square [OF assms(1)] rc nth_mem by metis+
    have "i < length (codeword_bits ?cw)" using that by (simp add: length_concat_byte_bits length_makeCodewords [OF assms(2)])
    then have "codeword_bits ?cw ! i \<in> set (codeword_bits ?cw)" by (rule nth_mem)
    then have two: "codeword_bits ?cw ! i < 2" by (auto simp: byte_bits_def intro: bits_small)
    have "qr_at (matrix_of ?g) r c \<longleftrightarrow> gmod ?g r c = 1" using sq(1) by (intro qr_at_matrix) (simp add: t(1))
    then have "(qr_at (matrix_of ?g) r c \<noteq> MASKS m r c) \<longleftrightarrow> codeword_bits ?cw ! i = 1"
      using two t(2) [OF sq] b(3) [OF that rc] by (auto simp: xor_one_bit less_2_cases_iff)
    then show ?thesis using il rc two by (auto simp: less_2_cases_iff)
  qed
  have "take (8 * total_codewords v) ?read = codeword_bits ?cw"
    using open_cells_room [OF assms(1)] cell
    by (intro nth_equalityI) (simp_all add: length_concat_byte_bits length_makeCodewords [OF assms(2)])
  moreover have "length (matrix_of ?g) = v * 4 + 17" by (simp add: t(1))
  ultimately show ?thesis using assms(1) read_makeCodewords [OF assms(2,3)]
    unfolding readQR_def Let_def by (simp add: m pack_codeword_bits)
qed

section \<open>The choice of the mask\<close>

lemma best_loop_best:
  "bs = penalty best \<Longrightarrow> best_loop f ms best bs \<in> insert best (f ` set ms)
    \<and> (\<forall>g \<in> insert best (f ` set ms). penalty (best_loop f ms best bs) \<le> penalty g)"
proof (induction ms arbitrary: best bs)
  case (Cons m ms)
  show ?case
  proof (cases "penalty (f m) < bs")
    case True
    then show ?thesis using Cons.IH [of "penalty (f m)" "f m"] Cons.prems by (auto simp: Let_def)
  next
    case False
    then show ?thesis using Cons.IH [OF Cons.prems] Cons.prems by (auto simp: Let_def)
  qed
qed simp

definition forced_ok :: "nat option \<Rightarrow> bool" where
  "forced_ok forceMask = (case forceMask of None \<Rightarrow> True | Some m \<Rightarrow> m < 8)"

lemma encode_form:
  assumes "pickVersion (length bytes) = Inr v"
  shows "encode bytes (Some m) = Inr (matrix_of (tryMask (base_grid bytes v) v m))"
    and "\<exists>m < 8. encode bytes None = Inr (matrix_of (tryMask (base_grid bytes v) v m))
      \<and> (\<forall>k < 8. penalty (tryMask (base_grid bytes v) v m) \<le> penalty (tryMask (base_grid bytes v) v k))"
proof -
  let ?t = "tryMask (base_grid bytes v) v"
  let ?b = "best_loop ?t [1..<8] (?t 0) (penalty (?t 0))"
  show "encode bytes (Some m) = Inr (matrix_of (?t m))" by (simp add: encode_def assms Let_def)
  have e: "encode bytes None = Inr (matrix_of ?b)" by (simp add: encode_def assms Let_def)
  have "set [0..<8] = insert 0 (set [1..<8])" by code_simp
  then have i: "insert (?t 0) (?t ` set [1..<8]) = ?t ` {..<8}" by (simp only: image_insert [symmetric] lessThan_atLeast0 set_upt)
  have "?b \<in> ?t ` {..<8}" "\<forall>g \<in> ?t ` {..<8}. penalty ?b \<le> penalty g"
    using best_loop_best [OF refl, of ?t "[1..<8]" "?t 0"] unfolding i by blast+
  then show "\<exists>m < 8. encode bytes None = Inr (matrix_of (?t m)) \<and> (\<forall>k < 8. penalty (?t m) \<le> penalty (?t k))"
    unfolding e by auto
qed

lemma qr_reads_back:
  assumes "length bytes \<le> 412" "forced_ok forceMask"
  shows "\<exists>mtx. encode bytes forceMask = Inr mtx \<and> readQR mtx = Some bytes"
proof -
  have "pickVersion (length bytes) \<noteq> Inl e" for e using pickVersion_error assms(1) by (metis not_le)
  then obtain v where v: "pickVersion (length bytes) = Inr v" by (cases "pickVersion (length bytes)") auto
  obtain m where "m < 8" "encode bytes forceMask = Inr (matrix_of (tryMask (base_grid bytes v) v m))"
    using encode_form [OF v] assms(2) by (cases forceMask) (auto simp: forced_ok_def)
  then show ?thesis using read_tryMask [OF pickVersion_fits [OF v]] by blast
qed



text \<open>
  Without a forced mask the symbol is the masked one whose penalty is the least of the eight.
\<close>

theorem encode_least_penalty:
  assumes "pickVersion (length bytes) = Inr v"
  shows "\<exists>m < 8. encode bytes None = Inr (matrix_of (tryMask (base_grid bytes v) v m))
      \<and> (\<forall>k < 8. penalty (tryMask (base_grid bytes v) v m) \<le> penalty (tryMask (base_grid bytes v) v k))"
  using assms by (rule encode_form)

theorem encode_least_penalty_witness:
  "\<exists>m < 8. encode [0x63] None = Inr (matrix_of (tryMask (base_grid [0x63] 1) 1 m))
      \<and> (\<forall>k < 8. penalty (tryMask (base_grid [0x63] 1) 1 m) \<le> penalty (tryMask (base_grid [0x63] 1) 1 k))"
  by (rule encode_least_penalty) code_simp

section \<open>The second copy of the format information\<close>

definition format_copy_2nd :: "int \<Rightarrow> (int \<times> int) list" where
  "format_copy_2nd n = map (\<lambda>i. (n - 1 - i, 8)) [0..6] @ map (\<lambda>i. (8, n - 15 + i)) [7..14]"

lemma strip_module_light:
  assumes "v \<in> {1..15}"
  shows "gmod (pattern_grid v) 8 (side v - 8) = 0"
proof -
  let ?n = "side v"
  let ?S = "({0 - 1..0 + 7} \<times> {0 - 1..0 + 7}) \<inter> square ?n \<union> ({0 - 1..0 + 7} \<times> {?n - 7 - 1..?n - 7 + 7}) \<inter> square ?n
    \<union> ({?n - 7 - 1..?n - 7 + 7} \<times> {0 - 1..0 + 7}) \<inter> square ?n \<union> ({6} \<times> {8..?n - 9} \<union> {8..?n - 9} \<times> {6})
    \<union> {(r, c). alignment_module v r c} \<union> {(?n - 8, 8)}"
  let ?f = "\<lambda>g. set_cell (?n - 8) 8 True True (placeAlignment v (placeTiming (placeFinder (?n - 7) 0 (placeFinder 0 (?n - 7) (placeFinder 0 0 g)))))"
  let ?strip = "\<lambda>i g. reserve (?n - 1 - i) 8 (reserve 8 (?n - 1 - i) g)"
  have p: "paints ?n ?f ?S"
    by (rule paints_compose [OF paints_compose [OF paints_compose [OF paints_compose
      [OF paints_compose [OF paints_placeFinder paints_placeFinder] paints_placeFinder] paints_placeTiming] paints_placeAlignment] paints_set_cell])
  have two: "paints ?n (\<lambda>g. reserve a b (reserve c d g)) ({(c, d)} \<union> {(a, b)})" for a b c d
    by (rule paints_compose [OF paints_reserve paints_reserve])
  have q: "paints ?n (\<lambda>g. fold ?strip [0..6] (fold (\<lambda>i g. reserve i 8 (reserve 8 i g)) [0..8] (?f g)))
    (?S \<union> (\<Union>i \<in> set [0..8]. {(8, i)} \<union> {(i, 8)}) \<union> (\<Union>i \<in> set [0..6]. {(8, ?n - 1 - i)} \<union> {(?n - 1 - i, 8)}))"
    by (rule paints_compose [OF paints_compose [OF p paints_fold [OF two]] paints_fold [OF two]])
  let ?g = "fold ?strip [0..6] (fold (\<lambda>i g. reserve i 8 (reserve 8 i g)) [0..8] (?f (newGrid v)))"
  have g: "gsize (newGrid v) = ?n" "painted (newGrid v)" by (simp_all add: newGrid_def painted_def)
  have al: "\<not> alignment_module v 8 (?n - 8)"
  proof -
    have "\<forall>v \<in> {1..15}. \<not> alignment_module v 8 (side v - 8)" unfolding all_versions by (intro conjI; code_simp)
    then show ?thesis using assms by blast
  qed
  have "\<not> gfn ?g 8 (?n - 8)" unfolding paintsD(3) [OF q g] using al assms by (auto simp: newGrid_def square_def)
  then have z: "gmod (?strip 7 ?g) 8 (?n - 8) = 0"
    using assms by (auto simp: reserve_def set_cell_def put_mod_def put_fn_def)
  have gs: "gsize ?g = ?n" "painted ?g" using paintsD(1,2) [OF q g] by blast+
  have "pattern_grid v = reserveVersion v (?strip 7 ?g)"
  proof -
    have "[0..7] = [0..6] @ [7::int]" by code_simp
    moreover have "gsize (?f (newGrid v)) = ?n" using paintsD(1) [OF p g] .
    moreover have "gsize (newGrid v) = ?n" by (rule g)
    ultimately show ?thesis unfolding placeFunctionPatterns_def Let_def reserveFormat_def by (simp only: fold_append comp_def fold_simps)
  qed
  moreover have "gsize (?strip 7 ?g) = ?n" "painted (?strip 7 ?g)" using paintsD(1,2) [OF two gs] by blast+
  then have "gmod (reserveVersion v (?strip 7 ?g)) 8 (?n - 8) = gmod (?strip 7 ?g) 8 (?n - 8)"
    by (intro paintsD(4) [OF paints_reserveVersion]) auto
  ultimately show ?thesis using z by simp
qed

lemma fold_put_row:
  "distinct is \<Longrightarrow> inj f \<Longrightarrow> gmod (fold (\<lambda>i. put_mod (f i) 8 (x i)) is g) (f j) 8 = (if j \<in> set is then x j else gmod g (f j) 8)"
  by (induction "is" arbitrary: g) (auto simp: gmod_put_mod inj_eq)

lemma fold_put_col:
  "distinct is \<Longrightarrow> inj f \<Longrightarrow> gmod (fold (\<lambda>i. put_mod 8 (f i) (x i)) is g) 8 (f j) = (if j \<in> set is then x j else gmod g 8 (f j))"
  by (induction "is" arbitrary: g) (auto simp: gmod_put_mod inj_eq)

lemma fold_put_elsewhere: "\<forall>i \<in> set is. (r, c) \<noteq> (f i, h i) \<Longrightarrow> gmod (fold (\<lambda>i. put_mod (f i) (h i) (x i)) is g) r c = gmod g r c"
  by (induction "is" arbitrary: g) (auto simp: gmod_put_mod)

lemma format_copy2_drawn:
  assumes "gsize g = n" "21 \<le> n"
  shows "0 \<le> i \<Longrightarrow> i \<le> 6 \<Longrightarrow> gmod (format_copy2 m g) (n - 1 - i) 8 = format_get m i"
    and "8 \<le> i \<Longrightarrow> i \<le> 14 \<Longrightarrow> gmod (format_copy2 m g) 8 (n - 15 + i) = format_get m i"
    and "gmod (format_copy2 m g) 8 (n - 8) = gmod g 8 (n - 8)"
proof -
  let ?rows = "fold (\<lambda>i. put_mod (n - 1 - i) 8 (format_get m i)) [0..7] g"
  let ?cols = "fold (\<lambda>i. put_mod 8 (n - 15 + i) (format_get m i)) [8..14] ?rows"
  have f: "format_copy2 m g = put_mod (n - 8) 8 1 ?cols" by (simp only: format_copy2_def Let_def assms(1))
  have inj: "inj (\<lambda>i. n - 1 - i)" "inj (\<lambda>i. n - 15 + i)" by (auto simp: inj_on_def)
  show "gmod (format_copy2 m g) (n - 1 - i) 8 = format_get m i" if "0 \<le> i" "i \<le> 6"
  proof -
    have "gmod ?cols (n - 1 - i) 8 = gmod ?rows (n - 1 - i) 8"
      using assms(2) that by (intro fold_put_elsewhere) (simp only: set_upto, auto)
    also have "\<dots> = format_get m i" using fold_put_row [OF distinct_upto inj(1)] that by (simp only: set_upto) simp
    finally show ?thesis using that by (simp add: f gmod_put_mod)
  qed
  show "gmod (format_copy2 m g) 8 (n - 15 + i) = format_get m i" if "8 \<le> i" "i \<le> 14"
    using fold_put_col [OF distinct_upto inj(2)] that assms(2) unfolding f gmod_put_mod by (simp only: set_upto) simp
  have "gmod ?cols 8 (n - 8) = gmod ?rows 8 (n - 8)"
    by (rule fold_put_elsewhere) (simp only: set_upto, auto)
  also have "\<dots> = gmod g 8 (n - 8)" using assms(2) by (intro fold_put_elsewhere) (simp only: set_upto, auto)
  finally show "gmod (format_copy2 m g) 8 (n - 8) = gmod g 8 (n - 8)" using assms(2) by (simp add: f gmod_put_mod)
qed

lemma base_strip_light:
  assumes "v \<in> {1..15}"
  shows "gmod (base_grid bytes v) 8 (side v - 8) = 0"
proof -
  have "function_module v 8 (side v - 8)" using assms by (simp add: function_module_def Let_def)
  then show ?thesis using placeData_form [OF assms, of "makeCodewords bytes v"] strip_module_light [OF assms] function_patterns(3) [OF assms]
    unfolding placed_def base_grid_def by metis
qed

lemma second_copy_drawn:
  fixes m :: nat
  assumes "v \<in> {1..15}" "fits (length bytes) v"
  defines "g \<equiv> tryMask (base_grid bytes v) v m"
  shows "0 \<le> i \<Longrightarrow> i \<le> 6 \<Longrightarrow> gmod g (side v - 1 - i) 8 = format_get m i"
    and "8 \<le> i \<Longrightarrow> i \<le> 14 \<Longrightarrow> gmod g 8 (side v - 15 + i) = format_get m i"
    and "gmod g 8 (side v - 8) = 0"
proof -
  let ?n = "side v" and ?b = "base_grid bytes v"
  let ?a = "applyMask m ?b"
  let ?c = "format_copy1 m ?a"
  note b = base_grid_form [OF assms(1,2)]
  have n: "21 \<le> ?n" using assms(1) by simp
  have a: "gsize ?a = ?n" by (simp add: applyMask_def b(1))
  have c: "gsize ?c = ?n" "\<And>r c. (r, c) \<notin> {8} \<times> {0..8} \<union> {0..8} \<times> {8} \<Longrightarrow> gmod ?c r c = gmod ?a r c"
    using draws_format_copy1 [of ?n m] a unfolding draws_def by blast+
  have d: "gsize (drawFormat m ?a) = ?n" using draws_format_copy2 [of ?n m] c(1) unfolding draws_def drawFormat_def by blast
  have e: "gmod g r c = gmod (format_copy2 m ?c) r c" if "(r = 8 \<and> ?n - 8 \<le> c) \<or> (c = 8 \<and> ?n - 8 \<le> r)" for r c
    using draws_version_cells [OF assms(1)] d that n unfolding draws_def g_def tryMask_def drawFormat_def by auto
  show "gmod g (?n - 1 - i) 8 = format_get m i" if "0 \<le> i" "i \<le> 6"
    using e [of "?n - 1 - i" 8] format_copy2_drawn(1) [OF c(1) n that] that by simp
  show "gmod g 8 (?n - 15 + i) = format_get m i" if "8 \<le> i" "i \<le> 14"
    using e [of 8 "?n - 15 + i"] format_copy2_drawn(2) [OF c(1) n that] that by simp
  have "gmod ?a 8 (?n - 8) = 0" using base_strip_light [OF assms(1)] b(2) assms(1) by (simp add: applyMask_def function_module_def Let_def)
  then show "gmod g 8 (?n - 8) = 0" using e [of 8 "?n - 8"] format_copy2_drawn(3) [OF c(1) n, of m] c(2) [of 8 "?n - 8"] n by simp
qed

text \<open>
  C40: The second copy of the format information is not the format word for half of the masks: of its fifteen
  modules, in the places the standard gives them, fourteen hold their bit, but the eighth is always light,
  since its bit is written to the dark module instead, and for masks 4 to 7 that bit is one. The first copy
  is exact, and any two format words differ in at least seven modules, so a decoder still tells the mask.
\<close>

theorem second_format_copy_defect:
  assumes "pickVersion (length bytes) = Inr v" "m < 8" "g = tryMask (base_grid bytes v) v m"
  shows "map (\<lambda>(r, c). gmod g r c) format_copy = map (format_get m) [0..14]
    \<and> map (\<lambda>(r, c). gmod g r c) (format_copy_2nd (gsize g)) = (map (format_get m) [0..14])[7 := 0]
    \<and> format_get m 7 = (if m < 4 then 0 else 1)
    \<and> (\<forall>k < 8. k \<noteq> m \<longrightarrow> 7 \<le> length (filter (\<lambda>i. format_get m i \<noteq> format_get k i) [0..14]))"
proof -
  note v = pickVersion_fits(1,2) [OF assms(1)]
  note b = base_grid_form(1,2) [OF v]
  note t = second_copy_drawn [OF v, where m = m, folded assms(3)]
  have s: "gsize g = side v" unfolding assms(3) by (rule tryMask_form(1) [OF v(1) b])
  have u: "[0..6] = [0, 1, 2, 3, 4, 5, 6::int]" "[7..14] = [7, 8, 9, 10, 11, 12, 13, 14::int]"
    "[0..14] = [0, 1, 2, 3, 4, 5, 6, 7, 8, 9, 10, 11, 12, 13, 14::int]" by code_simp+
  have "map (\<lambda>(r, c). gmod g r c) format_copy = map (format_get m) [0..14]"
    unfolding assms(3) format_copy_read [OF v(1) b(1) assms(2)] format_get_bits [OF assms(2)] ..
  moreover have "map (\<lambda>(r, c). gmod g r c) (format_copy_2nd (gsize g)) = (map (format_get m) [0..14])[7 := 0]"
    unfolding s format_copy_2nd_def u using t(1) [of 0] t(1) [of 1] t(1) [of 2] t(1) [of 3] t(1) [of 4] t(1) [of 5] t(1) [of 6]
      t(2) [of 8] t(2) [of 9] t(2) [of 10] t(2) [of 11] t(2) [of 12] t(2) [of 13] t(2) [of 14] t(3)
    by simp
  moreover have "\<forall>m \<in> set [0..<8]. format_get m 7 = (if m < 4 then 0 else 1)"
    "\<forall>m \<in> set [0..<8]. \<forall>k \<in> set [0..<8]. k \<noteq> m \<longrightarrow> 7 \<le> length (filter (\<lambda>i. format_get m i \<noteq> format_get k i) [0..14])"
    by code_simp+
  ultimately show ?thesis using assms(2) by simp
qed

theorem second_format_copy_defect_witness:
  "(map (format_get 5) [0..14])[7 := 0] \<noteq> map (format_get 5) [0..14] \<and>
   map (\<lambda>(r, c). gmod (tryMask (base_grid [0x63] 1) 1 5) r c) (format_copy_2nd (gsize (tryMask (base_grid [0x63] 1) 1 5))) = (map (format_get 5) [0..14])[7 := 0]"
proof
  show "(map (format_get 5) [0..14])[7 := 0] \<noteq> map (format_get 5) [0..14]" by code_simp
  have "pickVersion (length [0x63 :: gf]) = Inr 1" by code_simp
  from second_format_copy_defect [OF this _ refl, of 5]
  show "map (\<lambda>(r, c). gmod (tryMask (base_grid [0x63] 1) 1 5) r c) (format_copy_2nd (gsize (tryMask (base_grid [0x63] 1) 1 5))) = (map (format_get 5) [0..14])[7 := 0]"
    by simp
qed

end
