(* ===== verification/QrPair.thy ===== *)
theory QrPair
  imports PairClient QrSymbol
begin

text \<open>
  The symbol on the terminal, \<^verbatim>\<open>renderToTerminal\<close> of \<^verbatim>\<open>packages/cli/src/qr.ts\<close>, and the command that prints it,
  \<^verbatim>\<open>runPairQr\<close> of \<^verbatim>\<open>packages/cli/src/cc.ts\<close>. A printed text is the list of its UTF-16 code units.
\<close>

type_synonym text_units = "nat list"

definition units :: "string \<Rightarrow> text_units" where
  "units s = map of_char s"

section \<open>Rendering\<close>

definition shown_dark :: "bool list list \<Rightarrow> int \<Rightarrow> int \<Rightarrow> bool" where
  "shown_dark matrix r c =
     (let q = 4; n = int (length matrix); rr = r - q; cc = c - q
      in rr \<ge> 0 \<and> rr < n \<and> cc \<ge> 0 \<and> cc < n \<and> matrix ! nat rr ! nat cc)"

definition FG_BLACK_BG_WHITE :: text_units where
  "FG_BLACK_BG_WHITE = units (CHR 0x1B # ''[38;2;0;0;0;48;2;255;255;255m'')"

definition RESET :: text_units where
  "RESET = units (CHR 0x1B # ''[0m'')"

text \<open>Full block, upper half, lower half, space.\<close>

definition glyph :: "bool \<Rightarrow> bool \<Rightarrow> nat" where
  "glyph t b = (if t \<and> b then 0x2588 else if t then 0x2580 else if b then 0x2584 else 0x20)"

definition render_line :: "bool list list \<Rightarrow> int \<Rightarrow> text_units" where
  "render_line matrix r = (let size = int (length matrix) + 4 * 2 in
     FG_BLACK_BG_WHITE @ map (\<lambda>c. glyph (shown_dark matrix r c) (if r + 1 < size then shown_dark matrix (r + 1) c else False)) [0..size - 1]
     @ RESET)"

fun join_units :: "text_units \<Rightarrow> text_units list \<Rightarrow> text_units" where
  "join_units sep [] = []"
| "join_units sep [x] = x"
| "join_units sep (x # y # xs) = x @ sep @ join_units sep (y # xs)"

definition renderToTerminal :: "bool list list \<Rightarrow> text_units" where
  "renderToTerminal matrix =
     join_units [10] (map (render_line matrix) (filter even [0..int (length matrix) + 4 * 2 - 1]))"

section \<open>The command\<close>

datatype term_line = Stdout text_units | Stderr text_units

text \<open>What is printed, and the exception of a payload that is too long, which ends the program.\<close>

definition runPairQr :: "pair_info \<Rightarrow> term_line list \<times> qr_error option" where
  "runPairQr info = (case info of (qr, code, target) \<Rightarrow>
     let intro = Stdout (units (nl @ ''Scan this with the app to pair (one use, valid ~3 minutes):'' @ nl))
     in case encode (text_bytes code) None of
          Inl e \<Rightarrow> ([intro], Some e)
        | Inr matrix \<Rightarrow>
            ([intro, Stdout (renderToTerminal matrix),
              Stdout (units (nl @ ''Or redeem it on another machine with:  CC_PAIR_CODE='' @ quoted code @ '' cc pair'' @ nl))] @
             (if target = None \<or> target = Some []
              then [Stderr (units (''WARNING: the daemon advertises '' @ pp_addr qr @ '', not a tcp:// address, so a phone '' @
                ''cannot reach it. Set CC_CLIENT_TCP_PORT on the daemon to enable remote pairing.''))] else []), None))"

section \<open>What a camera sees\<close>

text \<open>The reference: lines, the two halves of every glyph, and the quiet zone removed.\<close>

definition unglyph :: "nat \<Rightarrow> bool \<times> bool" where
  "unglyph u = (u = 0x2588 \<or> u = 0x2580, u = 0x2588 \<or> u = 0x2584)"

fun split_units :: "text_units \<Rightarrow> text_units list" where
  "split_units [] = [[]]"
| "split_units (u # us) = (if u = 10 then [] # split_units us
     else (case split_units us of l # ls \<Rightarrow> (u # l) # ls | [] \<Rightarrow> [[u]]))"

definition line_glyphs :: "text_units \<Rightarrow> nat list" where
  "line_glyphs l = take (length l - length FG_BLACK_BG_WHITE - length RESET) (drop (length FG_BLACK_BG_WHITE) l)"

definition camera :: "text_units \<Rightarrow> bool list list" where
  "camera t =
     (let rows = concat (map (\<lambda>l. [map (fst \<circ> unglyph) (line_glyphs l), map (snd \<circ> unglyph) (line_glyphs l)]) (split_units t));
          n = length (hd rows) - 8
      in map (\<lambda>row. take n (drop 4 row)) (take n (drop 4 rows)))"

lemma unglyph_glyph [simp]: "unglyph (glyph t b) = (t, b)"
  by (auto simp: glyph_def unglyph_def)

lemma split_units_no10: "10 \<notin> set l \<Longrightarrow> split_units l = [l]"
  by (induction l) auto

lemma split_units_line: "10 \<notin> set l \<Longrightarrow> split_units (l @ 10 # us) = l # split_units us"
  by (induction l) auto

lemma split_join: "ls \<noteq> [] \<Longrightarrow> \<forall>l \<in> set ls. 10 \<notin> set l \<Longrightarrow> split_units (join_units [10] ls) = ls"
  by (induction "[10 :: nat]" ls rule: join_units.induct) (auto simp: split_units_no10 split_units_line)

lemma render_line_form:
  "line_glyphs (render_line m r) = map (\<lambda>c. glyph (shown_dark m r c) (if r + 1 < int (length m) + 8 then shown_dark m (r + 1) c else False)) [0..int (length m) + 7]"
  "10 \<notin> set (render_line m r)"
proof -
  show "line_glyphs (render_line m r) = map (\<lambda>c. glyph (shown_dark m r c) (if r + 1 < int (length m) + 8 then shown_dark m (r + 1) c else False)) [0..int (length m) + 7]"
    by (simp add: line_glyphs_def render_line_def Let_def add.commute)
  have "10 \<notin> set FG_BLACK_BG_WHITE" "10 \<notin> set RESET" by code_simp+
  then show "10 \<notin> set (render_line m r)" by (auto simp: render_line_def Let_def glyph_def)
qed

lemma shown_outside: "r \<ge> int (length m) + 4 \<Longrightarrow> \<not> shown_dark m r c"
  by (simp add: shown_dark_def Let_def)

lemma even_pairs: "concat (map (\<lambda>r. [f r, f (r + 1)]) (filter even [0..int k - 1])) = map f [0..2 * ((int k + 1) div 2) - 1]"
proof (induction k)
  case (Suc k)
  have u: "[0..int (Suc k) - 1] = [0..int k - 1] @ [int k]" using upto_rec2 [of 0 "int k"] by simp
  show ?case
  proof (cases "even k")
    case True
    have "(int (Suc k) + 1) div 2 = int k div 2 + 1" "2 * (int k div 2) = int k" "(int k + 1) div 2 = int k div 2" using True by presburger+
    then have "map f [0..2 * ((int (Suc k) + 1) div 2) - 1] = map f [0..int k - 1] @ [f (int k), f (int k + 1)]"
      using upto_rec2 [of 0 "int k + 1"] upto_rec2 [of 0 "int k"] by (simp add: add.commute)
    then show ?thesis using Suc True \<open>2 * (int k div 2) = int k\<close> \<open>(int k + 1) div 2 = int k div 2\<close> unfolding u by simp
  next
    case False
    then have "(int (Suc k) + 1) div 2 = (int k + 1) div 2" by presburger
    then show ?thesis using Suc False unfolding u by simp
  qed
qed simp

lemma camera_render:
  assumes "m \<noteq> []" "\<forall>row \<in> set m. length row = length m"
  shows "camera (renderToTerminal m) = m"
proof -
  let ?n = "length m"
  let ?es = "filter even [0..int (?n + 8) - 1]"
  let ?row = "\<lambda>r. map (shown_dark m r) [0..int ?n + 7]"
  have e: "0 \<in> set ?es" by simp
  then have ne: "map (render_line m) ?es \<noteq> []" by (metis empty_iff empty_set map_is_Nil_conv)
  have "split_units (renderToTerminal m) = map (render_line m) ?es"
    using split_join [OF ne] render_line_form(2) unfolding renderToTerminal_def by (auto simp: algebra_simps)
  moreover have "[map (fst \<circ> unglyph) (line_glyphs (render_line m r)), map (snd \<circ> unglyph) (line_glyphs (render_line m r))] = [?row r, ?row (r + 1)]" for r
    using shown_outside [of m "r + 1"] by (auto simp: render_line_form(1))
  ultimately have rows: "concat (map (\<lambda>l. [map (fst \<circ> unglyph) (line_glyphs l), map (snd \<circ> unglyph) (line_glyphs l)]) (split_units (renderToTerminal m)))
      = map ?row [0..2 * ((int (?n + 8) + 1) div 2) - 1]" (is "?rows = _")
    using even_pairs [of ?row "?n + 8"] by (simp add: comp_def)
  have long: "int (?n + 8) \<le> 2 * ((int (?n + 8) + 1) div 2)" by presburger
  have hd: "length (hd ?rows) - 8 = ?n" unfolding rows using long by (simp add: upto_rec1)
  show ?thesis
  proof (rule nth_equalityI)
    show l: "length (camera (renderToTerminal m)) = ?n" unfolding camera_def Let_def hd using long by (simp add: rows)
    fix i assume "i < length (camera (renderToTerminal m))"
    then have i: "i < ?n" using l by simp
    have u: "[0..2 * ((int (?n + 8) + 1) div 2) - 1] ! (4 + i) = 4 + int i" using i long by (subst nth_upto) auto
    have "camera (renderToTerminal m) ! i = take ?n (drop 4 (?row (4 + int i)))"
      unfolding camera_def Let_def hd unfolding rows using i long u by simp
    also have "\<dots> = m ! i"
    proof (rule nth_equalityI)
      show "length (take ?n (drop 4 (?row (4 + int i)))) = length (m ! i)" using assms(2) i by simp
      fix j assume "j < length (take ?n (drop 4 (?row (4 + int i))))"
      then show "take ?n (drop 4 (?row (4 + int i))) ! j = m ! i ! j" using i by (simp add: nth_upto shown_dark_def Let_def)
    qed
    finally show "camera (renderToTerminal m) ! i = m ! i" .
  qed
qed

lemma matrix_of_square:
  assumes "gsize g = int n" "0 < n"
  shows "matrix_of g \<noteq> []" "\<forall>row \<in> set (matrix_of g). length row = length (matrix_of g)"
  using assms by (auto simp: upto_rec1)

lemma encode_square:
  assumes "encode bytes None = Inr mtx"
  shows "mtx \<noteq> []" "\<forall>row \<in> set mtx. length row = length mtx"
proof -
  obtain v where v: "pickVersion (length bytes) = Inr v" using assms by (cases "pickVersion (length bytes)") (auto simp: encode_def)
  then obtain m where m: "mtx = matrix_of (tryMask (base_grid bytes v) v m)" using encode_form(2) [OF v] assms by auto
  have "gsize (tryMask (base_grid bytes v) v m) = int (v * 4 + 17)"
    using tryMask_form(1) [OF pickVersion_fits(1) [OF v] base_grid_form(1,2) [OF pickVersion_fits(1,2) [OF v]]] by simp
  from matrix_of_square [OF this] show "mtx \<noteq> []" "\<forall>row \<in> set mtx. length row = length mtx" unfolding m by simp_all
qed



end
