(* ===== verification/HookScript.thy ===== *)
theory HookScript
  imports HookBridge HookMargin JsNumbers
begin

text \<open>
  The hook that Claude Code runs before a tool, \<^verbatim>\<open>hook/approve-bridge.mjs\<close>: it forwards the event to the daemon and
  prints one decision. Claude Code runs the tool on every degraded path, so whatever happens the script
  must print a decision, and it must be a deny unless the daemon said allow. Each input is an event of
  its process; \<^verbatim>\<open>process.exit\<close> ends it, after which nothing is handled. The JSON values written are kept as values.
\<close>

section \<open>The script\<close>

record script =
  hs_settled :: bool
  hs_out :: "json list"
  hs_exit :: "nat option"
  hs_event :: "json option"
  hs_sent :: "json list"
  hs_buf :: string

definition new_script :: script where
  "new_script = \<lparr>hs_settled = False, hs_out = [], hs_exit = None, hs_event = None, hs_sent = [], hs_buf = []\<rparr>"

fun permissionDecision :: "verdict \<Rightarrow> string" where
  "permissionDecision Allow = ''allow''"
| "permissionDecision Deny = ''deny''"

definition script_output :: "verdict \<Rightarrow> json \<Rightarrow> json" where
  "script_output decision reason = JObj [(''hookSpecificOutput'', JObj [
     (''hookEventName'', JStr ''PreToolUse''),
     (''permissionDecision'', JStr (permissionDecision decision)),
     (''permissionDecisionReason'', reason)])]"

definition script_decide :: "verdict \<Rightarrow> json \<Rightarrow> script \<Rightarrow> script" where
  "script_decide decision reason s =
     (if hs_settled s then s
      else s\<lparr>hs_settled := True, hs_out := hs_out s @ [script_output decision reason], hs_exit := Some 0\<rparr>)"

definition script_deny :: "string \<Rightarrow> script \<Rightarrow> script" where
  "script_deny why = script_decide Deny (JStr why)"

text \<open>\<^verbatim>\<open>v || d\<close>\<close>

fun truthy :: "json \<Rightarrow> bool" where
  "truthy JNull \<longleftrightarrow> False"
| "truthy (JBool b) \<longleftrightarrow> b"
| "truthy (JNum n) \<longleftrightarrow> n \<noteq> Fin 0 \<and> n \<noteq> NaN"
| "truthy (JStr s) \<longleftrightarrow> s \<noteq> []"
| "truthy _ \<longleftrightarrow> True"

definition or_text :: "json option \<Rightarrow> string \<Rightarrow> json" where
  "or_text v d = (case v of None \<Rightarrow> JStr d | Some x \<Rightarrow> if truthy x then x else JStr d)"

text \<open>
  The lines of the daemon. Reading \<^verbatim>\<open>msg.kind\<close> of null throws out of the socket callback, into the handler of
  uncaught exceptions; the engine's message is part of the environment.
\<close>

record script_env =
  he_parse :: "string \<Rightarrow> json option"
  he_type_error :: string

fun script_lines :: "script_env \<Rightarrow> string list \<Rightarrow> script \<Rightarrow> script" where
  "script_lines e [] s = s"
| "script_lines e (line # ls) s =
     (if blank line then script_lines e ls s
      else case he_parse e line of
             None \<Rightarrow> script_deny ''malformed daemon response'' s
           | Some msg \<Rightarrow>
               if msg = JNull then script_deny (''bridge error: '' @ he_type_error e) s
               else if \<not> is_str ''approval_decision'' (field ''kind'' (Some msg)) then script_lines e ls s
               else if is_str ''allow'' (field ''decision'' (Some msg))
                    then script_decide Allow (or_text (field ''reason'' (Some msg)) ''approved remotely'') s
               else script_decide Deny (or_text (field ''reason'' (Some msg)) ''rejected remotely'') s)"

datatype script_input =
    Stdin_end string
  | Stdin_failed
  | Sock_connect
  | Sock_data string
  | Sock_error string
  | Sock_close
  | Self_deny
  | Uncaught string
  | Unhandled string
  | Main_failed string

fun script_handle :: "script_env \<Rightarrow> script_input \<Rightarrow> script \<Rightarrow> script" where
  "script_handle e (Stdin_end t) s = (case he_parse e t of
      None \<Rightarrow> script_deny ''unparseable hook payload'' s
    | Some ev \<Rightarrow> s\<lparr>hs_event := Some ev\<rparr>)"
| "script_handle e Stdin_failed s = script_deny ''unparseable hook payload'' s"
| "script_handle e Sock_connect s =
     s\<lparr>hs_sent := hs_sent s @ [JObj ((''kind'', JStr ''approval_request'') #
         (case hs_event s of None \<Rightarrow> [] | Some ev \<Rightarrow> [(''event'', ev)]))]\<rparr>"
| "script_handle e (Sock_data chunk) s =
     (let (ls, rest) = feed_line (hs_buf s) chunk in script_lines e ls (s\<lparr>hs_buf := rest\<rparr>))"
| "script_handle e (Sock_error msg) s = script_deny (''daemon unreachable: '' @ msg) s"
| "script_handle e Sock_close s = script_deny ''daemon closed connection before deciding'' s"
| "script_handle e Self_deny s = script_deny ''no decision before bridge deadline'' s"
| "script_handle e (Uncaught msg) s = script_deny (''bridge error: '' @ msg) s"
| "script_handle e (Unhandled msg) s = script_deny (''bridge rejection: '' @ msg) s"
| "script_handle e (Main_failed msg) s = script_deny (''bridge fatal: '' @ msg) s"

definition script_step :: "script_env \<Rightarrow> script_input \<Rightarrow> script \<Rightarrow> script" where
  "script_step e i s = (if hs_exit s \<noteq> None then s else script_handle e i s)"

definition script_run :: "script_env \<Rightarrow> script_input list \<Rightarrow> script" where
  "script_run e is = fold (script_step e) is new_script"

text \<open>
  \<^verbatim>\<open>SELF_DENY_MS\<close>, and the delay \<^verbatim>\<open>setTimeout\<close> takes from it: a delay that is not a number, below 1 or above
  \<open>2147483647\<close> is set to 1, and fractions are cut off.
\<close>

definition SELF_DENY_MS :: "string option \<Rightarrow> jsnum" where
  "SELF_DENY_MS v = (case v of None \<Rightarrow> Fin (20 * 60 * 1000) | Some t \<Rightarrow> if t = [] then Fin (20 * 60 * 1000) else js_Number t)"

fun timer_delay :: "jsnum \<Rightarrow> rat" where
  "timer_delay (Fin q) = (if 1 \<le> q \<and> q \<le> 2147483647 then of_int \<lfloor>q\<rfloor> else 1)"
| "timer_delay _ = 1"

section \<open>One decision\<close>

definition decided :: "script \<Rightarrow> bool" where
  "decided s \<longleftrightarrow> hs_exit s = Some 0 \<and> hs_settled s \<and> (\<exists>d r. hs_out s = [script_output d r])"

definition undecided :: "script \<Rightarrow> bool" where
  "undecided s \<longleftrightarrow> hs_exit s = None \<and> \<not> hs_settled s \<and> hs_out s = []"

lemma decide_decides: "undecided s \<Longrightarrow> hs_out (script_decide d r s) = [script_output d r] \<and> decided (script_decide d r s)"
  by (auto simp: script_decide_def undecided_def decided_def)

lemma deny_decides: "undecided s \<Longrightarrow> hs_out (script_deny why s) = [script_output Deny (JStr why)] \<and> decided (script_deny why s)"
  unfolding script_deny_def by (rule decide_decides)

text \<open>What a list of lines comes to: the first line that is not passed over, if there is one, decides.\<close>

definition passed_over :: "script_env \<Rightarrow> string \<Rightarrow> bool" where
  "passed_over e line \<longleftrightarrow> blank line \<or> (\<exists>msg. he_parse e line = Some msg \<and> msg \<noteq> JNull
     \<and> \<not> is_str ''approval_decision'' (field ''kind'' (Some msg)))"

definition explicit_allow :: "script_env \<Rightarrow> string \<Rightarrow> bool" where
  "explicit_allow e line \<longleftrightarrow> (\<exists>msg. he_parse e line = Some msg
     \<and> is_str ''approval_decision'' (field ''kind'' (Some msg)) \<and> is_str ''allow'' (field ''decision'' (Some msg)))"

lemma script_lines_skip: "list_all (passed_over e) ls \<Longrightarrow> script_lines e (ls @ ms) s = script_lines e ms s"
  by (induction ls) (auto simp: passed_over_def)

lemma script_lines_first:
  assumes "undecided s" "\<not> passed_over e line"
  shows "decided (script_lines e (line # ls) s)"
    and "hs_out (script_lines e (line # ls) s) = [script_output Allow r] \<Longrightarrow> explicit_allow e line"
    and "script_lines e (line # ls) s = script_lines e [line] s"
proof -
  have d: "script_output Deny x \<noteq> script_output Allow y" for x y by (simp add: script_output_def)
  show "decided (script_lines e (line # ls) s)" "script_lines e (line # ls) s = script_lines e [line] s"
    using assms decide_decides deny_decides by (auto simp: passed_over_def split: option.splits)
  show "hs_out (script_lines e (line # ls) s) = [script_output Allow r] \<Longrightarrow> explicit_allow e line"
    using assms decide_decides [OF assms(1)] deny_decides [OF assms(1)] d
    by (auto simp: passed_over_def explicit_allow_def split: option.splits if_splits)
qed

fun received :: "script_input list \<Rightarrow> string" where
  "received [] = []"
| "received (Sock_data c # is) = c @ received is"
| "received (_ # is) = received is"

lemma received_append: "received (xs @ ys) = received xs @ received ys"
  by (induction xs rule: received.induct) simp_all

abbreviation received_lines :: "script_input list \<Rightarrow> string list" where
  "received_lines is \<equiv> fst (line_loop (received is))"

definition allowed_by :: "script_env \<Rightarrow> string list \<Rightarrow> bool" where
  "allowed_by e ls \<longleftrightarrow> (\<exists>as line bs. ls = as @ line # bs \<and> list_all (passed_over e) as \<and> explicit_allow e line)"

lemma allowed_by_more: "allowed_by e ls \<Longrightarrow> allowed_by e (ls @ ms)"
  by (auto simp: allowed_by_def) (metis append.assoc append_Cons)

text \<open>The invariant of a run: undecided, with every line so far passed over and the rest buffered, or decided once and for all.\<close>

definition script_inv :: "script_env \<Rightarrow> script_input list \<Rightarrow> script \<Rightarrow> bool" where
  "script_inv e is s \<longleftrightarrow>
     (undecided s \<and> list_all (passed_over e) (received_lines is) \<and> hs_buf s = snd (line_loop (received is)))
   \<or> (decided s \<and> (\<forall>r. hs_out s = [script_output Allow r] \<longrightarrow> allowed_by e (received_lines is)))"

lemma first_decisive:
  obtains "list_all P ls" | as line bs where "ls = as @ line # bs" "list_all P as" "\<not> P line"
proof (cases "list_all P ls")
  case False
  then have "\<exists>x \<in> set ls. \<not> P x" by (simp add: list_all_iff)
  from split_list_first_prop [OF this] that(2) show thesis by (auto simp: list_all_iff)
qed (rule that(1))

lemma script_data_inv:
  assumes "undecided s" "list_all (passed_over e) (received_lines is)" "hs_buf s = snd (line_loop (received is))"
  shows "script_inv e (is @ [Sock_data c]) (script_handle e (Sock_data c) s)"
proof -
  let ?l = "fst (line_loop (hs_buf s @ c))" and ?r = "snd (line_loop (hs_buf s @ c))"
  have all: "received_lines (is @ [Sock_data c]) = received_lines is @ ?l" "snd (line_loop (received (is @ [Sock_data c]))) = ?r"
    using line_loop_append [of "received is" c] by (simp_all add: received_append assms(3))
  have h: "script_handle e (Sock_data c) s = script_lines e ?l (s\<lparr>hs_buf := ?r\<rparr>)"
    by (simp add: feed_line_def split_beta)
  have u: "undecided (s\<lparr>hs_buf := ?r\<rparr>)" using assms(1) by (simp add: undecided_def)
  show ?thesis
  proof (cases ?l rule: first_decisive [where P = "passed_over e"])
    case 1
    then show ?thesis using script_lines_skip [OF 1, of "[]"] u assms(2) unfolding script_inv_def h all by simp
  next
    case (2 as line bs)
    have k: "script_lines e ?l (s\<lparr>hs_buf := ?r\<rparr>) = script_lines e (line # bs) (s\<lparr>hs_buf := ?r\<rparr>)"
      unfolding 2(1) by (rule script_lines_skip [OF 2(2)])
    note f = script_lines_first [OF u 2(3)]
    have "allowed_by e (received_lines is @ ?l)" if "hs_out (script_lines e (line # bs) (s\<lparr>hs_buf := ?r\<rparr>)) = [script_output Allow r]" for r
      unfolding allowed_by_def using f(2) [OF that] 2(1,2) assms(2)
      by (intro exI [of _ "received_lines is @ as"] exI [of _ line] exI [of _ bs]) simp
    then show ?thesis using f(1) unfolding script_inv_def h all k by blast
  qed
qed

lemma deny_inv: "undecided s \<Longrightarrow> script_inv e is (script_deny why s)"
  using deny_decides [of s why] by (simp add: script_inv_def script_output_def)

lemma script_step_inv:
  assumes "script_inv e is s"
  shows "script_inv e (is @ [i]) (script_step e i s)"
proof (cases "undecided s")
  case True
  then have s: "list_all (passed_over e) (received_lines is)" "hs_buf s = snd (line_loop (received is))"
    using assms by (auto simp: script_inv_def decided_def undecided_def)
  have st: "script_step e i s = script_handle e i s" using True by (simp add: script_step_def undecided_def)
  show ?thesis unfolding st
  proof (cases i)
    case (Sock_data c)
    then show "script_inv e (is @ [i]) (script_handle e i s)" using script_data_inv [OF True s] by simp
  next
    case (Stdin_end t)
    then show "script_inv e (is @ [i]) (script_handle e i s)" using True s deny_inv [OF True, of e "is @ [i]"]
      by (auto simp: script_inv_def received_append undecided_def split: option.splits)
  next
    case Sock_connect
    then show "script_inv e (is @ [i]) (script_handle e i s)" using True s
      by (auto simp: script_inv_def received_append undecided_def)
  qed (simp_all add: deny_inv [OF True])
next
  case False
  then have d: "decided s" "\<forall>r. hs_out s = [script_output Allow r] \<longrightarrow> allowed_by e (received_lines is)"
    using assms by (auto simp: script_inv_def)
  have "received_lines (is @ [i]) = received_lines is @ fst (line_loop (snd (line_loop (received is)) @ received [i]))"
    using line_loop_append [of "received is" "received [i]"] by (simp add: received_append)
  moreover have "script_step e i s = s" using d(1) by (simp add: script_step_def decided_def)
  ultimately show ?thesis using d allowed_by_more by (auto simp: script_inv_def)
qed

lemma script_run_inv: "script_inv e is (script_run e is)"
proof (induction "is" rule: rev_induct)
  case Nil
  then show ?case by (simp add: script_run_def script_inv_def new_script_def undecided_def)
next
  case (snoc i "is")
  then show ?case using script_step_inv by (simp add: script_run_def)
qed

text \<open>
  C7: The hook script fails closed. Whatever happens to its process, in whatever order, it prints at most one
  decision and exits exactly when it has printed it; and the decision is an allow only if the daemon sent a
  complete line that parses to an approval decision with the verdict allow, before which it sent
  nothing but blank lines and other messages.
\<close>

theorem hook_script_fails_closed:
  "(hs_out (script_run e is) = [] \<and> hs_exit (script_run e is) = None
     \<or> (\<exists>d r. hs_out (script_run e is) = [script_output d r]) \<and> hs_exit (script_run e is) = Some 0)
   \<and> (script_output Allow r \<in> set (hs_out (script_run e is)) \<longrightarrow> allowed_by e (received_lines is))"
  using script_run_inv [of e "is"] unfolding script_inv_def undecided_def decided_def by (metis empty_iff empty_set set_ConsD)

definition example_script_env :: script_env where
  "example_script_env = \<lparr>he_parse = (\<lambda>t. if t = ''ok'' then Some (JObj [(''kind'', JStr ''approval_decision''), (''decision'', JStr ''allow'')])
     else Some (JObj [])), he_type_error = ''null''\<rparr>"

theorem hook_script_fails_closed_witness:
  "let is = [Stdin_end ''{}'', Sock_connect, Sock_data ''o'', Sock_data (''k'' @ [newline])]
   in script_output Allow (JStr ''approved remotely'') \<in> set (hs_out (script_run example_script_env is))
     \<and> allowed_by example_script_env (received_lines is)"
proof -
  let ?is = "[Stdin_end ''{}'', Sock_connect, Sock_data ''o'', Sock_data (''k'' @ [newline])]"
  have "script_output Allow (JStr ''approved remotely'') \<in> set (hs_out (script_run example_script_env ?is))"
    by (simp add: script_run_def script_step_def new_script_def feed_line_def line_loop.simps blank_def js_space_def is_str_def
        script_decide_def or_text_def example_script_env_def)
  with hook_script_fails_closed [of example_script_env ?is "JStr ''approved remotely''"] show ?thesis unfolding Let_def by blast
qed

definition final_input :: "script_input \<Rightarrow> bool" where
  "final_input i = (case i of Sock_error _ \<Rightarrow> True | Sock_close \<Rightarrow> True | Self_deny \<Rightarrow> True | Uncaught _ \<Rightarrow> True
     | Unhandled _ \<Rightarrow> True | Main_failed _ \<Rightarrow> True | Stdin_failed \<Rightarrow> True | _ \<Rightarrow> False)"

lemma final_decides: "final_input i \<Longrightarrow> hs_exit s \<noteq> None \<or> undecided s \<Longrightarrow> hs_exit (script_step e i s) \<noteq> None"
proof -
  assume i: "final_input i" and s: "hs_exit s \<noteq> None \<or> undecided s"
  obtain why where "script_handle e i s = script_deny why s" using i by (cases i) (auto simp: final_input_def)
  then show ?thesis using s deny_decides [of s why] by (auto simp: script_step_def decided_def)
qed

lemma exit_stays: "hs_exit s \<noteq> None \<Longrightarrow> fold (script_step e) is s = s"
  by (induction "is") (simp_all add: script_step_def)

lemma run_exit_or_undecided: "hs_exit (script_run e is) \<noteq> None \<or> undecided (script_run e is)"
  using script_run_inv [of e "is"] by (auto simp: script_inv_def decided_def)

text \<open>
  C8: The hook script always decides: once its input or the daemon's socket fails, the socket closes, the
  deadline passes, or an exception or rejection escapes, it has printed exactly one decision, which later
  events do not change, and it is a deny unless the lines received before allowed the call.
\<close>

theorem hook_script_decides:
  assumes "final_input i"
  shows "\<exists>d r. hs_out (script_run e (before @ i # after)) = [script_output d r] \<and> hs_exit (script_run e (before @ i # after)) = Some 0
    \<and> (d = Allow \<longrightarrow> allowed_by e (received_lines before))"
proof -
  have ex: "hs_exit (script_run e (before @ [i])) \<noteq> None"
    using final_decides [OF assms run_exit_or_undecided [of e before], of e] by (simp add: script_run_def)
  have run: "script_run e (before @ i # after) = script_run e (before @ [i])"
    using exit_stays [OF ex] by (simp add: script_run_def)
  have "received [i] = []" using assms by (cases i) (auto simp: final_input_def)
  then have "received_lines (before @ [i]) = received_lines before" by (simp add: received_append)
  moreover have "decided (script_run e (before @ [i]))" "hs_out (script_run e (before @ [i])) = [script_output Allow r] \<Longrightarrow> allowed_by e (received_lines (before @ [i]))" for r
    using script_run_inv [of e "before @ [i]"] ex by (auto simp: script_inv_def undecided_def)
  ultimately show ?thesis unfolding run by (auto simp: decided_def)
qed

theorem hook_script_decides_witness:
  "\<exists>d r. hs_out (script_run example_script_env ([Stdin_end ''{}'', Sock_connect] @ Self_deny # [Sock_close])) = [script_output d r]
    \<and> hs_exit (script_run example_script_env ([Stdin_end ''{}'', Sock_connect] @ Self_deny # [Sock_close])) = Some 0
    \<and> (d = Allow \<longrightarrow> allowed_by example_script_env (received_lines [Stdin_end ''{}'', Sock_connect]))"
  by (rule hook_script_decides) (simp add: final_input_def)

section \<open>The deadline\<close>

lemma timer_delay_bounds: "1 \<le> timer_delay n \<and> timer_delay n \<le> 2147483647"
proof (cases n)
  case (Fin q)
  have "1 \<le> q \<Longrightarrow> q \<le> 2147483647 \<Longrightarrow> 1 \<le> (of_int \<lfloor>q\<rfloor> :: rat) \<and> (of_int \<lfloor>q\<rfloor> :: rat) \<le> 2147483647"
    by (metis floor_one floor_mono of_int_1 of_int_le_iff of_int_floor_le order_trans)
  then show ?thesis using Fin by simp
qed simp_all

lemma timer_delay_le: "1 \<le> q \<Longrightarrow> timer_delay (Fin q) \<le> q"
  by simp

lemma script_deadline:
  assumes "policy_check rd parse cwd selfDenyMs = Inr Margin_ok" "1 \<le> selfDenyMs" "js_Number t = Fin selfDenyMs" "t \<noteq> []"
  shows "(\<exists>raw s. rd (settings_path cwd) = Some raw \<and> parse raw = Some s \<and> bridge_timeouts (Some s) \<noteq> {}
        \<and> (\<forall>timeout \<in> bridge_timeouts (Some s). timer_delay (SELF_DENY_MS (Some t)) + 30000 \<le> timeout * 1000))"
proof -
  obtain raw s where rs: "rd (settings_path cwd) = Some raw" "parse raw = Some s"
    and ok: "evaluateHookMargin (Some s) selfDenyMs (settings_path cwd) = Inr Margin_ok"
    using assms(1) by (auto simp: policy_check_def split: option.splits)
  have d: "timer_delay (SELF_DENY_MS (Some t)) \<le> selfDenyMs"
    using timer_delay_le [OF assms(2)] assms(3,4) by (simp add: SELF_DENY_MS_def)
  have "bridge_timeouts (Some s) \<noteq> {}" "\<forall>t \<in> bridge_timeouts (Some s). selfDenyMs + MIN_MARGIN_MS \<le> t * 1000"
    using margin_ok_iff [OF ok] by simp_all
  then show ?thesis using rs d by (auto simp: MIN_MARGIN_MS_def)
qed

section \<open>The daemon and the script together\<close>

text \<open>The line the \<^verbatim>\<open>respond\<close> closure of the hook bridge writes for an effect \<open>Hook_write k v r\<close>.\<close>

definition decision_json :: "verdict \<Rightarrow> string \<Rightarrow> json" where
  "decision_json v r = JObj [(''kind'', JStr ''approval_decision''), (''decision'', JStr (permissionDecision v)), (''reason'', JStr r)]"

definition request_json :: "json \<Rightarrow> json" where
  "request_json event = JObj [(''kind'', JStr ''approval_request''), (''event'', event)]"

lemma script_lines_buf: "hs_out (script_lines e ls (s\<lparr>hs_buf := b\<rparr>)) = hs_out (script_lines e ls s)"
  by (induction ls) (auto simp: script_deny_def script_decide_def split: option.splits)

lemma script_chunks:
  "undecided s \<Longrightarrow> newline \<notin> set (hs_buf s) \<Longrightarrow>
    hs_out (fold (script_step e) (map Sock_data cs) s) = hs_out (script_lines e (fst (line_loop (hs_buf s @ concat cs))) s)"
proof (induction cs arbitrary: s)
  case (Cons c cs)
  let ?l = "fst (line_loop (hs_buf s @ c))" and ?r = "snd (line_loop (hs_buf s @ c))"
  let ?s = "s\<lparr>hs_buf := ?r\<rparr>" and ?m = "fst (line_loop (snd (line_loop (hs_buf s @ c)) @ concat cs))"
  have u: "undecided ?s" using Cons.prems(1) by (simp add: undecided_def)
  have st: "script_step e (Sock_data c) s = script_lines e ?l ?s"
    using Cons.prems(1) by (simp add: script_step_def undecided_def feed_line_def split_beta)
  have ll: "fst (line_loop (hs_buf s @ concat (c # cs))) = ?l @ ?m" using line_loop_append [of "hs_buf s @ c" "concat cs"] by simp
  show ?case
  proof (cases ?l rule: first_decisive [where P = "passed_over e"])
    case 1
    have "hs_out (fold (script_step e) (map Sock_data cs) ?s) = hs_out (script_lines e ?m ?s)"
      using Cons.IH [OF u] line_loop_rest by simp
    then show ?thesis using st script_lines_skip [OF 1, of "[]" ?s] script_lines_skip [OF 1, of ?m s]
      unfolding ll by (simp add: script_lines_buf)
  next
    case (2 as line bs)
    have a: "script_lines e ?l ?s = script_lines e [line] ?s"
      unfolding 2(1) script_lines_skip [OF 2(2)] by (rule script_lines_first(3) [OF u 2(3)])
    have "script_lines e (?l @ ?m) s = script_lines e [line] s"
      unfolding 2(1) append.assoc append.simps script_lines_skip [OF 2(2)] by (rule script_lines_first(3) [OF Cons.prems(1) 2(3)])
    moreover have "hs_exit (script_lines e ?l ?s) \<noteq> None" unfolding a using script_lines_first(1) [OF u 2(3), of "[]"] by (simp add: decided_def)
    then have "fold (script_step e) (map Sock_data (c # cs)) s = script_lines e [line] ?s" using exit_stays st a by simp
    ultimately show ?thesis unfolding ll by (simp only: script_lines_buf)
  qed
qed (simp add: undecided_def)


definition example_printer :: "json \<Rightarrow> string" where
  "example_printer j = (if j = decision_json Allow ''ok'' then ''d'' else ''r'')"

definition example_reader :: script_env where
  "example_reader = \<lparr>he_parse = (\<lambda>t. if t = ''d'' then Some (decision_json Allow ''ok'') else if t = ''r'' then Some (request_json (JObj [])) else Some (JObj [])),
     he_type_error = ''null''\<rparr>"


end
