(* ===== verification/AppTransport.thy ===== *)
theory AppTransport
  imports Client
begin

text \<open>
  The socket of the app, \<^verbatim>\<open>apps/mobile/src/core/transport.ts\<close>: a platform WebSocket drives a client controller that
  is made with it. The platform sets the ready state before it calls a listener; an error is followed by a close.
  An exception of the controller ends the listener that called it and nothing else.
\<close>

datatype ready_state = Ws_CONNECTING | Ws_OPEN | Ws_CLOSING | Ws_CLOSED

record 'k Connection =
  cn_readyState :: ready_state
  cn_controller :: "'k ClientController"
  cn_sent :: "Outbound list"
  cn_onClose :: nat

definition openWebSocket :: "string \<Rightarrow> 'k Connection" where
  "openWebSocket deviceId = \<lparr>cn_readyState = Ws_CONNECTING,
     cn_controller = \<lparr>cc_client = new_client deviceId, cc_buf = []\<rparr>, cn_sent = [], cn_onClose = 0\<rparr>"

text \<open>The \<^verbatim>\<open>write\<close> bound to the socket: a line for a socket that is not open is dropped.\<close>

definition app_write :: "Outbound list \<Rightarrow> 'k Connection \<Rightarrow> 'k Connection" where
  "app_write os cn = (if cn_readyState cn = Ws_OPEN then cn\<lparr>cn_sent := cn_sent cn @ os\<rparr> else cn)"

datatype ws_event = Ev_open | Ev_message string | Ev_close | Ev_error

fun ws_listener :: "'k SessionCrypto \<Rightarrow> (string \<Rightarrow> server_message option option) \<Rightarrow> ws_event \<Rightarrow> 'k Connection \<Rightarrow>
    client_effect list \<times> 'k Connection" where
  "ws_listener cr parse Ev_open cn =
     (let (os, h) = connected (cn_controller cn)
      in ([], app_write os (cn\<lparr>cn_readyState := Ws_OPEN, cn_controller := h\<rparr>)))"
| "ws_listener cr parse (Ev_message data) cn =
     (let (r, (es, os), h) = controller_feed cr parse data (cn_controller cn)
      in (es, app_write os (cn\<lparr>cn_controller := h\<rparr>)))"
| "ws_listener cr parse Ev_close cn =
     ([], cn\<lparr>cn_readyState := Ws_CLOSED, cn_controller := disconnected (cn_controller cn), cn_onClose := Suc (cn_onClose cn)\<rparr>)"
| "ws_listener cr parse Ev_error cn = ([], cn\<lparr>cn_readyState := Ws_CLOSED\<rparr>)"

definition conn_send :: "'k SessionCrypto \<Rightarrow> int \<Rightarrow> ClientCommand \<Rightarrow> bool \<Rightarrow> 'k Connection \<Rightarrow> (client_error + int) \<times> 'k Connection" where
  "conn_send cr seq command reliable cn =
     (case controller_send cr seq command reliable (cn_controller cn) of
        Inl err \<Rightarrow> (Inl err, cn)
      | Inr ((s, os), h) \<Rightarrow> (Inr s, app_write os (cn\<lparr>cn_controller := h\<rparr>)))"

definition app_close :: "'k Connection \<Rightarrow> 'k Connection" where
  "app_close cn = (if cn_readyState cn = Ws_CLOSED then cn else cn\<lparr>cn_readyState := Ws_CLOSING\<rparr>)"

section \<open>Properties\<close>

text \<open>
  A command given before the socket is open is not lost: nothing is written before, the socket then opens
  with a hello, and when the daemon answers with the session salt the command goes out, sealed at its number.
\<close>

lemma salt_line:
  assumes "newline \<notin> set line" "\<not> blank line" "parse line = Some (Some m)"
  shows "controller_feed cr parse (line @ [newline]) \<lparr>cc_client = c, cc_buf = []\<rparr> =
    (case onMessage cr (Some m) c of Inl err \<Rightarrow> (Some err, ([], []), \<lparr>cc_client = c, cc_buf = []\<rparr>)
     | Inr (es, c1) \<Rightarrow> (None, (es, rc_outbox c1), \<lparr>cc_client = c1\<lparr>rc_outbox := []\<rparr>, cc_buf = []\<rparr>))"
  using assms line_loop_line [OF assms(1), of "[]"]
  by (simp add: controller_feed_def feed_line_def flush_def drain_def split: sum.splits prod.splits)

theorem early_command_goes_out:
  assumes "newline \<notin> set line" "\<not> blank line" "parse line = Some (Some m)" "sm_type m = Some ''session_salt''"
    and "conn_send cr seq command True (openWebSocket dev) = (r, cn1)"
    and "ws_listener cr parse Ev_open cn1 = (es2, cn2)" "ws_listener cr parse (Ev_message (line @ [newline])) cn2 = (es3, cn3)"
  shows "r = Inr seq \<and> cn_sent cn1 = [] \<and> cn_sent cn2 = [O_hello dev None]
    \<and> cn_sent cn3 = [O_hello dev None, O_frame (sc_seal cr 0 (sc_deriveKey cr (sm_salt m)) seq command C2d)]"
proof -
  define c where "c = snd (client_send cr seq command True (new_client dev))"
  let ?o = "(onOpen c)\<lparr>rc_outbox := []\<rparr>"
  have c: "client_send cr seq command True (new_client dev) = (Inr seq, c)" "rc_outbox c = []" "rc_inb c = new_inbound"
    "rc_deviceId c = dev" "rc_key c = None" "rc_nonce c = 0" "pending (rc_resend c) = [(seq, command)]"
    unfolding c_def by (simp_all add: client_send_def new_client_def resend_add_def new_resend_def resend_default_capacity_def js_set_def pending_def)
  have 1: "r = Inr seq" "cn1 = (openWebSocket dev)\<lparr>cn_controller := \<lparr>cc_client = c\<lparr>rc_outbox := []\<rparr>, cc_buf = []\<rparr>\<rparr>"
    using assms(5) c(1) by (simp_all add: conn_send_def controller_send_def openWebSocket_def flush_def drain_def app_write_def)
  have 2: "cn_readyState cn2 = Ws_OPEN" "cn_sent cn2 = [O_hello dev None]" "cn_controller cn2 = \<lparr>cc_client = ?o, cc_buf = []\<rparr>"
    using assms(6) c unfolding 1(2)
    by (auto simp: connected_def flush_def drain_def onOpen_def openWebSocket_def app_write_def new_inbound_def inbound_lastSeq_def)
  have "onMessage cr (Some m) ?o = Inr (onSessionSalt cr m ?o)" using assms(4) c(5) by (simp add: onMessage_def onOpen_def)
  then have "cn_sent cn3 = [O_hello dev None, O_frame (sc_seal cr 0 (sc_deriveKey cr (sm_salt m)) seq command C2d)]"
    using assms(7) 2 c(6,7) by (auto simp: salt_line [where parse = parse, OF assms(1-3)] app_write_def onSessionSalt_def onOpen_def Let_def)
  then show ?thesis using 1 2(2) by (simp add: openWebSocket_def)
qed

theorem early_command_goes_out_witness:
  "cn_sent (snd (ws_listener example_crypto (\<lambda>_. Some (Some example_salt)) (Ev_message (''s'' @ [newline]))
     (snd (ws_listener example_crypto (\<lambda>_. Some (Some example_salt)) Ev_open
       (snd (conn_send example_crypto 7 List_cmd True (openWebSocket ''dev'')))))))
   = [O_hello ''dev'' None, O_frame (sc_seal example_crypto 0 (sc_deriveKey example_crypto ''c2FsdA'') 7 List_cmd C2d)]"
proof -
  have t: "sm_type example_salt = Some ''session_salt''" and u: "sm_salt example_salt = ''c2FsdA''" by (simp_all add: example_salt_def)
  have l: "newline \<notin> set ''s''" "\<not> blank ''s''" by (simp_all add: blank_def js_space_def)
  from early_command_goes_out [where parse = "\<lambda>_. Some (Some example_salt)" and cr = example_crypto and seq = 7 and command = List_cmd
      and dev = "''dev''", OF l refl t surjective_pairing surjective_pairing surjective_pairing]
  show ?thesis unfolding u by blast
qed

text \<open>
  A connection that the caller reopens forgets the commands. The controller keeps an unacknowledged command
  across \<^verbatim>\<open>disconnected()\<close> and \<^verbatim>\<open>connected()\<close>, but the transport makes a new controller with every socket: whatever
  the closed connection still had to resend or had received, the next one resends nothing and asks for
  everything anew.
\<close>

theorem reopened_connection_forgets:
  assumes "conn_send cr seq command True cn = (Inr seq, cn1)" "ws_listener cr parse Ev_close cn1 = (es, cn2)"
  shows "unacked (rc_resend (cc_client (snd (connected (cn_controller cn2))))) seq = Some command
    \<and> unacked (rc_resend (cc_client (cn_controller (openWebSocket dev)))) = (\<lambda>_. None)
    \<and> cn_sent (snd (ws_listener cr parse Ev_open (openWebSocket dev))) = [O_hello dev None]"
proof -
  let ?r = "client_send cr seq command True (cc_client (cn_controller cn))"
  have k: "fst ?r = Inr seq" "rc_resend (cc_client (cn_controller cn1)) = rc_resend (snd ?r)"
    using assms(1) by (auto simp: conn_send_def controller_send_def flush_def drain_def app_write_def split: sum.splits prod.splits if_splits)
  then have "unacked (rc_resend (cc_client (cn_controller cn1))) seq = Some command"
    by (auto simp: client_send_def resend_add_def unacked_def Let_def split: prod.splits if_splits option.splits)
  then have "unacked (rc_resend (cc_client (snd (connected (cn_controller cn2))))) seq = Some command"
    using assms(2) by (auto simp: connected_def flush_def drain_def onOpen_def disconnected_def onClose_def)
  then show ?thesis
    by (simp add: openWebSocket_def new_client_def new_resend_def unacked_def fun_eq_iff connected_def flush_def drain_def onOpen_def app_write_def
        new_inbound_def inbound_lastSeq_def)
qed

theorem reopened_connection_forgets_witness:
  "unacked (rc_resend (cc_client (snd (connected (cn_controller (snd (ws_listener example_crypto (\<lambda>_. None) Ev_close
      (snd (conn_send example_crypto 7 List_cmd True (openWebSocket ''dev'')))))))))) 7 = Some List_cmd"
proof -
  have "conn_send example_crypto 7 List_cmd True (openWebSocket ''dev'') = (Inr 7, snd (conn_send example_crypto 7 List_cmd True (openWebSocket ''dev'')))"
    by (simp add: conn_send_def controller_send_def openWebSocket_def flush_def drain_def client_send_def new_client_def resend_add_def new_resend_def
        resend_default_capacity_def)
  from reopened_connection_forgets [OF this surjective_pairing, of "\<lambda>_. None" "''dev''"] show ?thesis by (rule conjunct1)
qed

end
