(* ===== verification/Lifecycle.thy ===== *)
theory Lifecycle
  imports Config ExpoPush HookScript
begin

text \<open>
  How the daemon comes up and goes down: the start and the shutdown of \<^verbatim>\<open>packages/daemon/src/index.ts\<close>, the files
  of the durable store (\<^verbatim>\<open>Db.constructor\<close> of \<^verbatim>\<open>infrastructure/db.ts\<close>), and the environment a session gives to
  Claude Code and with it to the hook script (\<^verbatim>\<open>infrastructure/session.ts\<close>).
\<close>

section \<open>Start\<close>

datatype start = Exit_with nat | Running DaemonConfig

definition daemon_start :: "string \<Rightarrow> environment \<Rightarrow> start" where
  "daemon_start home env = (case loadConfig home env of Inl err \<Rightarrow> Exit_with 1 | Inr c \<Rightarrow> Running c)"

definition push_sender :: "(string \<Rightarrow> (bool \<times> string) option) \<Rightarrow> DaemonConfig \<Rightarrow> string list \<Rightarrow> push_log list \<times> send_outcome" where
  "push_sender parse_url c = (if dc_pushEnabled c then expo_send parse_url (dc_pushEndpoint c) else noopPushSender)"

text \<open>\<^verbatim>\<open>env: { ...process.env, CC_DAEMON_SOCK, CC_HOOK_SELF_DENY_MS }\<close>; an integer prints as its digits.\<close>

definition session_env :: "environment \<Rightarrow> string \<Rightarrow> jsnum \<Rightarrow> environment" where
  "session_env env socketPath selfDenyMs =
     env(''CC_DAEMON_SOCK'' := Some socketPath, ''CC_HOOK_SELF_DENY_MS'' := Some (num_text selfDenyMs))"

definition spawnSession_env :: "environment \<Rightarrow> DaemonConfig \<Rightarrow> environment" where
  "spawnSession_env env c = session_env env (dc_hookSock c) (dc_selfDenyMs c)"

section \<open>Files\<close>

text \<open>
  The modes of the files and directories that exist. \<^verbatim>\<open>chmod\<close> fails on a file that does not exist or is not
  ours; opening the database and enabling the write-ahead log create files at the umask.
\<close>

type_synonym modes = "string \<Rightarrow> nat option"

abbreviation owner_rw :: nat where "owner_rw \<equiv> 6 * 8 * 8"

abbreviation owner_rwx :: nat where "owner_rwx \<equiv> 7 * 8 * 8"

definition db_files :: "string \<Rightarrow> string list" where
  "db_files dbPath = [dbPath, dbPath @ ''-wal'', dbPath @ ''-shm'']"

definition restrictPermissions :: "(string \<Rightarrow> bool) \<Rightarrow> string \<Rightarrow> modes \<Rightarrow> modes" where
  "restrictPermissions ours dbPath =
     fold (\<lambda>f m. if m f \<noteq> None \<and> ours f then m(f \<mapsto> owner_rw) else m) (db_files dbPath)"

definition create_at :: "nat \<Rightarrow> string \<Rightarrow> modes \<Rightarrow> modes" where
  "create_at mode f m = (case m f of None \<Rightarrow> m(f \<mapsto> mode) | Some _ \<Rightarrow> m)"

text \<open>\<^verbatim>\<open>path.dirname\<close> of a path with a directory, and the directories \<^verbatim>\<open>mkdir\<close> with \<^verbatim>\<open>recursive\<close> makes when they are missing.\<close>

definition dirname :: "string \<Rightarrow> string" where
  "dirname p = rev (tl (dropWhile (\<lambda>c. c \<noteq> CHR ''/'') (rev p)))"

definition ancestors :: "string \<Rightarrow> string list" where
  "ancestors d = map (\<lambda>i. take i d) (filter (\<lambda>i. 0 < i \<and> (i = length d \<or> d ! i = CHR ''/'')) [0..<Suc (length d)])"

definition db_constructor :: "(string \<Rightarrow> bool) \<Rightarrow> nat \<Rightarrow> string \<Rightarrow> modes \<Rightarrow> modes" where
  "db_constructor ours umasked dbPath m =
     (let m = fold (create_at owner_rwx) (ancestors (dirname dbPath)) m;
          m = create_at umasked dbPath m;
          m = restrictPermissions ours dbPath m;
          m = create_at umasked (dbPath @ ''-shm'') (create_at umasked (dbPath @ ''-wal'') m)
      in restrictPermissions ours dbPath m)"

section \<open>Shutdown\<close>

datatype life_effect = Say string | End_stdin string | Close_db | Unlink string | Listen string | Exit_process nat

text \<open>The sockets of an earlier process are removed before the servers listen; a missing one is no error.\<close>

definition listen_effects :: "DaemonConfig \<Rightarrow> life_effect list" where
  "listen_effects c = map Unlink [dc_hookSock c, dc_clientSock c] @ map Listen [dc_hookSock c, dc_clientSock c]"

definition session_close :: "Session \<Rightarrow> life_effect" where
  "session_close s = End_stdin (ss_id s)"

definition shutdown :: "DaemonConfig \<Rightarrow> (string, Session) jsmap \<Rightarrow> life_effect list" where
  "shutdown c sessions = [Say ''shutting down''] @ map session_close (js_values sessions) @ [Close_db] @
     map Unlink [dc_hookSock c, dc_clientSock c] @ [Exit_process 0]"

section \<open>Properties\<close>

text \<open>A printed positive integer reads back.\<close>

lemma is_digit_digit: "is_digit (digit n)"
proof -
  have "\<forall>k \<in> set [0..<10]. is_digit (char_of (48 + k :: nat))" by code_simp
  then show ?thesis by simp
qed

lemma decimal_digits: "list_all is_digit (decimal n) \<and> decimal n \<noteq> []"
proof (induction n rule: decimal.induct)
  case (1 n)
  then show ?case using is_digit_digit [of n] by (cases "n < 10") (simp_all add: decimal.simps [of n] del: digit.simps)
qed

lemma js_Number_digits:
  assumes "list_all is_digit s" "s \<noteq> []"
  shows "js_Number s = to_double (of_nat (undecimal s))"
proof -
  have c: "\<not> js_space c" "c \<noteq> CHR ''-''" "c \<noteq> CHR ''+''" "c \<noteq> CHR ''I''" "radix_of c = None" if "is_digit c" for c
    using that by (auto simp: is_digit_def js_space_def radix_of_def)
  obtain d ds where s: "s = d # ds" using assms(2) by (cases s) auto
  have "js_trim s = s"
  proof -
    have "dropWhile js_space s = s" using assms c(1) s by simp
    moreover have "dropWhile js_space (rev s) = rev s" using assms c(1)
      by (cases s rule: rev_cases) (simp_all add: list_all_iff)
    ultimately show ?thesis by (simp add: js_trim_def)
  qed
  moreover have "signed_part s = (1, s)" using assms c(2,3) s by (simp add: signed_part_def)
  moreover have "radix_literal s = None"
    using assms c(5) by (auto simp: radix_literal_def split: list.splits)
  moreover have "s \<noteq> ''Infinity''" using assms c(4) s by auto
  moreover have tw: "takeWhile is_digit s = s" "dropWhile is_digit s = []" using assms by (simp_all add: list_all_iff)
  have "unsigned_decimal s = Some (of_nat (undecimal s))"
    using assms(2) unfolding unsigned_decimal_def tw Let_def by (simp add: exponent_part_def pow10_def)
  ultimately show ?thesis using assms(2) by (simp add: js_Number_def)
qed

lemma num_text_reads_back: "k < 2 ^ 1000 \<Longrightarrow> js_Number (num_text (Fin (of_nat k))) = Fin (of_nat k)"
proof -
  assume k: "k < 2 ^ 1000"
  have "quotient_of (of_nat k) = (int k, 1)" using quotient_of_int [of "int k"] by simp
  then have t: "num_text (Fin (of_nat k)) = decimal k" by (simp add: decimal_int_def)
  have "(of_nat k :: rat) < 2 ^ 1000" using k by (metis of_nat_less_iff of_nat_numeral of_nat_power)
  also have "(2 :: rat) ^ 1000 \<le> 2 ^ 1024 - 2 ^ 970" by simp
  finally have "to_double (of_nat k) = Fin (of_nat k)" by (simp add: to_double_def)
  then show ?thesis using js_Number_digits [of "decimal k"] decimal_digits [of k] unfolding t by simp
qed

lemma loadConfig_selfDeny:
  assumes "loadConfig home env = Inr c"
  obtains k where "1 \<le> k" "dc_selfDenyMs c = Fin (of_nat k)"
proof -
  have "real_cap (Fin (20 * 60 * 1000))" by (auto simp: real_cap_def intro!: exI [of _ 1200000])
  from positiveInt_Inr [OF loadConfig_fields(3) [OF assms] this] that show thesis unfolding real_cap_def by auto
qed



lemma restrictPermissions_at:
  "restrictPermissions ours p m f = (if f \<in> set (db_files p) \<and> m f \<noteq> None \<and> ours f then Some owner_rw else m f)"
  by (auto simp: restrictPermissions_def db_files_def)

lemma create_at_at: "create_at mode g m f = (if f = g \<and> m f = None then Some mode else m f)"
  by (auto simp: create_at_def split: option.splits)

lemma create_all_at: "fold (create_at mode) ds m f = (if f \<in> set ds \<and> m f = None then Some mode else m f)"
  by (induction ds arbitrary: m) (auto simp: create_at_at)

text \<open>
  The audit trail is private: wherever the database is, once the store is open its file and the two files of the
  write-ahead log are readable and writable by their owner only, directories made for it are
  closed to others, and whatever else was there keeps its mode.
\<close>

theorem db_files_private:
  assumes "\<forall>f \<in> set (db_files p). ours f" "m' = db_constructor ours umasked p m"
  shows "(\<forall>f \<in> set (db_files p). m' f = Some owner_rw)
    \<and> (\<forall>d. d \<notin> set (db_files p) \<longrightarrow>
        m' d = (if m d = None \<and> d \<in> set (ancestors (dirname p)) then Some owner_rwx else m d))"
  using assms(1) unfolding assms(2) db_constructor_def Let_def restrictPermissions_at create_at_at create_all_at
  by (auto simp: db_files_def)

theorem db_files_private_witness:
  "db_constructor (\<lambda>_. True) 420 ''/d/x.db'' (\<lambda>_. None) ''/d/x.db-wal'' = Some owner_rw
   \<and> db_constructor (\<lambda>_. True) 420 ''/d/x.db'' (\<lambda>_. None) ''/d'' = Some owner_rwx"
proof -
  have "ancestors (dirname ''/d/x.db'') = [''/d'']" "''/d/x.db-wal'' \<in> set (db_files ''/d/x.db'')" "''/d'' \<notin> set (db_files ''/d/x.db'')"
    by code_simp+
  then show ?thesis using db_files_private [OF _ refl, of "''/d/x.db''" "\<lambda>_. True" 420 "\<lambda>_. None"] by simp
qed

text \<open>
  Shutting down ends every session's input once, closes the store, removes both local sockets and exits
  with success, in this order; and without the opt-in no wake-up ever leaves the machine.
\<close>

theorem shutdown_orderly:
  "\<exists>ends. shutdown c sessions = Say ''shutting down'' # ends @ [Close_db, Unlink (dc_hookSock c), Unlink (dc_clientSock c), Exit_process 0]
     \<and> ends = map (\<lambda>s. End_stdin (ss_id s)) (js_values sessions)
     \<and> (\<not> dc_pushEnabled c \<longrightarrow> push_sender parse_url c tokens = ([], Resolved))"
  by (simp add: shutdown_def session_close_def push_sender_def noopPushSender_def)

end
