(* ===== verification/Spec2Isabelle.thy ===== *)
theory Spec2Isabelle
  imports Sync Resend Replay DeviceSessions Approvals HookMargin Db Jobs Framing Session HookBridge Pairing
    Client ClientHub ClientConnection Daemon DaemonTrace DaemonAudit WsServer Crypto
    FleetState DeviceStore JsNumbers Config Sanitize CliRender CliHost PairClient CliCommand ExpoPush
    QrField QrCode QrMatrix QrSymbol QrPair HookScript AppTransport Lifecycle
begin

text \<open>
  A verification development of \<^verbatim>\<open>claude-code-remote\<close>: a daemon that runs Claude Code sessions on one machine
  and lets paired devices watch and steer them over sealed, sequence-numbered channels, a command line
  client, and the core of a mobile app.

  \<^bold>\<open>The program and its model.\<close> The daemon (\<^verbatim>\<open>packages/daemon/src\<close>) spawns sessions from a job queue; every tool
  call of a session reaches the hook bridge and waits in the approval broker until a client decides it.
  Clients connect over a Unix socket, TCP or WebSocket, say hello with a device id, and from then on
  exchange sealed frames; every event a device misses is kept in a replay log. The shared kernel
  (\<^verbatim>\<open>packages/protocol/src\<close>) holds the wire types, the frame contract, the sequence streams and the reliable
  client, which the CLI (\<^verbatim>\<open>packages/cli/src\<close>) and the app (\<^verbatim>\<open>apps/mobile/src/core\<close>) host. Definitions carry the
  names of the source. State is passed explicitly, as a record per class; what a handler emits is a list
  of effects in order; an exception is a value of a sum type or, where nothing catches it, the
  end of the process.

  \<^item> \<^verbatim>\<open>Prelude\<close> holds JavaScript maps and sets with insertion order (locale \<open>keyed_store\<close>), JSON values, decimal
    rendering, and the locale \<open>chunked_parser\<close> of stream parsers that do not depend on how bytes are cut.
    \<^verbatim>\<open>JsNumbers\<close> holds \<^verbatim>\<open>Number(s)\<close> and the order with \<open>NaN\<close>. \<^verbatim>\<open>Types\<close> holds the wire types (\<^verbatim>\<open>types.ts\<close>, \<^verbatim>\<open>frame.ts\<close>).
  \<^item> \<^verbatim>\<open>Sync\<close> (\<^verbatim>\<open>sync.ts\<close>), \<^verbatim>\<open>Resend\<close> (\<^verbatim>\<open>resend.ts\<close>), \<^verbatim>\<open>Replay\<close> (\<^verbatim>\<open>replay.ts\<close>), \<^verbatim>\<open>DeviceSessions\<close> (\<^verbatim>\<open>deviceSessions.ts\<close>): numbering,
    duplicate suppression, resending, replay and acknowledgement. The main results are that a
    reconnect replays exactly what was missed or asks for a resync, and that an acknowledgement level
    covers only handled commands.
  \<^item> \<^verbatim>\<open>Approvals\<close> (\<^verbatim>\<open>approvals.ts\<close>) and \<^verbatim>\<open>HookBridge\<close> (\<^verbatim>\<open>hookBridge.ts\<close> and the broker listeners of \<^verbatim>\<open>index.ts\<close>): the first
    decision wins, every waiter is answered at most once and none is forgotten, a hook socket that closes
    denies what it claimed.
  \<^item> \<^verbatim>\<open>HookMargin\<close> (\<^verbatim>\<open>hookMargin.ts\<close>, \<^verbatim>\<open>hookMarginFile.ts\<close>, \<^verbatim>\<open>permissionMode.ts\<close>), \<^verbatim>\<open>Session\<close> (\<^verbatim>\<open>session.ts\<close>, \<^verbatim>\<open>sessionState.ts\<close>), \<^verbatim>\<open>Jobs\<close>
    (\<^verbatim>\<open>jobs.ts\<close>) and \<^verbatim>\<open>Db\<close> (\<^verbatim>\<open>db.ts\<close>): when a session may be spawned, how it runs, the queue with its cap, and
    the durable tables.
  \<^item> \<^verbatim>\<open>Framing\<close>, \<^verbatim>\<open>Pairing\<close> (\<^verbatim>\<open>pairing.ts\<close>, \<^verbatim>\<open>pairing-proof.ts\<close>, \<^verbatim>\<open>pairCode.ts\<close>), \<^verbatim>\<open>ClientHub\<close> (\<^verbatim>\<open>clientHub.ts\<close>), \<^verbatim>\<open>ClientConnection\<close>
    (\<^verbatim>\<open>clientConnection.ts\<close>), \<^verbatim>\<open>WsServer\<close> (\<^verbatim>\<open>wsServer.ts\<close>) and \<^verbatim>\<open>Crypto\<close> (\<^verbatim>\<open>frameCrypto.ts\<close>, \<^verbatim>\<open>crypto-node.ts\<close>): the transports, the
    handshake, and the frames at the level of bytes.
  \<^item> \<^verbatim>\<open>Daemon\<close> composes all of it (\<^verbatim>\<open>commands.ts\<close>, \<^verbatim>\<open>pushService.ts\<close>, the wiring of \<^verbatim>\<open>index.ts\<close>) into one state and one
    step function. \<^verbatim>\<open>DaemonTrace\<close> and \<^verbatim>\<open>DaemonAudit\<close> prove properties of whole runs through the locale
    \<open>handler_frame\<close>: an allow needs an authentic decision, no session runs in a mode that bypasses
    approvals, the decider on record is the device whose key opened the frame, a revoked device is
    forgotten everywhere. \<^verbatim>\<open>Config\<close> (\<^verbatim>\<open>config.ts\<close>, \<^verbatim>\<open>tailscale.ts\<close>, the listeners of \<^verbatim>\<open>index.ts\<close>) says when a daemon
    starts and what it exposes.
  \<^item> \<^verbatim>\<open>Client\<close> (\<^verbatim>\<open>client.ts\<close>, \<^verbatim>\<open>clientController.ts\<close>), \<^verbatim>\<open>FleetState\<close> (\<^verbatim>\<open>fleetState.ts\<close>), \<^verbatim>\<open>DeviceStore\<close> (\<^verbatim>\<open>deviceStore.ts\<close>), \<^verbatim>\<open>CliHost\<close> and
    \<^verbatim>\<open>CliRender\<close> (\<^verbatim>\<open>cc.ts\<close>), \<^verbatim>\<open>Sanitize\<close> (\<^verbatim>\<open>sanitize.ts\<close>, \<^verbatim>\<open>logger.ts\<close>): the clients. A reliable command is kept until it
    is acknowledged, a one-shot command reports success exactly then, the app's list is the broker's,
    concurrent processes draw distinct numbers, and nothing a peer sends can forge a line. \<^verbatim>\<open>PairClient\<close> (the pairing
    flows of \<^verbatim>\<open>cc.ts\<close> and of the app, \<^verbatim>\<open>pairing.ts\<close>, \<^verbatim>\<open>sessionCrypto.ts\<close>), \<^verbatim>\<open>CliCommand\<close> (the command line of \<^verbatim>\<open>cc.ts\<close>),
    \<^verbatim>\<open>AppTransport\<close> (\<^verbatim>\<open>transport.ts\<close>) and \<^verbatim>\<open>ExpoPush\<close> (\<^verbatim>\<open>expoPush.ts\<close>, the daemon's side of the wake-ups) complete them.
  \<^item> \<^verbatim>\<open>HookScript\<close> (\<^verbatim>\<open>hook/approve-bridge.mjs\<close>) is the process Claude Code asks before a tool. It prints exactly one
    decision, a deny unless the daemon sent an explicit allow, and what it prints is the daemon's verdict. \<^verbatim>\<open>Lifecycle\<close>
    (the start and the end of \<^verbatim>\<open>index.ts\<close>, the files of \<^verbatim>\<open>db.ts\<close>) ties its deadline to the margin rule.
  \<^item> \<^verbatim>\<open>QrField\<close>, \<^verbatim>\<open>QrCode\<close>, \<^verbatim>\<open>QrMatrix\<close>, \<^verbatim>\<open>QrSymbol\<close> and \<^verbatim>\<open>QrPair\<close> (\<^verbatim>\<open>qr.ts\<close>, \<^verbatim>\<open>pair-qr\<close> of \<^verbatim>\<open>cc.ts\<close>): the QR encoder from GF(256)
    (locale \<open>char2_ring\<close>) to the text on the terminal. The theorems compare it with a reference reader of
    the standard, written without the encoder's loops: every payload of at most 412 bytes reads back.

  \<^bold>\<open>Parameters.\<close> Ciphers, hashes, key generation, random ids, the clock, \<^verbatim>\<open>JSON.parse\<close> of a line, the file system
  below the operations named in \<^verbatim>\<open>DeviceStore\<close> and the output of \<^verbatim>\<open>tailscale\<close> are arguments or fields of an
  environment record. Laws they need (decryption inverts encryption, parsing inverts printing) are
  hypotheses of the theorem that uses them and are shown satisfiable by its witness.

  \<^bold>\<open>Bounds.\<close> Every loop of the source is a total function here: structural over lines, bytes or entries, or
  with a termination proof (the padding loops of the QR encoder by what is missing, its columns by their
  number). The only unbounded loop, waiting for the lock file, is a step relation, and
  \<open>reservation_ends\<close> bounds its steps. Word arithmetic is used where it wraps (the base64 accumulator,
  WebSocket masks); sequence numbers are unbounded integers, far below the 53 bits a JavaScript
  number keeps exact. Finite numbers are exact rationals, so rounding to binary64 is not modelled.

  \<^bold>\<open>Not modelled.\<close> SQLite below its statements and the tables of \<^verbatim>\<open>SCHEMA\<close>; the spawning of processes and the delivery
  of signals; sockets, TLS and HTTP below the events Node reports; React Native screens; the texts of
  log lines; the error correction of a damaged QR symbol, which is a reader's. Interfaces that only name
  types (\<^verbatim>\<open>application/ports.ts\<close>) appear as the records and parameters of the definitions that use them.
\<close>

end
